(* ===== verification/Prelude.thy ===== *)
theory Prelude
  imports Main "HOL-Library.Word" "HOL-Library.AList" "HOL-Library.Char_ord"
    "HOL-Library.List_Lexorder" "HOL-Library.Sublist"
begin

text \<open>
  What every component shares: the Python values the model uses (strings, byte strings,
  dictionaries), exceptions as the left summand of a sum, and the generic lemmas and fact
  collections the component theories work with.

  A Python \<open>str\<close> is an Isabelle \<open>string\<close>: a list of 8-bit code points, so the model covers
  text whose code points are below 256. All identifiers, keys and signatures of the program
  are hexadecimal, Base64 or UUID text, which is ASCII. A Python \<open>bytes\<close> is a list of
  \<open>8 word\<close>. A Python \<open>dict\<close> is an association list in insertion order:
  \<open>d[k] = v\<close> is \<open>AList.update k v d\<close>, which keeps the position of an existing key and
  appends a new one, \<open>d.pop(k)\<close> is \<open>AList.delete k d\<close>, \<open>d.get(k)\<close> is \<open>map_of d k\<close>,
  and \<open>d.values()\<close> is \<open>map snd d\<close>.
\<close>

type_synonym bytes = "8 word list"
type_synonym ('k, 'v) dict = "('k \<times> 'v) list"

section \<open>Exceptions and results\<close>

text \<open>
  The exceptions the program raises on purpose or meets in the standard library. A string is
  the message of the source (without interpolated identifiers).
\<close>

datatype pyexc =
    ValueError string
  | PolicyError string
  | KeyError string
  | AttributeError string
  | TypeError string
  | RuntimeError string
  | IndexError
  | AssertionError

type_synonym 'a res = "pyexc + 'a"

text \<open>Sequencing: the rest runs only when the first step returns.\<close>

fun bind_res :: "'e + 'a \<Rightarrow> ('a \<Rightarrow> 'e + 'b) \<Rightarrow> 'e + 'b" where
  "bind_res (Inl e) f = Inl e"
| "bind_res (Inr x) f = f x"

definition of_option :: "'e \<Rightarrow> 'a option \<Rightarrow> 'e + 'a" where
  "of_option e x = (case x of None \<Rightarrow> Inl e | Some v \<Rightarrow> Inr v)"

fun is_ok :: "'e + 'a \<Rightarrow> bool" where
  "is_ok (Inl _) = False"
| "is_ok (Inr _) = True"

lemma of_option_simps [simp]:
  "of_option e None = Inl e" "of_option e (Some v) = Inr v"
  by (simp_all add: of_option_def)

lemma of_option_Inr_iff [simp]: "of_option e x = Inr v \<longleftrightarrow> x = Some v"
  by (cases x) auto

lemma bind_res_Inr_iff: "bind_res m f = Inr y \<longleftrightarrow> (\<exists>x. m = Inr x \<and> f x = Inr y)"
  by (cases m) auto

lemma bind_res_Inl_iff:
  "bind_res m f = Inl e \<longleftrightarrow> m = Inl e \<or> (\<exists>x. m = Inr x \<and> f x = Inl e)"
  by (cases m) auto

lemma bind_res_cong [fundef_cong]:
  "m = m' \<Longrightarrow> (\<And>x. m' = Inr x \<Longrightarrow> f x = g x) \<Longrightarrow> bind_res m f = bind_res m' g"
  by (cases m') auto

lemma is_ok_iff: "is_ok r \<longleftrightarrow> (\<exists>x. r = Inr x)"
  by (cases r) auto

text \<open>A loop that calls a fallible function on each element and stops at the first error.\<close>

fun map_res :: "('a \<Rightarrow> 'e + 'b) \<Rightarrow> 'a list \<Rightarrow> 'e + 'b list" where
  "map_res f [] = Inr []"
| "map_res f (x # xs) = bind_res (f x) (\<lambda>y. bind_res (map_res f xs) (\<lambda>ys. Inr (y # ys)))"

lemma map_res_Inr: "(\<And>x. x \<in> set xs \<Longrightarrow> f x = Inr (g x)) \<Longrightarrow> map_res f xs = Inr (map g xs)"
  by (induction xs) auto

lemma map_res_cong [fundef_cong]:
  "xs = ys \<Longrightarrow> (\<And>x. x \<in> set ys \<Longrightarrow> f x = g x) \<Longrightarrow> map_res f xs = map_res g ys"
  by (induction ys arbitrary: xs) auto

section \<open>Dictionaries\<close>

abbreviation dict_wf :: "('k, 'v) dict \<Rightarrow> bool" where
  "dict_wf d \<equiv> distinct (map fst d)"

abbreviation dict_keys :: "('k, 'v) dict \<Rightarrow> 'k set" where
  "dict_keys d \<equiv> fst ` set d"

named_theorems dict_simps
  \<comment> \<open>lookup, keys and well-formedness after an update or a deletion\<close>

lemma dict_get_update [dict_simps]:
  "map_of (AList.update k v d) k' = (if k' = k then Some v else map_of d k')"
  by (simp add: update_conv')

lemma dict_get_delete [dict_simps]:
  "map_of (AList.delete k d) k' = (if k' = k then None else map_of d k')"
  by (simp add: delete_conv')

lemma dict_keys_update [dict_simps]: "dict_keys (AList.update k v d) = insert k (dict_keys d)"
  by (simp add: dom_update)

lemma dict_keys_delete [dict_simps]: "dict_keys (AList.delete k d) = dict_keys d - {k}"
  by (auto simp: AList.delete_eq)

lemma dict_wf_update [dict_simps]: "dict_wf d \<Longrightarrow> dict_wf (AList.update k v d)"
  by (simp add: distinct_update)

lemma dict_wf_delete [dict_simps]: "dict_wf d \<Longrightarrow> dict_wf (AList.delete k d)"
  by (simp add: distinct_delete)

lemma dict_update_new: "k \<notin> dict_keys d \<Longrightarrow> AList.update k v d = d @ [(k, v)]"
  by (induction d) auto

text \<open>The total of a numeric attribute over \<open>d.values()\<close>.\<close>

definition dict_total :: "('v \<Rightarrow> int) \<Rightarrow> ('k, 'v) dict \<Rightarrow> int" where
  "dict_total f d = sum_list (map (\<lambda>(_, v). f v) d)"

lemma dict_total_simps [simp]:
  "dict_total f [] = 0" "dict_total f ((k, v) # d) = f v + dict_total f d"
  by (simp_all add: dict_total_def)

lemma dict_total_delete:
  "dict_wf d \<Longrightarrow>
     dict_total f (AList.delete k d) =
       dict_total f d - (case map_of d k of None \<Rightarrow> 0 | Some v \<Rightarrow> f v)"
  by (induction d) (auto split: option.splits simp del: map_of_eq_Some_iff)

lemma dict_total_update:
  "dict_wf d \<Longrightarrow>
     dict_total f (AList.update k v d) =
       dict_total f d + f v - (case map_of d k of None \<Rightarrow> 0 | Some v' \<Rightarrow> f v')"
  by (induction d) (auto split: option.splits simp del: map_of_eq_Some_iff)

lemma dict_total_nonneg: "(\<And>k v. (k, v) \<in> set d \<Longrightarrow> 0 \<le> f v) \<Longrightarrow> 0 \<le> dict_total f d"
  by (induction d) fastforce+

lemma dict_total_update_le:
  assumes "dict_wf d" and "\<And>k v. (k, v) \<in> set d \<Longrightarrow> 0 \<le> f v"
  shows "dict_total f (AList.update k v d) \<le> dict_total f d + f v"
proof -
  have "0 \<le> (case map_of d k of None \<Rightarrow> 0 | Some v' \<Rightarrow> f v')"
    using assms(2) by (auto split: option.splits dest: map_of_SomeD)
  then show ?thesis using dict_total_update [OF assms(1), of f k v] by simp
qed

lemma dict_values_update_subset:
  "snd ` set (AList.update k v d) \<subseteq> insert v (snd ` set d)"
  by (induction d) auto

lemma dict_values_delete_subset: "set (AList.delete k d) \<subseteq> set d"
  by (auto simp: AList.delete_eq)

lemma dict_in_update:
  "(k', v') \<in> set (AList.update k v d) \<Longrightarrow> (k' = k \<and> v' = v) \<or> (k', v') \<in> set d"
  by (induction d) (auto split: if_splits)

lemma dict_in_delete: "(k', v') \<in> set (AList.delete k d) \<Longrightarrow> k' \<noteq> k \<and> (k', v') \<in> set d"
  by (auto simp: AList.delete_eq)

lemma dict_wf_map_of: "dict_wf d \<Longrightarrow> (k, v) \<in> set d \<longleftrightarrow> map_of d k = Some v"
  by simp

lemma dict_total_values: "dict_total f d = sum_list (map f (map snd d))"
  by (induction d) auto

text \<open>A dictionary whose keys are computed from its values: every value is found under its key.\<close>

lemma dict_self_keyed:
  assumes "dict_wf d" and "\<forall>(k, v) \<in> set d. key v = k"
  shows "distinct (map key (map snd d))"
    and "v \<in> snd ` set d \<Longrightarrow> map_of d (key v) = Some v"
proof -
  have "map (key \<circ> snd) d = map fst d"
    using assms(2) by (auto intro: map_cong)
  with assms(1) show "distinct (map key (map snd d))" by (simp only: map_map)
  show "v \<in> snd ` set d \<Longrightarrow> map_of d (key v) = Some v"
    using assms by auto
qed

text \<open>Loops that delete or file a list of values under their own keys.\<close>

lemma fold_delete_total:
  "dict_wf d \<Longrightarrow> distinct (map key ts) \<Longrightarrow> \<forall>t \<in> set ts. map_of d (key t) = Some t \<Longrightarrow>
     dict_total f (fold (\<lambda>t. AList.delete (key t)) ts d) = dict_total f d - sum_list (map f ts)"
proof (induction ts arbitrary: d)
  case (Cons t ts)
  have "\<forall>u \<in> set ts. map_of (AList.delete (key t) d) (key u) = Some u"
  proof
    fix u assume u: "u \<in> set ts"
    with Cons.prems(2) have "key u \<noteq> key t" by (metis (no_types) distinct.simps(2) image_eqI list.set_map list.simps(9))
    with u Cons.prems(3) show "map_of (AList.delete (key t) d) (key u) = Some u"
      by (simp add: dict_simps)
  qed
  with Cons.IH [of "AList.delete (key t) d"] Cons.prems
  show ?case by (simp add: dict_simps dict_total_delete del: map_of_eq_Some_iff)
qed simp

lemma fold_delete_keys [dict_simps]:
  "dict_keys (fold (\<lambda>t. AList.delete (key t)) ts d) = dict_keys d - key ` set ts"
  by (induction ts arbitrary: d) (auto simp: dict_simps)

lemma fold_delete_wf [dict_simps]:
  "dict_wf d \<Longrightarrow> dict_wf (fold (\<lambda>t. AList.delete (key t)) ts d)"
  by (induction ts arbitrary: d) (auto simp: dict_simps)

lemma fold_update_keys [dict_simps]:
  "dict_keys (fold (\<lambda>t. AList.update (key t) t) ts d) = dict_keys d \<union> key ` set ts"
  by (induction ts arbitrary: d) (auto simp: dict_simps)

lemma fold_update_lookup_other:
  "k \<notin> key ` set ts \<Longrightarrow> map_of (fold (\<lambda>t. AList.update (key t) (g t)) ts d) k = map_of d k"
  by (induction ts arbitrary: d) (auto simp: dict_simps)

lemma fold_update_lookup:
  "distinct (map key ts) \<Longrightarrow> t \<in> set ts \<Longrightarrow>
     map_of (fold (\<lambda>t. AList.update (key t) (g t)) ts d) (key t) = Some (g t)"
  by (induction ts arbitrary: d) (auto simp: dict_simps fold_update_lookup_other)

section \<open>Sorted pools and sub-sequences\<close>

lemma sum_list_insort_key:
  fixes f :: "'a \<Rightarrow> int"
  shows "sum_list (map f (insort_key g x xs)) = f x + sum_list (map f xs)"
  by (induction xs) auto

lemma sum_list_sort_key [simp]:
  fixes f :: "'a \<Rightarrow> int"
  shows "sum_list (map f (sort_key g xs)) = sum_list (map f xs)"
  by (induction xs) (auto simp: sum_list_insort_key)

lemma subseq_distinct: "subseq xs ys \<Longrightarrow> distinct ys \<Longrightarrow> distinct xs"
  by (induction rule: list_emb.induct) (auto dest: list_emb_set)

lemma subseq_subset: "subseq xs ys \<Longrightarrow> set xs \<subseteq> set ys"
  by (auto dest: list_emb_set)

lemma subseq_sum_le:
  fixes v :: "'a \<Rightarrow> int"
  shows "subseq xs ys \<Longrightarrow> \<forall>y \<in> set ys. 0 \<le> v y \<Longrightarrow> sum_list (map v xs) \<le> sum_list (map v ys)"
proof (induction rule: list_emb.induct)
  case (list_emb_Nil ys)
  then have "0 \<le> sum_list (map v ys)" by (intro sum_list_nonneg) auto
  then show ?case by simp
qed auto

lemma subseq_take: "subseq (take n xs) xs"
  by (metis append_take_drop_id list_emb_prefix subseq_order.order_refl)

section \<open>Greedy accumulation\<close>

text \<open>
  The loop that three wallets share: walk over the pool, append each element to the selection
  and add its value, and return as soon as the running total covers the amount. \<open>None\<close> is
  the loop running off the end of the pool.
\<close>

fun greedy_loop :: "('a \<Rightarrow> int) \<Rightarrow> int \<Rightarrow> 'a list \<Rightarrow> int \<Rightarrow> 'a list \<Rightarrow> 'a list option" where
  "greedy_loop v amount selected tot [] = None"
| "greedy_loop v amount selected tot (t # ts) =
     (let selected' = selected @ [t]; tot' = tot + v t
      in if amount \<le> tot' then Some selected'
         else greedy_loop v amount selected' tot' ts)"

lemma greedy_loop_append:
  "greedy_loop v amount selected tot ts =
     map_option ((@) selected) (greedy_loop v amount [] tot ts)"
proof (induction ts arbitrary: selected tot)
  case (Cons t ts)
  show ?case
    by (simp add: Let_def Cons.IH [of "selected @ [t]"] Cons.IH [of "[t]"]
        option.map_comp comp_def)
qed simp

text \<open>
  What the loop returns: the shortest non-empty prefix of the pool whose total covers what is
  still missing.
\<close>

lemma greedy_loop_Some:
  "greedy_loop v amount [] tot ts = Some r \<Longrightarrow>
     \<exists>n. 0 < n \<and> n \<le> length ts \<and> r = take n ts \<and> amount \<le> tot + sum_list (map v r) \<and>
       (\<forall>m. 0 < m \<and> m < n \<longrightarrow> tot + sum_list (map v (take m ts)) < amount)"
proof (induction ts arbitrary: tot r)
  case (Cons t ts)
  show ?case
  proof (cases "amount \<le> tot + v t")
    case True
    with Cons.prems show ?thesis by (intro exI [of _ 1]) auto
  next
    case False
    with Cons.prems obtain r' where r': "greedy_loop v amount [] (tot + v t) ts = Some r'"
      and r: "r = t # r'"
      by (auto simp: Let_def greedy_loop_append [of _ _ "[t]"])
    from Cons.IH [OF r'] obtain n where n: "0 < n" "n \<le> length ts" "r' = take n ts"
      "amount \<le> tot + v t + sum_list (map v r')"
      "\<forall>m. 0 < m \<and> m < n \<longrightarrow> tot + v t + sum_list (map v (take m ts)) < amount"
      by auto
    have "tot + sum_list (map v (take m (t # ts))) < amount" if "0 < m" "m < Suc n" for m
    proof (cases "m - 1 = 0")
      case True
      with that have "m = 1" by simp
      with False show ?thesis by simp
    next
      case nz: False
      with that have "tot + v t + sum_list (map v (take (m - 1) ts)) < amount"
        by (intro n(5) [rule_format]) auto
      with that show ?thesis by (cases m) (auto simp: algebra_simps)
    qed
    with n r show ?thesis by (intro exI [of _ "Suc n"]) (auto simp: algebra_simps)
  qed
qed simp

lemma greedy_loop_None_iff:
  "greedy_loop v amount [] tot ts = None \<longleftrightarrow>
     (\<forall>n. 0 < n \<and> n \<le> length ts \<longrightarrow> tot + sum_list (map v (take n ts)) < amount)"
proof (induction ts arbitrary: tot)
  case (Cons t ts)
  have split: "(\<forall>n. 0 < n \<and> n \<le> length (t # ts) \<longrightarrow> Q n) \<longleftrightarrow>
      Q 1 \<and> (\<forall>n. 0 < n \<and> n \<le> length ts \<longrightarrow> Q (Suc n))" for Q :: "nat \<Rightarrow> bool"
  proof (intro iffI conjI allI impI)
    fix n assume "Q 1 \<and> (\<forall>n. 0 < n \<and> n \<le> length ts \<longrightarrow> Q (Suc n))"
      and "0 < n \<and> n \<le> length (t # ts)"
    then show "Q n" by (cases n; cases "n - 1") auto
  qed auto
  show ?case
    unfolding split by (auto simp: Let_def greedy_loop_append [of _ _ "[t]"] Cons.IH algebra_simps)
qed simp

lemma sum_list_take_le:
  fixes v :: "'a \<Rightarrow> int"
  assumes "\<forall>x \<in> set ts. 0 \<le> v x"
  shows "sum_list (map v (take n ts)) \<le> sum_list (map v ts)"
proof -
  have "sum_list (map v ts) = sum_list (map v (take n ts)) + sum_list (map v (drop n ts))"
    by (metis append_take_drop_id map_append sum_list.append)
  moreover have "0 \<le> sum_list (map v (drop n ts))"
    using assms by (intro sum_list_nonneg) (auto dest: in_set_dropD)
  ultimately show ?thesis by simp
qed

text \<open>On non-negative values the loop fails exactly when the whole pool does not cover the amount.\<close>

lemma greedy_loop_None_nonneg:
  assumes "\<forall>x \<in> set ts. 0 \<le> v x" and "0 < amount"
  shows "greedy_loop v amount [] 0 ts = None \<longleftrightarrow> sum_list (map v ts) < amount"
proof (cases "ts = []")
  case True
  with assms(2) show ?thesis by simp
next
  case False
  then have "0 < length ts" by simp
  show ?thesis
    unfolding greedy_loop_None_iff
    using \<open>0 < length ts\<close> sum_list_take_le [OF assms(1)]
    by (metis add_0 le_less_trans order_refl take_all)
qed

end
