(* ===== verification/PyCodec.thy ===== *)
theory PyCodec
  imports Prelude
begin

text \<open>
  The byte and text codecs of the Python standard library that the program calls:
  \<open>str.encode("utf-8")\<close> and \<open>bytes.decode("utf-8")\<close>, \<open>bytes.hex()\<close> and
  \<open>bytes.fromhex\<close>, \<open>base64.b64encode\<close> and \<open>base64.b64decode\<close> (with its default, lenient
  treatment of characters outside the alphabet), each with its round trip.
\<close>

section \<open>Characters and bytes\<close>

abbreviation char_code :: "char \<Rightarrow> nat" where
  "char_code c \<equiv> of_char c"

abbreviation byte_val :: "8 word \<Rightarrow> nat" where
  "byte_val b \<equiv> unat b"

lemma byte_val_less [simp]: "byte_val b < 256"
  using unsigned_less [of b, where ?'a = nat] by simp

lemma unat_of_nat_byte: "n < 256 \<Longrightarrow> unat (of_nat n :: 8 word) = n"
  by (simp add: unat_of_nat)

section \<open>UTF-8\<close>

definition utf8_char :: "char \<Rightarrow> bytes" where
  "utf8_char c =
     (let n = char_code c
      in if n < 128 then [of_nat n] else [of_nat (192 + n div 64), of_nat (128 + n mod 64)])"

definition utf8_encode :: "string \<Rightarrow> bytes" where
  "utf8_encode s = concat (map utf8_char s)"

text \<open>Decoding; \<open>None\<close> stands for \<open>UnicodeDecodeError\<close> and for a code point of 256 or more.\<close>

fun utf8_decode :: "bytes \<Rightarrow> string option" where
  "utf8_decode [] = Some []"
| "utf8_decode (b # bs) =
     (if byte_val b < 128
      then map_option ((#) (char_of (byte_val b))) (utf8_decode bs)
      else case bs of
        [] \<Rightarrow> None
      | b' # bs' \<Rightarrow>
          if (byte_val b = 194 \<or> byte_val b = 195) \<and> 128 \<le> byte_val b' \<and> byte_val b' < 192
          then map_option ((#) (char_of ((byte_val b - 192) * 64 + (byte_val b' - 128))))
                 (utf8_decode bs')
          else None)"

lemma utf8_encode_Nil [simp]: "utf8_encode [] = []"
  and utf8_encode_Cons [simp]: "utf8_encode (c # s) = utf8_char c @ utf8_encode s"
  and utf8_encode_append [simp]: "utf8_encode (s @ t) = utf8_encode s @ utf8_encode t"
  by (simp_all add: utf8_encode_def)

lemma utf8_decode_char:
  "utf8_decode (utf8_char c @ bs) = map_option ((#) c) (utf8_decode bs)"
proof (cases "char_code c < 128")
  case True
  then show ?thesis by (simp add: utf8_char_def unat_of_nat_byte)
next
  case False
  have lt: "char_code c < 256" by simp
  have q: "char_code c div 64 = 2 \<or> char_code c div 64 = 3" using False lt by linarith
  have v: "byte_val (of_nat (192 + char_code c div 64)) = 192 + char_code c div 64"
    using q by (intro unat_of_nat_byte) auto
  have w: "byte_val (of_nat (128 + char_code c mod 64)) = 128 + char_code c mod 64"
    by (intro unat_of_nat_byte) (use mod_less_divisor [of 64 "char_code c"] in linarith)
  have e: "(192 + char_code c div 64 - 192) * 64 + (128 + char_code c mod 64 - 128) = char_code c"
    using div_mult_mod_eq [of "char_code c" 64] by simp
  have m: "char_code c mod 64 < 64" by simp
  show ?thesis
    unfolding utf8_char_def Let_def using False q m
    by (simp del: of_nat_add add: v w e)
qed

lemma utf8_roundtrip: "utf8_decode (utf8_encode s) = Some s"
  by (induction s) (simp_all add: utf8_decode_char)

lemma utf8_encode_inject [simp]: "utf8_encode s = utf8_encode t \<longleftrightarrow> s = t"
  by (metis option.inject utf8_roundtrip)

section \<open>Hexadecimal text\<close>

definition hex_digit :: "nat \<Rightarrow> char" where
  "hex_digit n = ''0123456789abcdef'' ! n"

definition hex_value :: "char \<Rightarrow> nat option" where
  "hex_value c =
     (let n = char_code c
      in if 48 \<le> n \<and> n \<le> 57 then Some (n - 48)
         else if 97 \<le> n \<and> n \<le> 102 then Some (n - 87)
         else if 65 \<le> n \<and> n \<le> 70 then Some (n - 55)
         else None)"

definition hex_byte :: "8 word \<Rightarrow> string" where
  "hex_byte b = [hex_digit (byte_val b div 16), hex_digit (byte_val b mod 16)]"

text \<open>\<open>bytes.hex()\<close>\<close>

definition to_hex :: "bytes \<Rightarrow> string" where
  "to_hex bs = concat (map hex_byte bs)"

definition is_ascii_space :: "char \<Rightarrow> bool" where
  "is_ascii_space c \<longleftrightarrow> char_code c \<in> {9, 10, 11, 12, 13, 32}"

text \<open>
  \<open>bytes.fromhex\<close>: white space is skipped before each byte, the two digits of a byte are
  adjacent; \<open>None\<close> is the \<open>ValueError\<close> for any other character or an odd digit.
\<close>

fun from_hex :: "string \<Rightarrow> bytes option" where
  "from_hex [] = Some []"
| "from_hex (c # cs) =
     (if is_ascii_space c then from_hex cs
      else case cs of
        [] \<Rightarrow> None
      | d # ds \<Rightarrow>
          (case (hex_value c, hex_value d) of
             (Some h, Some l) \<Rightarrow> map_option ((#) (of_nat (16 * h + l))) (from_hex ds)
           | _ \<Rightarrow> None))"

lemma less_16_cases: "(n::nat) < 16 \<Longrightarrow> n \<in> {0,1,2,3,4,5,6,7,8,9,10,11,12,13,14,15}"
  by (auto simp: numeral_eq_Suc less_Suc_eq)

lemma hex_digit_value: "n < 16 \<Longrightarrow> hex_value (hex_digit n) = Some n"
  by (drule less_16_cases) (auto simp: hex_digit_def hex_value_def Let_def)

lemma hex_digit_not_space: "n < 16 \<Longrightarrow> \<not> is_ascii_space (hex_digit n)"
  by (drule less_16_cases) (auto simp: hex_digit_def is_ascii_space_def)

lemma to_hex_Nil [simp]: "to_hex [] = []"
  and to_hex_Cons [simp]: "to_hex (b # bs) = hex_byte b @ to_hex bs"
  by (simp_all add: to_hex_def)

lemma hex_roundtrip [simp]: "from_hex (to_hex bs) = Some bs"
proof (induction bs)
  case (Cons b bs)
  have d: "byte_val b div 16 < 16" and m: "byte_val b mod 16 < 16"
    using byte_val_less [of b] by (simp, linarith) simp
  have "16 * (byte_val b div 16) + byte_val b mod 16 = byte_val b"
    by simp
  then have "(of_nat (16 * (byte_val b div 16) + byte_val b mod 16) :: 8 word) = b"
    by (metis of_nat_unat ucast_id)
  with Cons show ?case
    by (simp only: to_hex_Cons hex_byte_def append.simps from_hex.simps hex_digit_value [OF d]
        hex_digit_value [OF m] hex_digit_not_space [OF d] list.case prod.case option.case
        if_False option.map)
qed simp

lemma to_hex_inject [simp]: "to_hex a = to_hex b \<longleftrightarrow> a = b"
  by (metis hex_roundtrip option.inject)

lemma length_to_hex [simp]: "length (to_hex bs) = 2 * length bs"
  by (induction bs) (simp_all add: hex_byte_def)

section \<open>Base64\<close>

definition b64_char :: "nat \<Rightarrow> char" where
  "b64_char n = ''ABCDEFGHIJKLMNOPQRSTUVWXYZabcdefghijklmnopqrstuvwxyz0123456789+/'' ! n"

definition b64_value :: "char \<Rightarrow> nat option" where
  "b64_value c =
     (let n = char_code c
      in if 65 \<le> n \<and> n \<le> 90 then Some (n - 65)
         else if 97 \<le> n \<and> n \<le> 122 then Some (n - 71)
         else if 48 \<le> n \<and> n \<le> 57 then Some (n + 4)
         else if n = 43 then Some 62
         else if n = 47 then Some 63
         else None)"

text \<open>\<open>base64.b64encode(b).decode("ascii")\<close>\<close>

fun b64encode :: "bytes \<Rightarrow> string" where
  "b64encode [] = []"
| "b64encode [a] =
     [b64_char (byte_val a div 4), b64_char (byte_val a mod 4 * 16), CHR ''='', CHR ''='']"
| "b64encode [a, b] =
     [b64_char (byte_val a div 4), b64_char (byte_val a mod 4 * 16 + byte_val b div 16),
      b64_char (byte_val b mod 16 * 4), CHR ''='']"
| "b64encode (a # b # c # bs) =
     b64_char (byte_val a div 4) # b64_char (byte_val a mod 4 * 16 + byte_val b div 16) #
     b64_char (byte_val b mod 16 * 4 + byte_val c div 64) # b64_char (byte_val c mod 64) #
     b64encode bs"

text \<open>
  \<open>base64.b64decode\<close> without \<open>validate\<close>, as \<open>binascii.a2b_base64\<close> scans: characters
  outside the alphabet are skipped, a complete padding ends the scan, whatever follows it is
  ignored. The arguments are the position in the quad, the bits left over and the padding
  characters seen; \<open>None\<close> is \<open>binascii.Error\<close>, a \<open>ValueError\<close>.
\<close>

fun b64_scan :: "nat \<Rightarrow> nat \<Rightarrow> nat \<Rightarrow> string \<Rightarrow> bytes option" where
  "b64_scan quad left pads [] = (if quad = 0 then Some [] else None)"
| "b64_scan quad left pads (c # cs) =
     (if c = CHR ''='' then
        (if 2 \<le> quad \<and> 4 \<le> quad + Suc pads then Some []
         else b64_scan quad left (if 2 \<le> quad then Suc pads else pads) cs)
      else case b64_value c of
        None \<Rightarrow> b64_scan quad left pads cs
      | Some n \<Rightarrow>
          (if quad = 0 then b64_scan 1 n 0 cs
           else if quad = 1 then
             map_option ((#) (of_nat (left * 4 + n div 16))) (b64_scan 2 (n mod 16) 0 cs)
           else if quad = 2 then
             map_option ((#) (of_nat (left * 16 + n div 4))) (b64_scan 3 (n mod 4) 0 cs)
           else map_option ((#) (of_nat (left * 64 + n))) (b64_scan 0 0 0 cs)))"

definition b64decode :: "string \<Rightarrow> bytes option" where
  "b64decode s = (if list_all (\<lambda>c. char_code c < (128::nat)) s then b64_scan 0 0 0 s else None)"

lemma less_64_upt: "(n::nat) < 64 \<longleftrightarrow> n \<in> set [0..<64]"
  by simp

lemma b64_char_facts:
  assumes "n < 64"
  shows "b64_value (b64_char n) = Some n \<and> b64_char n \<noteq> CHR ''='' \<and> char_code (b64_char n) < (128::nat)"
proof -
  have "\<forall>n \<in> set [0..<64]. b64_value (b64_char n) = Some n \<and> b64_char n \<noteq> CHR ''='' \<and>
      char_code (b64_char n) < (128::nat)"
    by (simp add: upt_rec b64_char_def b64_value_def Let_def)
  with assms show ?thesis by (simp add: less_64_upt del: set_upt)
qed

lemmas b64_char_value = b64_char_facts [THEN conjunct1]
  and b64_char_not_pad = b64_char_facts [THEN conjunct2, THEN conjunct1]
  and b64_char_ascii = b64_char_facts [THEN conjunct2, THEN conjunct2]

lemma b64_parts:
  "byte_val a div 4 < 64" "byte_val a mod 4 * 16 + byte_val b div 16 < 64"
  "byte_val a mod 4 * 16 < 64" "byte_val b mod 16 * 4 + byte_val c div 64 < 64"
  "byte_val b mod 16 * 4 < 64" "byte_val c mod 64 < 64"
  using byte_val_less [of a] byte_val_less [of b] byte_val_less [of c]
    mod_less_divisor [of 4 "byte_val a"] mod_less_divisor [of 16 "byte_val b"]
  by linarith+

lemma of_nat_byte_val: "n = byte_val a \<Longrightarrow> (of_nat n :: 8 word) = a"
  by (metis of_nat_unat ucast_id)

lemma nat_join:
  fixes a b c :: nat
  assumes "a < 256" "b < 256" "c < 256"
  shows "a div 4 * 4 + (a mod 4 * 16 + b div 16) div 16 = a"
    and "a div 4 * 4 + (a mod 4 * 16) div 16 = a"
    and "(a mod 4 * 16 + b div 16) mod 16 * 16 + (b mod 16 * 4 + c div 64) div 4 = b"
    and "(a mod 4 * 16 + b div 16) mod 16 * 16 + (b mod 16 * 4) div 4 = b"
    and "(b mod 16 * 4 + c div 64) mod 4 * 64 + c mod 64 = c"
proof -
  have b16: "b div 16 < 16" and c64: "c div 64 < 4"
    using assms by (simp_all add: less_mult_imp_div_less)
  then show "a div 4 * 4 + (a mod 4 * 16 + b div 16) div 16 = a"
    and "a div 4 * 4 + (a mod 4 * 16) div 16 = a"
    and "(a mod 4 * 16 + b div 16) mod 16 * 16 + (b mod 16 * 4 + c div 64) div 4 = b"
    and "(a mod 4 * 16 + b div 16) mod 16 * 16 + (b mod 16 * 4) div 4 = b"
    and "(b mod 16 * 4 + c div 64) mod 4 * 64 + c mod 64 = c"
    by (simp_all only: div_mult_self3 mod_mult_self3 div_less mod_less add_0_right
        nonzero_mult_div_cancel_right zero_neq_numeral not_False_eq_True div_mult_mod_eq)
qed

lemmas b64_join = nat_join [OF byte_val_less byte_val_less byte_val_less, THEN of_nat_byte_val]

text \<open>One full quad, and the two ways a padded text ends.\<close>

lemma b64_scan_quad:
  assumes "n1 < 64" "n2 < 64" "n3 < 64" "n4 < 64"
  shows "b64_scan 0 0 0 (b64_char n1 # b64_char n2 # b64_char n3 # b64_char n4 # cs) =
     map_option (\<lambda>r. of_nat (n1 * 4 + n2 div 16) # of_nat (n2 mod 16 * 16 + n3 div 4) #
       of_nat (n3 mod 4 * 64 + n4) # r) (b64_scan 0 0 0 cs)"
  using assms
  by (simp add: b64_char_not_pad b64_char_value option.map_comp comp_def del: of_nat_add of_nat_mult)

lemma b64_scan_tail1:
  assumes "n1 < 64" "n2 < 64"
  shows "b64_scan 0 0 0 [b64_char n1, b64_char n2, CHR ''='', CHR ''=''] =
      Some [of_nat (n1 * 4 + n2 div 16)]"
  using assms
  by (simp add: b64_char_not_pad b64_char_value del: of_nat_add of_nat_mult)

lemma b64_scan_tail2:
  assumes "n1 < 64" "n2 < 64" "n3 < 64"
  shows "b64_scan 0 0 0 [b64_char n1, b64_char n2, b64_char n3, CHR ''=''] =
      Some [of_nat (n1 * 4 + n2 div 16), of_nat (n2 mod 16 * 16 + n3 div 4)]"
  using assms
  by (simp add: b64_char_not_pad b64_char_value del: of_nat_add of_nat_mult)

lemma b64_scan_encode: "b64_scan 0 0 0 (b64encode bs) = Some bs"
proof (induction bs rule: b64encode.induct)
  case (4 a b c bs)
  then show ?case
    by (simp only: b64encode.simps b64_scan_quad b64_parts b64_join option.map)
next
  case 1
  show ?case by simp
qed (simp_all only: b64encode.simps b64_scan_tail1 b64_scan_tail2 b64_parts b64_join)

lemma b64encode_ascii: "list_all (\<lambda>c. char_code c < (128::nat)) (b64encode bs)"
  by (induction bs rule: b64encode.induct) (simp_all add: b64_char_ascii b64_parts)

lemma b64_roundtrip [simp]: "b64decode (b64encode bs) = Some bs"
  by (simp add: b64decode_def b64encode_ascii b64_scan_encode)

lemma b64encode_inject [simp]: "b64encode a = b64encode b \<longleftrightarrow> a = b"
  by (metis b64_roundtrip option.inject)

end
