(* ===== verification/PyNumber.thy ===== *)
theory PyNumber
  imports PyCodec
begin

text \<open>
  How Python writes numbers: \<open>int.__repr__\<close>, numbers of a fixed width, and \<open>float.__repr__\<close> for floats
  that are a whole number of millionths and are written without an exponent. The lemmas read
  back what was written and show that the text of a number determines it.
\<close>

section \<open>Integers\<close>

definition dec_digit :: "nat \<Rightarrow> char" where
  "dec_digit n = char_of (48 + n)"

fun dec_nat :: "nat \<Rightarrow> string" where
  "dec_nat n = (if n < 10 then [dec_digit n] else dec_nat (n div 10) @ [dec_digit (n mod 10)])"

declare dec_nat.simps [simp del]

text \<open>\<open>int.__repr__\<close>\<close>

definition dec_int :: "int \<Rightarrow> string" where
  "dec_int i = (if i < 0 then CHR ''-'' # dec_nat (nat (- i)) else dec_nat (nat i))"

definition is_digit :: "char \<Rightarrow> bool" where
  "is_digit c \<longleftrightarrow> 48 \<le> (char_code c :: nat) \<and> (char_code c :: nat) \<le> 57"

definition nat_of_dec :: "string \<Rightarrow> nat" where
  "nat_of_dec s = foldl (\<lambda>n c. 10 * n + (char_code c - 48)) 0 s"

lemma dec_digit_code: "n < 10 \<Longrightarrow> char_code (dec_digit n) = (48 + n :: nat)"
  by (simp add: dec_digit_def)

lemma dec_digit_0: "dec_digit 0 = CHR ''0''"
  by (rule of_char_eqI [where ?'a = nat]) (simp add: dec_digit_code)

lemma dec_digit_is_digit: "n < 10 \<Longrightarrow> is_digit (dec_digit n)"
  by (simp add: is_digit_def dec_digit_code)

lemma dec_nat_digits: "\<forall>c \<in> set (dec_nat n). is_digit c"
proof (induction n rule: dec_nat.induct)
  case (1 n)
  then show ?case by (cases "n < 10") (auto simp: dec_nat.simps [of n] dec_digit_is_digit)
qed

lemma dec_nat_nonempty [simp]: "dec_nat n \<noteq> []"
  by (subst dec_nat.simps) simp

lemma dec_nat_leading: "0 < n \<Longrightarrow> hd (dec_nat n) \<noteq> CHR ''0''"
proof (induction n rule: dec_nat.induct)
  case (1 n)
  show ?case
  proof (cases "n < 10")
    case True
    have "dec_digit n \<noteq> dec_digit 0"
      using True "1.prems" dec_digit_code [of n] dec_digit_code [of 0] by auto
    then show ?thesis using True by (simp add: dec_nat.simps [of n] dec_digit_0)
  next
    case False
    then have "hd (dec_nat (n div 10)) \<noteq> CHR ''0''" using "1.IH" by simp
    with False show ?thesis by (simp add: dec_nat.simps [of n])
  qed
qed

lemma nat_of_dec_snoc: "nat_of_dec (s @ [c]) = 10 * nat_of_dec s + (char_code c - 48)"
  by (simp add: nat_of_dec_def)

lemma nat_of_dec_nat: "nat_of_dec (dec_nat n) = n"
proof (induction n rule: dec_nat.induct)
  case (1 n)
  show ?case
  proof (cases "n < 10")
    case True
    then show ?thesis
      by (simp add: dec_nat.simps [of n] nat_of_dec_def dec_digit_code)
  next
    case False
    then have "nat_of_dec (dec_nat n) = 10 * nat_of_dec (dec_nat (n div 10)) + n mod 10"
      by (simp add: dec_nat.simps [of n] nat_of_dec_snoc dec_digit_code)
    also have "\<dots> = n" using "1.IH" [OF False] by simp
    finally show ?thesis .
  qed
qed

lemma dec_nat_Cons: "\<exists>c cs. dec_nat n = c # cs \<and> is_digit c"
  using dec_nat_digits [of n] by (cases "dec_nat n") auto

lemma dec_int_Cons: "\<exists>c cs. dec_int i = c # cs \<and> (is_digit c \<or> c = CHR ''-'')"
  using dec_nat_Cons [of "nat i"] by (auto simp: dec_int_def)

section \<open>Fixed-width numbers\<close>

definition char_digit :: "char \<Rightarrow> nat option" where
  "char_digit c = (let n = char_code c :: nat in if 48 \<le> n \<and> n < 58 then Some (n - 48) else None)"

fun pad :: "nat \<Rightarrow> nat \<Rightarrow> string" where
  "pad 0 n = []"
| "pad (Suc w) n = pad w (n div 10) @ [dec_digit (n mod 10)]"

fun read_digits :: "nat \<Rightarrow> string \<Rightarrow> nat option" where
  "read_digits acc [] = Some acc"
| "read_digits acc (c # cs) =
     (case char_digit c of None \<Rightarrow> None | Some d \<Rightarrow> read_digits (10 * acc + d) cs)"

definition read_fixed :: "nat \<Rightarrow> string \<Rightarrow> (nat \<times> string) option" where
  "read_fixed w s =
     (if length s < w then None
      else map_option (\<lambda>n. (n, drop w s)) (read_digits 0 (take w s)))"

lemma char_digit_char [simp]: "n < 10 \<Longrightarrow> char_digit (dec_digit n) = Some n"
  by (simp add: char_digit_def dec_digit_def Let_def)

lemma length_pad [simp]: "length (pad w n) = w"
  by (induction w arbitrary: n) auto

lemma read_digits_append:
  "read_digits acc (xs @ ys) =
     (case read_digits acc xs of None \<Rightarrow> None | Some n \<Rightarrow> read_digits n ys)"
  by (induction xs arbitrary: acc) (auto split: option.splits)

lemma read_digits_pad: "n < 10 ^ w \<Longrightarrow> read_digits acc (pad w n) = Some (acc * 10 ^ w + n)"
proof (induction w arbitrary: n acc)
  case (Suc w)
  then have "n div 10 < 10 ^ w" by (simp add: less_mult_imp_div_less mult.commute)
  from Suc.IH [OF this, of acc] show ?case by (simp add: read_digits_append)
qed simp

lemma read_fixed_pad: "n < 10 ^ w \<Longrightarrow> read_fixed w (pad w n @ s) = Some (n, s)"
  by (simp add: read_fixed_def read_digits_pad)

text \<open>For the evaluation of concrete numbers.\<close>

lemma pad_numeral:
  "pad (numeral w) n = pad (pred_numeral w) (n div 10) @ [dec_digit (n mod 10)]"
  by (simp only: numeral_eq_Suc pad.simps)

lemma digit_chars:
  "dec_digit 0 = CHR ''0''" "dec_digit 1 = CHR ''1''" "dec_digit (Suc 0) = CHR ''1''"
  "dec_digit 2 = CHR ''2''" "dec_digit 3 = CHR ''3''" "dec_digit 4 = CHR ''4''" "dec_digit 5 = CHR ''5''"
  "dec_digit 6 = CHR ''6''" "dec_digit 7 = CHR ''7''" "dec_digit 8 = CHR ''8''" "dec_digit 9 = CHR ''9''"
  by code_simp+

lemma pad_not_special:
  assumes "c \<in> set (pad w n)" shows "c \<noteq> CHR ''-''" "c \<noteq> CHR ''+''" "c \<noteq> CHR '':''" "c \<noteq> CHR ''.''"
proof -
  have dig: "dec_digit m \<notin> {CHR ''-'', CHR ''+'', CHR '':'', CHR ''.''}" if "m < 10" for m
    using char_digit_char [OF that] by (auto simp: char_digit_def split: if_splits)
  have "c \<notin> {CHR ''-'', CHR ''+'', CHR '':'', CHR ''.''}"
    using assms
  proof (induction w arbitrary: n)
    case (Suc w)
    then show ?case using dig [of "n mod 10"] by auto
  qed simp
  then show "c \<noteq> CHR ''-''" "c \<noteq> CHR ''+''" "c \<noteq> CHR '':''" "c \<noteq> CHR ''.''" by auto
qed

section \<open>Floats\<close>

text \<open>\<open>float.__repr__\<close> of \<open>us\<close> millionths.\<close>

definition strip_zeros :: "string \<Rightarrow> string" where
  "strip_zeros s =
     (let r = rev (dropWhile (\<lambda>c. c = CHR ''0'') (rev s)) in if r = [] then ''0'' else r)"

definition repr_time :: "int \<Rightarrow> string" where
  "repr_time us =
     (let a = nat \<bar>us\<bar>
      in (if us < 0 then ''-'' else []) @ dec_nat (a div 1000000) @ ''.'' @
           strip_zeros (pad 6 (a mod 1000000)))"

lemma split_at_first:
  assumes "c \<notin> set a" and "c \<notin> set b" and "a @ c # x = b @ c # y"
  shows "a = b \<and> x = y"
proof -
  have "takeWhile (\<lambda>d. d \<noteq> c) (a @ c # x) = a" "takeWhile (\<lambda>d. d \<noteq> c) (b @ c # y) = b"
    using assms(1,2) by (subst takeWhile_append2; force)+
  with assms(3) show ?thesis by simp
qed

lemma split_at_last:
  assumes "c \<notin> set x" and "c \<notin> set y" and "a @ c # x = b @ c # y"
  shows "a = b \<and> x = y"
proof -
  have "rev (a @ c # x) = rev (b @ c # y)" using assms(3) by (rule arg_cong)
  then have "rev x @ c # rev a = rev y @ c # rev b" by simp
  with assms(1,2) have "rev x = rev y \<and> rev a = rev b" by (intro split_at_first) auto
  then show ?thesis by simp
qed

text \<open>What stripping removes is a run of zeros, counting one more zero behind the text.\<close>

lemma strip_zeros_split: "\<exists>n. s @ ''0'' = strip_zeros s @ replicate n (CHR ''0'')"
proof -
  let ?z = "\<lambda>c. c = CHR ''0''"
  have "takeWhile ?z (rev s) @ dropWhile ?z (rev s) = rev s" by (rule takeWhile_dropWhile_id)
  then have split: "s = rev (dropWhile ?z (rev s)) @ rev (takeWhile ?z (rev s))"
    by (metis (no_types) rev_append rev_rev_ident)
  have "\<forall>c \<in> set (rev (takeWhile ?z (rev s))). c = CHR ''0''" by (auto dest: set_takeWhileD)
  then have "replicate (length (rev (takeWhile ?z (rev s)))) (CHR ''0'') = rev (takeWhile ?z (rev s))"
    by (rule replicate_length_same)
  then obtain n where n: "rev (takeWhile ?z (rev s)) = replicate n (CHR ''0'')" by metis
  show ?thesis
  proof (cases "rev (dropWhile ?z (rev s)) = []")
    case True
    with split n have "s = replicate n (CHR ''0'')" by (metis append_Nil)
    moreover from True have "strip_zeros s = ''0''" by (simp add: strip_zeros_def Let_def)
    ultimately show ?thesis by (intro exI [of _ n]) (simp add: replicate_append_same)
  next
    case False
    then have "strip_zeros s = rev (dropWhile ?z (rev s))" by (simp only: strip_zeros_def Let_def if_False)
    with split have "s = strip_zeros s @ replicate n (CHR ''0'')" unfolding n by simp
    then have "s @ ''0'' = strip_zeros s @ (replicate n (CHR ''0'') @ ''0'')"
      by (metis append.assoc)
    then show ?thesis unfolding replicate_append_same by (intro exI [of _ "Suc n"]) simp
  qed
qed

lemma strip_zeros_inject:
  assumes "strip_zeros s = strip_zeros t" and "length s = length t"
  shows "s = t"
proof -
  obtain m n where m: "s @ ''0'' = strip_zeros s @ replicate m (CHR ''0'')"
    and n: "t @ ''0'' = strip_zeros t @ replicate n (CHR ''0'')"
    using strip_zeros_split by blast
  have "length (s @ ''0'') = length (t @ ''0'')" using assms(2) by simp
  then have "m = n" unfolding m n using assms(1) by simp
  then have "s @ ''0'' = t @ ''0''" unfolding m n assms(1) by simp
  then show ?thesis by simp
qed

lemma pad_inject: "m < 10 ^ w \<Longrightarrow> n < 10 ^ w \<Longrightarrow> pad w m = pad w n \<longleftrightarrow> m = n"
  by (metis add_0 mult_0 option.inject read_digits_pad [of _ _ 0])

lemma dec_nat_inject: "dec_nat m = dec_nat n \<longleftrightarrow> m = n"
proof
  assume "dec_nat m = dec_nat n"
  then have "nat_of_dec (dec_nat m) = nat_of_dec (dec_nat n)" by (rule arg_cong)
  then show "m = n" unfolding nat_of_dec_nat .
qed (rule arg_cong)

lemma dec_nat_char: "c \<in> set (dec_nat n) \<Longrightarrow> c \<noteq> CHR ''.'' \<and> c \<noteq> CHR ''|'' \<and> c \<noteq> CHR ''-''"
proof -
  assume "c \<in> set (dec_nat n)"
  with dec_nat_digits [of n] have "is_digit c" by blast
  then show ?thesis by (auto simp: is_digit_def)
qed

lemma set_strip_zeros: "set (strip_zeros s) \<subseteq> insert (CHR ''0'') (set s)"
  by (auto simp: strip_zeros_def Let_def dest: set_dropWhileD)

lemma pad_char: "c \<in> set (pad w n) \<Longrightarrow> c \<noteq> CHR ''|''"
proof (induction w arbitrary: n)
  case (Suc w n)
  have "dec_digit m \<noteq> CHR ''|''" if "m < 10" for m
    using char_digit_char [OF that] by (auto simp: char_digit_def split: if_splits)
  then have "dec_digit (n mod 10) \<noteq> CHR ''|''" by simp
  with Suc show ?case by (auto simp: pad.simps(2))
qed (simp add: pad.simps(1))

lemma repr_time_no_bar: "CHR ''|'' \<notin> set (repr_time us)"
  using dec_nat_char pad_char set_strip_zeros by (fastforce simp: repr_time_def Let_def)

lemma repr_time_inject: "repr_time a = repr_time b \<longleftrightarrow> a = b"
proof
  assume eq: "repr_time a = repr_time b"
  define t where "t i = dec_nat (nat \<bar>i\<bar> div 1000000) @ CHR ''.'' # strip_zeros (pad 6 (nat \<bar>i\<bar> mod 1000000))"
    for i :: int
  have first: "hd (t i) \<noteq> CHR ''-''" "t i \<noteq> []" for i
    using dec_nat_char [OF hd_in_set [OF dec_nat_nonempty [of "nat \<bar>i\<bar> div 1000000"]]]
    by (simp_all add: t_def)
  have repr: "repr_time i = (if i < 0 then CHR ''-'' # t i else t i)" for i
    by (simp add: repr_time_def t_def Let_def)
  have sgn: "a < 0 \<longleftrightarrow> b < 0" and teq: "t a = t b"
    using eq first [of a] first [of b] unfolding repr by (cases "t a"; cases "t b"; simp split: if_splits)+
  have "dec_nat (nat \<bar>a\<bar> div 1000000) = dec_nat (nat \<bar>b\<bar> div 1000000) \<and>
      strip_zeros (pad 6 (nat \<bar>a\<bar> mod 1000000)) = strip_zeros (pad 6 (nat \<bar>b\<bar> mod 1000000))"
    using teq dec_nat_char unfolding t_def by (intro split_at_first) blast+
  then have "nat \<bar>a\<bar> div 1000000 = nat \<bar>b\<bar> div 1000000" "nat \<bar>a\<bar> mod 1000000 = nat \<bar>b\<bar> mod 1000000"
    using pad_inject [of "nat \<bar>a\<bar> mod 1000000" 6 "nat \<bar>b\<bar> mod 1000000"]
    by (auto simp: dec_nat_inject dest!: strip_zeros_inject)
  then have "nat \<bar>a\<bar> = nat \<bar>b\<bar>" by (metis div_mult_mod_eq)
  with sgn show "a = b" by auto
qed simp

end
