(* ===== verification/Json.thy ===== *)
theory Json
  imports PyNumber
begin

text \<open>
  The part of Python's \<open>json\<close> module the program relies on: \<open>json.dumps\<close> with compact
  separators, with and without \<open>sort_keys\<close>, and \<open>json.loads\<close>. \<open>JFloat us\<close> is the float of \<open>us\<close>
  millionths: a literal with more than six decimals or an exponent, \<open>NaN\<close> and \<open>Infinity\<close>, and
  escapes for code points of 256 or more are outside the model and are rejected by the parser. The main results are the round trip \<open>loads (dumps j) = j\<close> and, from it, that
  \<open>dumps\<close> is injective: a serialised payload determines every field it was made of.
\<close>

datatype json =
    JNull
  | JBool bool
  | JInt int
  | JFloat int
  | JStr string
  | JList "json list"
  | JObj "(string \<times> json) list"

section \<open>Printing\<close>

text \<open>\<open>py_encode_basestring_ascii\<close>: everything outside printable ASCII is escaped.\<close>

definition json_escape :: "char \<Rightarrow> string" where
  "json_escape c =
     (if c = CHR 0x22 then [CHR 0x5C, CHR 0x22]
      else if c = CHR 0x5C then [CHR 0x5C, CHR 0x5C]
      else if c = CHR 0x0A then [CHR 0x5C, CHR ''n'']
      else if c = CHR 0x0D then [CHR 0x5C, CHR ''r'']
      else if c = CHR 0x09 then [CHR 0x5C, CHR ''t'']
      else if c = CHR 0x0C then [CHR 0x5C, CHR ''f'']
      else if c = CHR 0x08 then [CHR 0x5C, CHR ''b'']
      else if 32 \<le> (char_code c :: nat) \<and> (char_code c :: nat) \<le> 126 then [c]
      else [CHR 0x5C, CHR ''u'', CHR ''0'', CHR ''0'',
            hex_digit (char_code c div 16), hex_digit (char_code c mod 16)])"

definition json_string :: "string \<Rightarrow> string" where
  "json_string s = CHR 0x22 # concat (map json_escape s) @ [CHR 0x22]"

fun dumps :: "json \<Rightarrow> string"
  and dumps_elems :: "json list \<Rightarrow> string"
  and dumps_items :: "(string \<times> json) list \<Rightarrow> string" where
  "dumps JNull = ''null''"
| "dumps (JBool b) = (if b then ''true'' else ''false'')"
| "dumps (JInt i) = dec_int i"
| "dumps (JFloat us) = repr_time us"
| "dumps (JStr s) = json_string s"
| "dumps (JList xs) = CHR ''['' # dumps_elems xs @ '']''"
| "dumps (JObj kvs) = CHR ''{'' # dumps_items kvs @ ''}''"
| "dumps_elems [] = []"
| "dumps_elems [x] = dumps x"
| "dumps_elems (x # y # ys) = dumps x @ '','' @ dumps_elems (y # ys)"
| "dumps_items [] = []"
| "dumps_items [(k, v)] = json_string k @ '':'' @ dumps v"
| "dumps_items ((k, v) # kv # kvs) =
     json_string k @ '':'' @ dumps v @ '','' @ dumps_items (kv # kvs)"

text \<open>\<open>sort_keys=True\<close> sorts the items of every object by key.\<close>

fun sort_keys :: "json \<Rightarrow> json" where
  "sort_keys (JList xs) = JList (map sort_keys xs)"
| "sort_keys (JObj kvs) = JObj (sort_key fst (map (\<lambda>(k, v). (k, sort_keys v)) kvs))"
| "sort_keys j = j"

definition dumps_sorted :: "json \<Rightarrow> string" where
  "dumps_sorted j = dumps (sort_keys j)"

section \<open>Parsing\<close>

definition is_json_ws :: "char \<Rightarrow> bool" where
  "is_json_ws c \<longleftrightarrow> c = CHR '' '' \<or> c = CHR 0x09 \<or> c = CHR 0x0A \<or> c = CHR 0x0D"

abbreviation skip_ws :: "string \<Rightarrow> string" where
  "skip_ws s \<equiv> dropWhile is_json_ws s"

definition json_unescape :: "char \<Rightarrow> char option" where
  "json_unescape c =
     (if c = CHR 0x22 then Some (CHR 0x22)
      else if c = CHR 0x5C then Some (CHR 0x5C)
      else if c = CHR ''/'' then Some (CHR ''/'')
      else if c = CHR ''b'' then Some (CHR 0x08)
      else if c = CHR ''f'' then Some (CHR 0x0C)
      else if c = CHR ''n'' then Some (CHR 0x0A)
      else if c = CHR ''r'' then Some (CHR 0x0D)
      else if c = CHR ''t'' then Some (CHR 0x09)
      else None)"

text \<open>
  \<open>py_scanstring\<close>, after the opening quote: the decoded string and the text behind the
  closing quote. Control characters are refused (\<open>strict=True\<close>).
\<close>

fun scan_string :: "string \<Rightarrow> (string \<times> string) option" where
  "scan_string [] = None"
| "scan_string (c # cs) =
     (if c = CHR 0x22 then Some ([], cs)
      else if c = CHR 0x5C then
        (case cs of
           [] \<Rightarrow> None
         | e # es \<Rightarrow>
             if e = CHR ''u'' then
               (case es of
                  h1 # h2 # h3 # h4 # hs \<Rightarrow>
                    (case (hex_value h1, hex_value h2, hex_value h3, hex_value h4) of
                       (Some a, Some b, Some c', Some d) \<Rightarrow>
                         if a = 0 \<and> b = 0
                         then map_option (apfst ((#) (char_of (16 * c' + d)))) (scan_string hs)
                         else None
                     | _ \<Rightarrow> None)
                | _ \<Rightarrow> None)
             else
               (case json_unescape e of
                  None \<Rightarrow> None
                | Some u \<Rightarrow> map_option (apfst ((#) u)) (scan_string es)))
      else if (char_code c :: nat) < 32 then None
      else map_option (apfst ((#) c)) (scan_string cs))"

text \<open>
  \<open>NUMBER_RE\<close>: a zero or digits without a leading zero, and a point with digits for a float.
\<close>

definition scan_nat :: "string \<Rightarrow> (nat \<times> string) option" where
  "scan_nat s =
     (case s of
        [] \<Rightarrow> None
      | c # cs \<Rightarrow>
          if c = CHR ''0'' then Some (0, cs)
          else let ds = takeWhile is_digit s
               in if ds = [] then None else Some (nat_of_dec ds, dropWhile is_digit s))"

definition scan_number :: "string \<Rightarrow> (json \<times> string) option" where
  "scan_number s =
     (let (neg, s') = (case s of c # cs \<Rightarrow> if c = CHR ''-'' then (True, cs) else (False, s)
                       | [] \<Rightarrow> (False, s))
      in case scan_nat s' of
           None \<Rightarrow> None
         | Some (n, r) \<Rightarrow>
             if r \<noteq> [] \<and> hd r = CHR ''.'' then
               (let ds = takeWhile is_digit (tl r); r' = dropWhile is_digit (tl r);
                    us = n * 1000000 + nat_of_dec ds * 10 ^ (6 - length ds)
                in if ds = [] \<or> 6 < length ds \<or> r' \<noteq> [] \<and> hd r' \<in> {CHR ''e'', CHR ''E''} then None
                   else Some (JFloat (if neg then - int us else int us), r'))
             else if r \<noteq> [] \<and> hd r \<in> {CHR ''e'', CHR ''E''} then None
             else Some (JInt (if neg then - int n else int n), r))"

definition scan_literal :: "string \<Rightarrow> (json \<times> string) option" where
  "scan_literal s =
     (if take 4 s = ''null'' then Some (JNull, drop 4 s)
      else if take 4 s = ''true'' then Some (JBool True, drop 4 s)
      else if take 5 s = ''false'' then Some (JBool False, drop 5 s)
      else None)"

text \<open>\<open>dict(pairs)\<close>: a repeated key keeps its place and takes the last value.\<close>

definition dict_of_pairs :: "('k \<times> 'v) list \<Rightarrow> ('k, 'v) dict" where
  "dict_of_pairs kvs = foldl (\<lambda>d (k, v). AList.update k v d) [] kvs"

text \<open>
  \<open>scan_once\<close>, \<open>JSONArray\<close> and \<open>JSONObject\<close>. The first argument bounds the depth of
  calls; \<open>loads\<close> starts with twice the length of the text, which \<open>scan_fuel_enough\<close> shows
  to be as good as any larger bound.
\<close>

fun scan_value :: "nat \<Rightarrow> string \<Rightarrow> (json \<times> string) option"
  and scan_elems :: "nat \<Rightarrow> string \<Rightarrow> (json list \<times> string) option"
  and scan_items :: "nat \<Rightarrow> string \<Rightarrow> ((string \<times> json) list \<times> string) option" where
  "scan_value 0 s = None"
| "scan_value (Suc n) s =
     (case s of
        [] \<Rightarrow> None
      | c # cs \<Rightarrow>
          if c = CHR 0x22 then map_option (apfst JStr) (scan_string cs)
          else if c = CHR ''{'' then
            (case skip_ws cs of
               [] \<Rightarrow> None
             | d # ds \<Rightarrow>
                 if d = CHR ''}'' then Some (JObj [], ds)
                 else map_option (apfst (JObj \<circ> dict_of_pairs)) (scan_items n (d # ds)))
          else if c = CHR ''['' then
            (case skip_ws cs of
               [] \<Rightarrow> None
             | d # ds \<Rightarrow>
                 if d = CHR '']'' then Some (JList [], ds)
                 else map_option (apfst JList) (scan_elems n (d # ds)))
          else if c = CHR ''n'' \<or> c = CHR ''t'' \<or> c = CHR ''f'' then scan_literal s
          else scan_number s)"
| "scan_elems 0 s = None"
| "scan_elems (Suc n) s =
     (case scan_value n s of
        None \<Rightarrow> None
      | Some (v, r) \<Rightarrow>
          (case skip_ws r of
             [] \<Rightarrow> None
           | c # cs \<Rightarrow>
               if c = CHR '']'' then Some ([v], cs)
               else if c = CHR '','' then map_option (apfst ((#) v)) (scan_elems n (skip_ws cs))
               else None))"
| "scan_items 0 s = None"
| "scan_items (Suc n) s =
     (case s of
        [] \<Rightarrow> None
      | q # qs \<Rightarrow>
          if q \<noteq> CHR 0x22 then None
          else case scan_string qs of
            None \<Rightarrow> None
          | Some (k, r) \<Rightarrow>
              (case skip_ws r of
                 [] \<Rightarrow> None
               | c # cs \<Rightarrow>
                   if c \<noteq> CHR '':'' then None
                   else case scan_value n (skip_ws cs) of
                     None \<Rightarrow> None
                   | Some (v, r') \<Rightarrow>
                       (case skip_ws r' of
                          [] \<Rightarrow> None
                        | d # ds \<Rightarrow>
                            if d = CHR ''}'' then Some ([(k, v)], ds)
                            else if d = CHR '','' then
                              map_option (apfst ((#) (k, v))) (scan_items n (skip_ws ds))
                            else None)))"

lemmas scan_Suc = scan_value.simps(2) scan_elems.simps(2) scan_items.simps(2)

declare scan_Suc [simp del]

text \<open>\<open>json.loads\<close>; \<open>None\<close> is \<open>JSONDecodeError\<close>, a \<open>ValueError\<close>.\<close>

definition loads :: "string \<Rightarrow> json option" where
  "loads s =
     (case scan_value (2 * length s + 2) (skip_ws s) of
        None \<Rightarrow> None
      | Some (j, r) \<Rightarrow> if skip_ws r = [] then Some j else None)"

section \<open>The fuel of the parser\<close>

lemma scan_string_Some:
  assumes "scan_string s = Some (x, r)"
  obtains (close) "s = CHR 0x22 # r" "x = []"
  | (rest) t y where "length t < length s" "scan_string t = Some (y, r)"
proof (cases s)
  case (Cons c cs)
  show ?thesis
  proof (cases "c = CHR 0x5C")
    case True
    with assms Cons obtain e es where cs: "cs = e # es" by (cases cs) auto
    show ?thesis
    proof (cases "e = CHR ''u''")
      case True
      with assms Cons cs \<open>c = CHR 0x5C\<close> obtain h1 h2 h3 h4 hs y
        where "es = h1 # h2 # h3 # h4 # hs" "scan_string hs = Some (y, r)"
        by (auto split: list.splits option.splits if_splits)
      then show ?thesis using Cons cs by (intro rest [of hs y]) auto
    next
      case False
      with assms Cons cs \<open>c = CHR 0x5C\<close> obtain y where "scan_string es = Some (y, r)"
        by (auto split: option.splits)
      then show ?thesis using Cons cs by (intro rest [of es y]) auto
    qed
  next
    case False
    show ?thesis
    proof (cases "c = CHR 0x22")
      case True
      with assms Cons show ?thesis by (intro close) auto
    next
      case nq: False
      with assms Cons False obtain y where "scan_string cs = Some (y, r)"
        by (auto split: if_splits)
      then show ?thesis using Cons by (intro rest [of cs y]) auto
    qed
  qed
qed (use assms in simp)

lemma scan_string_shorter: "scan_string s = Some (x, r) \<Longrightarrow> length r < length s"
proof (induction s arbitrary: x rule: length_induct)
  case (1 s)
  from "1.prems" show ?case
  proof (cases rule: scan_string_Some)
    case (rest t y)
    with "1.IH" show ?thesis by (meson less_trans)
  qed simp
qed

lemma length_skip_ws: "length (skip_ws s) \<le> length s"
  by (rule length_dropWhile_le)

lemma skip_ws_shorter: "skip_ws r = c # cs \<Longrightarrow> length cs < length r"
  using length_skip_ws [of r] by simp

lemma scan_nat_shorter: "scan_nat s = Some (x, r) \<Longrightarrow> length r < length s"
proof (cases s)
  case (Cons c cs)
  assume *: "scan_nat s = Some (x, r)"
  show ?thesis
  proof (cases "c = CHR ''0''")
    case True
    with * Cons show ?thesis by (simp add: scan_nat_def)
  next
    case False
    with * Cons have "is_digit c" "r = dropWhile is_digit cs"
      by (auto simp: scan_nat_def Let_def split: if_splits)
    then show ?thesis using Cons length_dropWhile_le [of is_digit cs] by simp
  qed
qed (simp add: scan_nat_def)

lemma scan_number_shorter:
  assumes "scan_number s = Some (x, r)"
  shows "length r < length s"
proof -
  have le: "length (dropWhile is_digit (tl t)) \<le> length t" for t
    using length_dropWhile_le [of is_digit "tl t"] by simp
  let ?t = "if s \<noteq> [] \<and> hd s = CHR ''-'' then tl s else s"
  have "length ?t \<le> length s" by simp
  moreover obtain n t where "scan_nat ?t = Some (n, t)" "r = t \<or> r = dropWhile is_digit (tl t)"
    using assms by (cases s) (auto simp: scan_number_def Let_def split: if_splits option.splits)
  ultimately show ?thesis using scan_nat_shorter [of ?t n t] le [of t] by auto
qed

lemma scan_literal_shorter: "scan_literal s = Some (x, r) \<Longrightarrow> length r < length s"
  by (cases s) (auto simp: scan_literal_def split: if_splits)

text \<open>What a successful call of each scanner went through.\<close>

lemma scan_value_Some:
  assumes "scan_value (Suc n) s = Some (v, r)"
  obtains (string) cs x where "s = CHR 0x22 # cs" "scan_string cs = Some (x, r)" "v = JStr x"
  | (obj0) cs where "s = CHR ''{'' # cs" "skip_ws cs = CHR ''}'' # r" "v = JObj []"
  | (obj) cs kvs where "s = CHR ''{'' # cs" "scan_items n (skip_ws cs) = Some (kvs, r)"
      "v = JObj (dict_of_pairs kvs)"
  | (list0) cs where "s = CHR ''['' # cs" "skip_ws cs = CHR '']'' # r" "v = JList []"
  | (list) cs vs where "s = CHR ''['' # cs" "scan_elems n (skip_ws cs) = Some (vs, r)" "v = JList vs"
  | (literal) "scan_literal s = Some (v, r)"
  | (number) "scan_number s = Some (v, r)"
  using assms by (cases s) (auto simp: scan_Suc split: if_splits list.splits)

lemma scan_elems_Some:
  assumes "scan_elems (Suc n) s = Some (vs, r)"
  obtains (last) v r1 where "scan_value n s = Some (v, r1)" "skip_ws r1 = CHR '']'' # r" "vs = [v]"
  | (more) v r1 cs vs' where "scan_value n s = Some (v, r1)" "skip_ws r1 = CHR '','' # cs"
      "scan_elems n (skip_ws cs) = Some (vs', r)" "vs = v # vs'"
  using assms by (auto simp: scan_Suc split: if_splits list.splits option.splits)

lemma scan_items_Some:
  assumes "scan_items (Suc n) s = Some (kvs, r)"
  obtains (last) qs k r1 cs v r2 where "s = CHR 0x22 # qs" "scan_string qs = Some (k, r1)"
      "skip_ws r1 = CHR '':'' # cs" "scan_value n (skip_ws cs) = Some (v, r2)"
      "skip_ws r2 = CHR ''}'' # r" "kvs = [(k, v)]"
  | (more) qs k r1 cs v r2 ds kvs' where "s = CHR 0x22 # qs" "scan_string qs = Some (k, r1)"
      "skip_ws r1 = CHR '':'' # cs" "scan_value n (skip_ws cs) = Some (v, r2)"
      "skip_ws r2 = CHR '','' # ds" "scan_items n (skip_ws ds) = Some (kvs', r)"
      "kvs = (k, v) # kvs'"
  using assms by (auto simp: scan_Suc split: if_splits list.splits option.splits)

lemma scan_shorter:
  "(\<forall>s v r. scan_value n s = Some (v, r) \<longrightarrow> length r < length s) \<and>
   (\<forall>s vs r. scan_elems n s = Some (vs, r) \<longrightarrow> length r < length s) \<and>
   (\<forall>s kvs r. scan_items n s = Some (kvs, r) \<longrightarrow> length r < length s)"
proof (induction n)
  case (Suc n)
  then have IHv: "\<And>s v r. scan_value n s = Some (v, r) \<Longrightarrow> length r < length s"
    and IHe: "\<And>s vs r. scan_elems n s = Some (vs, r) \<Longrightarrow> length r < length s"
    and IHi: "\<And>s kvs r. scan_items n s = Some (kvs, r) \<Longrightarrow> length r < length s"
    by blast+
  have "length r < length s" if "scan_value (Suc n) s = Some (v, r)" for s v r
    using that
  proof (cases rule: scan_value_Some)
    case (obj cs kvs)
    then show ?thesis using IHi [OF obj(2)] length_skip_ws [of cs] by simp
  next
    case (list cs vs)
    then show ?thesis using IHe [OF list(2)] length_skip_ws [of cs] by simp
  qed (auto dest: scan_string_shorter scan_literal_shorter scan_number_shorter skip_ws_shorter)
  moreover have "length r < length s" if "scan_elems (Suc n) s = Some (vs, r)" for s vs r
    using that
  proof (cases rule: scan_elems_Some)
    case (last v r1)
    then show ?thesis using IHv [OF last(1)] skip_ws_shorter [OF last(2)] by simp
  next
    case (more v r1 cs vs')
    then show ?thesis
      using IHv [OF more(1)] skip_ws_shorter [OF more(2)] IHe [OF more(3)] length_skip_ws [of cs]
      by simp
  qed
  moreover have "length r < length s" if "scan_items (Suc n) s = Some (kvs, r)" for s kvs r
    using that
  proof (cases rule: scan_items_Some)
    case (last qs k r1 cs v r2)
    then show ?thesis
      using scan_string_shorter [OF last(2)] skip_ws_shorter [OF last(3)] IHv [OF last(4)]
        skip_ws_shorter [OF last(5)] length_skip_ws [of cs] by simp
  next
    case (more qs k r1 cs v r2 ds kvs')
    then show ?thesis
      using scan_string_shorter [OF more(2)] skip_ws_shorter [OF more(3)] IHv [OF more(4)]
        skip_ws_shorter [OF more(5)] IHi [OF more(6)] length_skip_ws [of cs] length_skip_ws [of ds]
      by simp
  qed
  ultimately show ?case by blast
qed simp

lemmas scan_value_shorter = scan_shorter [THEN conjunct1, rule_format]

text \<open>With enough fuel, one more unit changes nothing.\<close>

lemma scan_fuel_step:
  "(\<forall>s. 2 * length s + 1 \<le> n \<longrightarrow> scan_value (Suc n) s = scan_value n s) \<and>
   (\<forall>s. 2 * length s + 2 \<le> n \<longrightarrow> scan_elems (Suc n) s = scan_elems n s) \<and>
   (\<forall>s. 2 * length s + 2 \<le> n \<longrightarrow> scan_items (Suc n) s = scan_items n s)"
proof (induction n)
  case (Suc n)
  then have IHv: "\<And>s. 2 * length s + 1 \<le> n \<Longrightarrow> scan_value (Suc n) s = scan_value n s"
    and IHe: "\<And>s. 2 * length s + 2 \<le> n \<Longrightarrow> scan_elems (Suc n) s = scan_elems n s"
    and IHi: "\<And>s. 2 * length s + 2 \<le> n \<Longrightarrow> scan_items (Suc n) s = scan_items n s"
    by blast+
  have "scan_value (Suc (Suc n)) s = scan_value (Suc n) s" if le: "2 * length s + 1 \<le> Suc n" for s
  proof (cases s)
    case (Cons c cs)
    have "2 * length (skip_ws cs) + 2 \<le> n" using le Cons length_skip_ws [of cs] by simp
    from IHe [OF this] IHi [OF this]
    have "skip_ws cs = d # ds \<Longrightarrow> scan_elems (Suc n) (d # ds) = scan_elems n (d # ds)"
      "skip_ws cs = d # ds \<Longrightarrow> scan_items (Suc n) (d # ds) = scan_items n (d # ds)" for d ds
      by simp_all
    then show ?thesis
      using Cons by (cases "skip_ws cs") (simp_all add: scan_Suc(1) del: dropWhile_eq_Nil_conv)
  qed (simp add: scan_Suc(1))
  moreover have "scan_elems (Suc (Suc n)) s = scan_elems (Suc n) s"
    if le: "2 * length s + 2 \<le> Suc n" for s
  proof -
    have v: "scan_value (Suc n) s = scan_value n s" using le by (intro IHv) simp
    have "scan_elems (Suc n) (skip_ws cs) = scan_elems n (skip_ws cs)"
      if "scan_value n s = Some (u, r)" "skip_ws r = c # cs" for u r c cs
      using le scan_value_shorter [OF that(1)] skip_ws_shorter [OF that(2)] length_skip_ws [of cs]
      by (intro IHe) simp
    then show ?thesis
      by (simp add: scan_elems.simps(2) [of "Suc n"] scan_elems.simps(2) [of n] v
          split: option.split list.split del: dropWhile_eq_Nil_conv)
  qed
  moreover have "scan_items (Suc (Suc n)) s = scan_items (Suc n) s"
    if le: "2 * length s + 2 \<le> Suc n" for s
  proof (cases s)
    case (Cons q qs)
    have v: "scan_value (Suc n) (skip_ws cs) = scan_value n (skip_ws cs)"
      if "scan_string qs = Some (k, r)" "skip_ws r = c # cs" for k r c cs
      using le Cons scan_string_shorter [OF that(1)] skip_ws_shorter [OF that(2)]
        length_skip_ws [of cs]
      by (intro IHv) simp
    have i: "scan_items (Suc n) (skip_ws ds) = scan_items n (skip_ws ds)"
      if "scan_string qs = Some (k, r)" "skip_ws r = c # cs"
        "scan_value n (skip_ws cs) = Some (u, r')" "skip_ws r' = d # ds" for k r c cs u r' d ds
      using le Cons scan_string_shorter [OF that(1)] skip_ws_shorter [OF that(2)]
        scan_value_shorter [OF that(3)] skip_ws_shorter [OF that(4)] length_skip_ws [of cs]
        length_skip_ws [of ds]
      by (intro IHi) simp
    from v i show ?thesis
      using Cons by (simp add: scan_items.simps(2) [of "Suc n"] scan_items.simps(2) [of n]
          split: option.split list.split del: dropWhile_eq_Nil_conv)
  qed (simp add: scan_Suc(3))
  ultimately show ?case by blast
qed simp

lemma scan_fuel_enough:
  assumes "2 * length s + 2 \<le> n"
  shows "scan_value n s = scan_value (2 * length s + 2) s"
  using assms
proof (induction n rule: dec_induct)
  case (step n)
  then show ?case using scan_fuel_step [of n] by simp
qed simp

section \<open>Round trip\<close>

fun json_wf :: "json \<Rightarrow> bool" where
  "json_wf (JList xs) = list_all json_wf xs"
| "json_wf (JObj kvs) = (distinct (map fst kvs) \<and> list_all (\<lambda>(k, v). json_wf v) kvs)"
| "json_wf j = True"

lemma dict_of_pairs_distinct:
  assumes "distinct (map fst (d @ kvs))"
  shows "foldl (\<lambda>d (k, v). AList.update k v d) d kvs = d @ kvs"
  using assms
proof (induction kvs arbitrary: d)
  case (Cons kv kvs)
  obtain k v where kv: "kv = (k, v)" by (cases kv)
  with Cons.prems have "AList.update k v d = d @ [(k, v)]"
    by (induction d) auto
  with Cons.IH [of "d @ [(k, v)]"] Cons.prems kv show ?case by simp
qed simp

lemma dict_of_pairs_id: "distinct (map fst kvs) \<Longrightarrow> dict_of_pairs kvs = kvs"
  using dict_of_pairs_distinct [of "[]" kvs] by (simp add: dict_of_pairs_def)

lemma scan_json_escape:
  "scan_string (json_escape c @ s) = map_option (apfst ((#) c)) (scan_string s)"
proof -
  have m: "char_code c mod 16 < (16::nat)" by simp
  have d: "char_code c div 16 < (16::nat)" using nat_of_char_less_256 [of c] by linarith
  have z: "hex_value (CHR ''0'') = Some 0" by (simp add: hex_value_def)
  have b: "char_of (16 * (char_code c div 16) + char_code c mod 16 :: nat) = c"
    by simp
  have "c \<in> {CHR 0x22, CHR 0x5C, CHR 0x0A, CHR 0x0D, CHR 0x09, CHR 0x0C, CHR 0x08} \<or>
    (c \<noteq> CHR 0x22 \<and> c \<noteq> CHR 0x5C \<and> json_escape c = [c] \<and> 32 \<le> (char_code c :: nat)) \<or>
    json_escape c = [CHR 0x5C, CHR ''u'', CHR ''0'', CHR ''0'',
            hex_digit (char_code c div 16), hex_digit (char_code c mod 16)]"
    unfolding json_escape_def by (simp only: insert_iff empty_iff split: if_split) blast
  then consider (special) "c \<in> {CHR 0x22, CHR 0x5C, CHR 0x0A, CHR 0x0D, CHR 0x09, CHR 0x0C, CHR 0x08}"
    | (plain) "c \<noteq> CHR 0x22" "c \<noteq> CHR 0x5C" "json_escape c = [c]" "32 \<le> (char_code c :: nat)"
    | (esc) "json_escape c = [CHR 0x5C, CHR ''u'', CHR ''0'', CHR ''0'',
            hex_digit (char_code c div 16), hex_digit (char_code c mod 16)]"
    by blast
  then show ?thesis
  proof cases
    case esc
    then show ?thesis
      using b by (simp add: z hex_digit_value [OF d] hex_digit_value [OF m] del: of_char_of)
  next
    case special
    then show ?thesis by (auto simp: json_escape_def json_unescape_def)
  qed simp
qed

lemma scan_json_string: "scan_string (concat (map json_escape s) @ CHR 0x22 # r) = Some (s, r)"
  by (induction s) (simp_all add: scan_json_escape)

text \<open>What may follow a value inside a text: nothing, or a separator.\<close>

definition json_stop :: "string \<Rightarrow> bool" where
  "json_stop r \<longleftrightarrow> r = [] \<or> hd r \<in> {CHR '','', CHR '']'', CHR ''}''}"

lemma json_stop_not_digit: "json_stop r \<Longrightarrow> r = [] \<or> \<not> is_digit (hd r)"
  by (auto simp: json_stop_def is_digit_def)

lemma scan_dec_nat:
  assumes "r = [] \<or> \<not> is_digit (hd r)"
  shows "scan_nat (dec_nat n @ r) = Some (n, r)"
proof (cases "n = 0")
  case True
  then show ?thesis by (simp add: dec_nat.simps dec_digit_0 scan_nat_def)
next
  case False
  obtain c cs where c: "dec_nat n = c # cs" by (cases "dec_nat n") auto
  have nz: "c \<noteq> CHR ''0''" using dec_nat_leading [of n] False c by simp
  have tw: "takeWhile is_digit (dec_nat n @ r) = dec_nat n"
    and dw: "dropWhile is_digit (dec_nat n @ r) = r"
    using assms dec_nat_digits [of n] by (cases r; simp)+
  show ?thesis
    using nz tw dw nat_of_dec_nat [of n] c
    by (simp add: scan_nat_def Let_def)
qed

lemma json_stop_not_float: "json_stop r \<Longrightarrow> r \<noteq> [] \<Longrightarrow> hd r \<notin> {CHR ''.'', CHR ''e'', CHR ''E''}"
  by (auto simp: json_stop_def)

lemma scan_dec_int:
  assumes "json_stop r"
  shows "scan_number (dec_int i @ r) = Some (JInt i, r)"
proof -
  note nat = scan_dec_nat [OF json_stop_not_digit [OF assms]]
  show ?thesis
  proof (cases "i < 0")
    case True
    then show ?thesis
      using json_stop_not_float [OF assms] by (auto simp: dec_int_def scan_number_def nat)
  next
    case False
    obtain c cs where c: "dec_nat (nat i) = c # cs" "is_digit c"
      using dec_nat_Cons by blast
    then have "c \<noteq> CHR ''-''" by (auto simp: is_digit_def)
    with False c nat [of "nat i"] show ?thesis
      using json_stop_not_float [OF assms] by (auto simp: dec_int_def scan_number_def)
  qed
qed

text \<open>The decimals of a float, read back as millionths.\<close>

lemma nat_of_dec_append_zeros: "nat_of_dec (s @ replicate k (CHR ''0'')) = nat_of_dec s * 10 ^ k"
proof (induction k)
  case (Suc k)
  have "nat_of_dec (s @ replicate k (CHR ''0'') @ [CHR ''0'']) = 10 * (nat_of_dec s * 10 ^ k)"
    using nat_of_dec_snoc [of "s @ replicate k (CHR ''0'')" "CHR ''0''"] Suc by simp
  then show ?case by (simp add: replicate_append_same)
qed simp

lemma nat_of_dec_pad: "n < 10 ^ w \<Longrightarrow> nat_of_dec (pad w n) = n"
proof (induction w arbitrary: n)
  case (Suc w)
  then have "n div 10 < 10 ^ w" by (simp add: less_mult_imp_div_less mult.commute)
  from Suc.IH [OF this] show ?case by (simp add: nat_of_dec_snoc dec_digit_code)
qed (simp add: nat_of_dec_def)

lemma pad_digits: "\<forall>c \<in> set (pad w n). is_digit c"
  by (induction w arbitrary: n) (auto simp: dec_digit_is_digit)

lemma strip_zeros_pad:
  assumes "m < 1000000"
  obtains ds where "strip_zeros (pad 6 m) = ds" "ds \<noteq> []" "length ds \<le> 6" "\<forall>c \<in> set ds. is_digit c"
    "nat_of_dec ds * 10 ^ (6 - length ds) = m"
proof -
  let ?ds = "strip_zeros (pad 6 m)"
  obtain k where k: "pad 6 m @ ''0'' = ?ds @ replicate k (CHR ''0'')" using strip_zeros_split by blast
  have ne: "?ds \<noteq> []" by (simp add: strip_zeros_def Let_def)
  have le: "length ?ds \<le> 6"
    using length_dropWhile_le [of "\<lambda>c. c = CHR ''0''" "rev (pad 6 m)"] by (simp add: strip_zeros_def Let_def)
  have "length (pad 6 m @ ''0'') = length ?ds + k" unfolding k by simp
  then have kk: "k = Suc (6 - length ?ds)" using le by simp
  have "nat_of_dec (pad 6 m @ ''0'') = nat_of_dec ?ds * 10 ^ k"
    unfolding k nat_of_dec_append_zeros ..
  moreover have "nat_of_dec (pad 6 m @ ''0'') = 10 * m"
    using assms by (simp add: nat_of_dec_snoc nat_of_dec_pad)
  ultimately have "nat_of_dec ?ds * 10 ^ (6 - length ?ds) = m" unfolding kk by simp
  moreover have "\<forall>c \<in> set ?ds. is_digit c"
    using set_strip_zeros [of "pad 6 m"] pad_digits [of 6 m] by (auto simp: is_digit_def)
  ultimately show thesis using that ne le by blast
qed

lemma scan_decimals:
  assumes "json_stop r" and "ds \<noteq> []" and "length ds \<le> 6" and "\<forall>c \<in> set ds. is_digit c"
    and "us = int (q * 1000000 + nat_of_dec ds * 10 ^ (6 - length ds))"
  shows "scan_number (dec_nat q @ CHR ''.'' # ds @ r) = Some (JFloat us, r)"
    and "scan_number (CHR ''-'' # dec_nat q @ CHR ''.'' # ds @ r) = Some (JFloat (- us), r)"
proof -
  have nat: "scan_nat (dec_nat q @ CHR ''.'' # ds @ r) = Some (q, CHR ''.'' # ds @ r)"
    by (rule scan_dec_nat) (simp add: is_digit_def)
  have tw: "takeWhile is_digit (ds @ r) = ds" "dropWhile is_digit (ds @ r) = r"
    using json_stop_not_digit [OF assms(1)] assms(4) by (cases r; simp)+
  have stop: "\<not> (r \<noteq> [] \<and> hd r \<in> {CHR ''e'', CHR ''E''})"
    using json_stop_not_float [OF assms(1)] by auto
  obtain c cs where c: "dec_nat q = c # cs" "c \<noteq> CHR ''-''"
    using dec_nat_Cons [of q] by (fastforce simp: is_digit_def)
  show "scan_number (CHR ''-'' # dec_nat q @ CHR ''.'' # ds @ r) = Some (JFloat (- us), r)"
    using stop assms(2,3) by (auto simp: scan_number_def Let_def nat tw assms(5))
  show "scan_number (dec_nat q @ CHR ''.'' # ds @ r) = Some (JFloat us, r)"
    using stop assms(2,3) nat c by (auto simp: scan_number_def Let_def tw assms(5))
qed

lemma scan_repr:
  assumes "json_stop r"
  shows "scan_number (repr_time us @ r) = Some (JFloat us, r)"
proof -
  let ?a = "nat \<bar>us\<bar>"
  obtain ds where ds: "strip_zeros (pad 6 (?a mod 1000000)) = ds" "ds \<noteq> []" "length ds \<le> 6"
    "\<forall>c \<in> set ds. is_digit c" "nat_of_dec ds * 10 ^ (6 - length ds) = ?a mod 1000000"
    by (rule strip_zeros_pad [of "?a mod 1000000"]) auto
  have "\<bar>us\<bar> = int (?a div 1000000 * 1000000 + nat_of_dec ds * 10 ^ (6 - length ds))"
    unfolding ds(5) by (simp only: div_mult_mod_eq nat_0_le abs_ge_zero)
  note scan = scan_decimals [OF assms ds(2-4) this]
  have "repr_time us = (if us < 0 then ''-'' else []) @ dec_nat (?a div 1000000) @ CHR ''.'' # ds"
    unfolding repr_time_def Let_def ds(1) by simp
  then show ?thesis using scan by (cases "us < 0") simp_all
qed

lemma repr_time_Cons: "\<exists>c cs. repr_time us = c # cs \<and> (is_digit c \<or> c = CHR ''-'')"
  using dec_nat_Cons [of "nat \<bar>us\<bar> div 1000000"] by (auto simp: repr_time_def Let_def)

text \<open>The first character of a printed value decides which scanner reads it.\<close>

lemma dumps_first:
  "\<exists>c cs. dumps j = c # cs \<and> \<not> is_json_ws c \<and> c \<noteq> CHR '']'' \<and> c \<noteq> CHR ''}''"
proof (cases j)
  case (JInt i)
  then show ?thesis
    using dec_int_Cons [of i] by (auto simp: is_json_ws_def is_digit_def)
next
  case (JFloat us)
  then show ?thesis
    using repr_time_Cons [of us] by (auto simp: is_json_ws_def is_digit_def)
qed (auto simp: json_string_def is_json_ws_def)

lemma skip_ws_dumps [simp]: "skip_ws (dumps j @ r) = dumps j @ r"
  using dumps_first [of j] by auto

lemma dumps_elems_first:
  "xs \<noteq> [] \<Longrightarrow> \<exists>c cs. dumps_elems xs = c # cs \<and> \<not> is_json_ws c \<and> c \<noteq> CHR '']''"
proof (cases xs)
  case (Cons x ys)
  then show ?thesis using dumps_first [of x] by (cases ys) auto
qed simp

lemma dumps_items_first: "kvs \<noteq> [] \<Longrightarrow> \<exists>cs. dumps_items kvs = CHR 0x22 # cs"
  by (cases kvs rule: dumps_items.cases) (auto simp: json_string_def)

lemma scan_value_int:
  assumes "json_stop r"
  shows "scan_value (Suc n) (dec_int i @ r) = Some (JInt i, r)"
proof -
  obtain c cs where c: "dec_int i = c # cs" "is_digit c \<or> c = CHR ''-''"
    using dec_int_Cons by blast
  then have "c \<notin> {CHR 0x22, CHR ''{'', CHR ''['', CHR ''n'', CHR ''t'', CHR ''f''}"
    by (auto simp: is_digit_def)
  with c scan_dec_int [OF assms, of i] show ?thesis by (simp add: scan_Suc(1))
qed

lemma scan_value_float:
  assumes "json_stop r"
  shows "scan_value (Suc n) (repr_time us @ r) = Some (JFloat us, r)"
proof -
  obtain c cs where c: "repr_time us = c # cs" "is_digit c \<or> c = CHR ''-''"
    using repr_time_Cons by blast
  then have "c \<notin> {CHR 0x22, CHR ''{'', CHR ''['', CHR ''n'', CHR ''t'', CHR ''f''}"
    by (auto simp: is_digit_def)
  with c scan_repr [OF assms, of us] show ?thesis by (simp add: scan_Suc(1))
qed

lemma scan_dumps:
  "json_wf j \<Longrightarrow> json_stop r \<Longrightarrow> 2 * length (dumps j) \<le> n \<Longrightarrow>
     scan_value n (dumps j @ r) = Some (j, r)"
  "xs \<noteq> [] \<Longrightarrow> list_all json_wf xs \<Longrightarrow> 2 * length (dumps_elems xs) + 1 \<le> n \<Longrightarrow>
     scan_elems n (dumps_elems xs @ CHR '']'' # r) = Some (xs, r)"
  "kvs \<noteq> [] \<Longrightarrow> list_all (\<lambda>(k, v). json_wf v) kvs \<Longrightarrow>
     2 * length (dumps_items kvs) + 1 \<le> n \<Longrightarrow>
     scan_items n (dumps_items kvs @ CHR ''}'' # r) = Some (kvs, r)"
proof (induction j and xs and kvs arbitrary: n r and n r and n r
    rule: dumps_dumps_elems_dumps_items.induct)
  case 1
  then obtain m where "n = Suc m" by (cases n) auto
  then show ?case by (simp add: scan_Suc(1) scan_literal_def)
next
  case (2 b)
  then obtain m where "n = Suc m" by (cases n) (auto split: if_splits)
  then show ?case by (simp add: scan_Suc(1) scan_literal_def)
next
  case (3 i)
  then obtain m where "n = Suc m"
    using dec_int_Cons [of i] by (cases n) auto
  with 3 show ?case by (simp add: scan_value_int)
next
  case (4 us)
  then obtain m where "n = Suc m"
    using repr_time_Cons [of us] by (cases n) auto
  with 4 show ?case by (simp add: scan_value_float)
next
  case (5 s)
  then obtain m where "n = Suc m" by (cases n) (auto simp: json_string_def)
  then show ?case by (simp add: scan_Suc(1) json_string_def scan_json_string)
next
  case (6 xs)
  then obtain m where m: "n = Suc m" by (cases n) auto
  show ?case
  proof (cases "xs = []")
    case True
    with m show ?thesis by (simp add: scan_Suc(1) is_json_ws_def)
  next
    case False
    from dumps_elems_first [OF this] obtain c cs
      where c: "dumps_elems xs = c # cs" "\<not> is_json_ws c" "c \<noteq> CHR '']''" by blast
    from 6 False m have "scan_elems m (dumps_elems xs @ CHR '']'' # r) = Some (xs, r)" by simp
    with c m show ?thesis by (simp add: scan_Suc(1))
  qed
next
  case (7 kvs)
  then obtain m where m: "n = Suc m" by (cases n) auto
  show ?case
  proof (cases "kvs = []")
    case True
    with m show ?thesis by (simp add: scan_Suc(1) is_json_ws_def)
  next
    case False
    from dumps_items_first [OF this] obtain cs where c: "dumps_items kvs = CHR 0x22 # cs" by blast
    from 7 False m have "scan_items m (dumps_items kvs @ CHR ''}'' # r) = Some (kvs, r)"
      by simp
    with c m "7.prems" show ?thesis by (simp add: scan_Suc(1) is_json_ws_def dict_of_pairs_id)
  qed
next
  case (9 x)
  then obtain m where m: "n = Suc m" by (cases n) auto
  with 9 have "scan_value m (dumps x @ CHR '']'' # r) = Some (x, CHR '']'' # r)"
    by (simp add: json_stop_def)
  with m show ?case by (simp add: scan_Suc(2) is_json_ws_def)
next
  case (10 x y ys)
  then obtain m where m: "n = Suc m" by (cases n) auto
  let ?r = "dumps_elems (y # ys) @ CHR '']'' # r"
  from 10 m have v: "scan_value m (dumps x @ CHR '','' # ?r) = Some (x, CHR '','' # ?r)"
    by (simp add: json_stop_def)
  from 10 m have e: "scan_elems m ?r = Some (y # ys, r)" by simp
  obtain c cs where "dumps_elems (y # ys) = c # cs" "\<not> is_json_ws c"
    using dumps_elems_first [of "y # ys"] by blast
  then have "skip_ws ?r = ?r" by simp
  with v e m show ?case by (simp add: scan_Suc(2) is_json_ws_def)
next
  case (12 k v)
  then obtain m where m: "n = Suc m" by (cases n) auto
  with 12 have "scan_value m (dumps v @ CHR ''}'' # r) = Some (v, CHR ''}'' # r)"
    by (simp add: json_stop_def)
  with m show ?case
    by (simp add: scan_Suc(3) json_string_def scan_json_string is_json_ws_def)
next
  case (13 k v kv kvs)
  then obtain m where m: "n = Suc m" by (cases n) auto
  let ?r = "dumps_items (kv # kvs) @ CHR ''}'' # r"
  from 13 m have v: "scan_value m (dumps v @ CHR '','' # ?r) = Some (v, CHR '','' # ?r)"
    by (simp add: json_stop_def)
  from 13 m have e: "scan_items m ?r = Some (kv # kvs, r)" by simp
  obtain cs where "dumps_items (kv # kvs) = CHR 0x22 # cs"
    using dumps_items_first [of "kv # kvs"] by blast
  then have "skip_ws ?r = ?r" by (simp add: is_json_ws_def)
  with v e m show ?case
    by (simp add: scan_Suc(3) json_string_def scan_json_string is_json_ws_def)
qed auto

theorem json_roundtrip: "json_wf j \<Longrightarrow> loads (dumps j) = Some j"
  using scan_dumps(1) [of j "[]" "2 * length (dumps j) + 2"]
  by (simp add: loads_def json_stop_def dropWhile_eq_self_iff skip_ws_dumps [of j "[]", simplified])

lemma dumps_inject: "json_wf j \<Longrightarrow> json_wf k \<Longrightarrow> dumps j = dumps k \<longleftrightarrow> j = k"
  by (metis json_roundtrip option.inject)

section \<open>Sorted printing\<close>

lemma distinct_keys_sort_key: "distinct (map fst kvs) \<Longrightarrow> distinct (map fst (sort_key fst kvs))"
  by (simp add: distinct_map)

lemma map_of_sort_key:
  assumes "distinct (map fst kvs)"
  shows "map_of (sort_key fst kvs) = map_of kvs"
  using map_of_inject_set [OF distinct_keys_sort_key [OF assms] assms] by simp

lemma dict_of_lookups:
  assumes "distinct (map fst kvs)"
  shows "map (\<lambda>k. (k, the (map_of kvs k))) (map fst kvs) = kvs"
  unfolding map_map comp_def by (rule map_idI) (use assms in auto)

lemma json_wf_sort_keys: "json_wf j \<Longrightarrow> json_wf (sort_keys j)"
proof (induction j rule: sort_keys.induct)
  case (2 kvs)
  let ?kvs = "map (\<lambda>(k, v). (k, sort_keys v)) kvs"
  have keys: "map fst ?kvs = map fst kvs" by (simp add: split_beta)
  with 2 have "distinct (map fst (sort_key fst ?kvs))"
    by (intro distinct_keys_sort_key) (simp only: keys json_wf.simps)
  moreover have "\<forall>(k, v) \<in> set kvs. json_wf (sort_keys v)"
    using 2 by (fastforce simp: list_all_iff)
  ultimately show ?case by (auto simp: list_all_iff)
qed (auto simp: list_all_iff)

theorem json_sorted_roundtrip: "json_wf j \<Longrightarrow> loads (dumps_sorted j) = Some (sort_keys j)"
  by (simp add: dumps_sorted_def json_roundtrip json_wf_sort_keys)

lemma sort_key_map: "sort_key f (map g xs) = map g (sort_key (\<lambda>x. f (g x)) xs)"
proof -
  have "insort_key f (g x) (map g ys) = map g (insort_key (\<lambda>x. f (g x)) x ys)" for x ys
    by (induction ys) auto
  then show ?thesis by (induction xs) simp_all
qed

lemma sort_keys_idem [simp]: "sort_keys (sort_keys j) = sort_keys j"
proof (induction j rule: sort_keys.induct)
  case (2 kvs)
  let ?f = "\<lambda>(k, v). (k, sort_keys v)"
  have fst_f: "(\<lambda>x. fst (?f x)) = fst" by (simp add: fun_eq_iff split_beta)
  have "map ?f (map ?f kvs) = map ?f kvs" using 2 by auto
  moreover have "map ?f (sort_key fst (map ?f kvs)) = sort_key fst (map ?f (map ?f kvs))"
    unfolding sort_key_map [of fst ?f "map ?f kvs"] fst_f ..
  ultimately show ?case
    by (simp only: sort_keys.simps json.inject sort_key_id_if_sorted sorted_sort_key)
qed simp_all

text \<open>The payloads the program signs are flat objects with a fixed list of keys.\<close>

fun json_flat :: "json \<Rightarrow> bool" where
  "json_flat (JList _) = False"
| "json_flat (JObj _) = False"
| "json_flat _ = True"

lemma json_flat_facts: "json_flat v \<Longrightarrow> json_wf v" "json_flat v \<Longrightarrow> sort_keys v = v"
  by (cases v; simp)+

lemma flat_object_sorted:
  assumes "list_all (\<lambda>(k, v). json_flat v) kvs"
  shows "sort_keys (JObj kvs) = JObj (sort_key fst kvs)"
proof -
  have "map (\<lambda>(k, v). (k, sort_keys v)) kvs = kvs"
    using assms by (intro map_idI) (auto simp: list_all_iff json_flat_facts)
  then show ?thesis by simp
qed

lemma flat_object_wf:
  "distinct (map fst kvs) \<Longrightarrow> list_all (\<lambda>(k, v). json_flat v) kvs \<Longrightarrow> json_wf (JObj kvs)"
  by (auto simp: list_all_iff json_flat_facts)

lemma dumps_sorted_flat_inject:
  assumes "dumps_sorted (JObj a) = dumps_sorted (JObj b)" and "map fst a = map fst b"
    and "distinct (map fst a)" and "list_all (\<lambda>(k, v). json_flat v) a"
    and "list_all (\<lambda>(k, v). json_flat v) b"
  shows "a = b"
proof -
  have db: "distinct (map fst b)" using assms(2,3) by simp
  have "sort_keys (JObj a) = sort_keys (JObj b)"
    using assms(1) json_sorted_roundtrip [OF flat_object_wf [OF assms(3,4)]]
      json_sorted_roundtrip [OF flat_object_wf [OF db assms(5)]] by simp
  then have "sort_key fst a = sort_key fst b"
    by (simp only: flat_object_sorted [OF assms(4)] flat_object_sorted [OF assms(5)] json.inject)
  then have "map_of a = map_of b"
    using map_of_sort_key [OF assms(3)] map_of_sort_key [OF db] by simp
  then show ?thesis
    using dict_of_lookups [OF assms(3)] dict_of_lookups [OF db] assms(2) by simp
qed

lemma dict_of_sorted:
  assumes "list_all (\<lambda>(k, v). json_flat v) d" and "distinct (map fst d)"
  shows "sort_keys (JObj d) = JObj (sort_key fst d)" and "map_of (sort_key fst d) = map_of d"
    and "json_wf (JObj d)"
  using flat_object_sorted [OF assms(1)] map_of_sort_key [OF assms(2)] flat_object_wf [OF assms(2,1)]
  by simp_all

section \<open>Reading fields\<close>

text \<open>\<open>data["k"]\<close> on a parsed object, and the conversions the model's types ask for.\<close>

definition json_field :: "string \<Rightarrow> (string, json) dict \<Rightarrow> json res" where
  "json_field k d = of_option (KeyError k) (map_of d k)"

fun json_str :: "json \<Rightarrow> string res" where
  "json_str (JStr s) = Inr s"
| "json_str _ = Inl (TypeError ''expected str'')"

fun json_int :: "json \<Rightarrow> int res" where
  "json_int (JInt i) = Inr i"
| "json_int _ = Inl (TypeError ''expected int'')"

fun json_bool :: "json \<Rightarrow> bool res" where
  "json_bool (JBool b) = Inr b"
| "json_bool _ = Inl (TypeError ''expected bool'')"

fun json_opt_str :: "json \<Rightarrow> string option res" where
  "json_opt_str JNull = Inr None"
| "json_opt_str (JStr s) = Inr (Some s)"
| "json_opt_str _ = Inl (TypeError ''expected str or None'')"

fun json_list :: "json \<Rightarrow> json list res" where
  "json_list (JList xs) = Inr xs"
| "json_list _ = Inl (TypeError ''expected list'')"

text \<open>The elements a \<open>for\<close> loop visits: of a list, the characters of a string, the keys of an object.\<close>

fun json_iter :: "json \<Rightarrow> json list res" where
  "json_iter (JList xs) = Inr xs"
| "json_iter (JStr s) = Inr (map (\<lambda>c. JStr [c]) s)"
| "json_iter (JObj d) = Inr (map (\<lambda>(k, v). JStr k) d)"
| "json_iter _ = Inl (TypeError ''object is not iterable'')"

fun json_obj :: "json \<Rightarrow> (string, json) dict res" where
  "json_obj (JObj d) = Inr d"
| "json_obj _ = Inl (TypeError ''expected object'')"

fun opt_str_json :: "string option \<Rightarrow> json" where
  "opt_str_json None = JNull"
| "opt_str_json (Some s) = JStr s"

lemma json_opt_str_roundtrip [simp]: "json_opt_str (opt_str_json x) = Inr x"
  by (cases x) auto

lemma json_flat_opt_str [simp]: "json_flat (opt_str_json x)" "json_wf (opt_str_json x)"
    "sort_keys (opt_str_json x) = opt_str_json x"
  by (cases x; simp)+

lemma opt_str_json_inject [simp]: "opt_str_json x = opt_str_json y \<longleftrightarrow> x = y"
  by (cases x; cases y; simp)

text \<open>Keyword arguments of a dataclass, without and with a default.\<close>

definition required :: "(json \<Rightarrow> 'a res) \<Rightarrow> string \<Rightarrow> (string, json) dict \<Rightarrow> 'a res" where
  "required conv k data =
     (case map_of data k of None \<Rightarrow> Inl (TypeError ''missing argument'') | Some j \<Rightarrow> conv j)"

definition optional :: "(json \<Rightarrow> 'a res) \<Rightarrow> 'a \<Rightarrow> string \<Rightarrow> (string, json) dict \<Rightarrow> 'a res" where
  "optional conv dflt k data = (case map_of data k of None \<Rightarrow> Inr dflt | Some j \<Rightarrow> conv j)"

text \<open>
  An unknown name or a missing argument without a default raises \<open>TypeError\<close>, and so does, in the
  model, a value of another type than the annotation.
\<close>

definition kwargs :: "string list \<Rightarrow> (string, json) dict \<Rightarrow> unit res" where
  "kwargs names data =
     (if list_all (\<lambda>(k, _). k \<in> set names) data then Inr ()
      else Inl (TypeError ''unexpected keyword argument''))"

lemma kwargs_sorted [simp]: "kwargs names (sort_key fst d) = kwargs names d"
  by (simp add: kwargs_def list_all_iff)

definition parse_json :: "string \<Rightarrow> json res" where
  "parse_json s = of_option (ValueError ''JSONDecodeError'') (loads s)"

lemma parse_dumps_sorted: "json_wf j \<Longrightarrow> parse_json (dumps_sorted j) = Inr (sort_keys j)"
  by (simp add: parse_json_def json_sorted_roundtrip)

end
