(* ===== verification/Sha256.thy ===== *)
theory Sha256
  imports PyCodec
begin

unbundle bit_operations_syntax

text \<open>
  SHA-256 (FIPS 180-4), the hash behind every \<open>hashlib.sha256\<close> of the program: padding to
  blocks of 64 bytes, the message schedule and the compression function on \<open>32 word\<close>. No theorem of the development
  assumes that the function is injective; where a result depends on collisions, the collision is
  part of the statement.
\<close>

type_synonym w32 = "32 word"

section \<open>Constants\<close>

text \<open>The round constants and the initial hash value, in decimal.\<close>

definition sha256_k :: "w32 list" where
  "sha256_k =
    [1116352408, 1899447441, 3049323471, 3921009573, 961987163, 1508970993, 2453635748, 2870763221,
     3624381080, 310598401, 607225278, 1426881987, 1925078388, 2162078206, 2614888103, 3248222580,
     3835390401, 4022224774, 264347078, 604807628, 770255983, 1249150122, 1555081692, 1996064986,
     2554220882, 2821834349, 2952996808, 3210313671, 3336571891, 3584528711, 113926993, 338241895,
     666307205, 773529912, 1294757372, 1396182291, 1695183700, 1986661051, 2177026350, 2456956037,
     2730485921, 2820302411, 3259730800, 3345764771, 3516065817, 3600352804, 4094571909, 275423344,
     430227734, 506948616, 659060556, 883997877, 958139571, 1322822218, 1537002063, 1747873779,
     1955562222, 2024104815, 2227730452, 2361852424, 2428436474, 2756734187, 3204031479, 3329325298]"

definition sha256_h0 :: "w32 list" where
  "sha256_h0 =
    [1779033703, 3144134277, 1013904242, 2773480762, 1359893119, 2600822924, 528734635, 1541459225]"

section \<open>Padding and words\<close>

definition be_bytes :: "nat \<Rightarrow> nat \<Rightarrow> bytes" where
  "be_bytes k n = map (\<lambda>i. of_nat (n div 256 ^ (k - 1 - i) mod 256)) [0..<k]"

definition sha256_pad :: "bytes \<Rightarrow> bytes" where
  "sha256_pad m =
     m @ [0x80] @ replicate ((119 - length m mod 64) mod 64) 0 @ be_bytes 8 (8 * length m)"

fun be_words :: "bytes \<Rightarrow> w32 list" where
  "be_words (a # b # c # d # bs) =
     of_nat (((unat a * 256 + unat b) * 256 + unat c) * 256 + unat d) # be_words bs"
| "be_words _ = []"

section \<open>Compression\<close>

definition rotr :: "nat \<Rightarrow> w32 \<Rightarrow> w32" where
  "rotr n w = (drop_bit n w) OR (push_bit (32 - n) w)"

definition sigma0 :: "w32 \<Rightarrow> w32" where
  "sigma0 x = rotr 7 x XOR rotr 18 x XOR drop_bit 3 x"

definition sigma1 :: "w32 \<Rightarrow> w32" where
  "sigma1 x = rotr 17 x XOR rotr 19 x XOR drop_bit 10 x"

definition big_sigma0 :: "w32 \<Rightarrow> w32" where
  "big_sigma0 x = rotr 2 x XOR rotr 13 x XOR rotr 22 x"

definition big_sigma1 :: "w32 \<Rightarrow> w32" where
  "big_sigma1 x = rotr 6 x XOR rotr 11 x XOR rotr 25 x"

text \<open>The schedule keeps its latest words in front.\<close>

fun sha256_extend :: "nat \<Rightarrow> w32 list \<Rightarrow> w32 list" where
  "sha256_extend 0 ws = ws"
| "sha256_extend (Suc n) ws =
     sha256_extend n ((sigma1 (ws ! 1) + ws ! 6 + sigma0 (ws ! 14) + ws ! 15) # ws)"

definition sha256_schedule :: "w32 list \<Rightarrow> w32 list" where
  "sha256_schedule block = rev (sha256_extend 48 (rev block))"

fun sha256_rounds :: "(w32 \<times> w32) list \<Rightarrow> w32 list \<Rightarrow> w32 list" where
  "sha256_rounds ((k, w) # kws) [a, b, c, d, e, f, g, h] =
     (let t1 = h + big_sigma1 e + ((e AND f) XOR (NOT e AND g)) + k + w;
          t2 = big_sigma0 a + ((a AND b) XOR (a AND c) XOR (b AND c))
      in sha256_rounds kws [t1 + t2, a, b, c, d + t1, e, f, g])"
| "sha256_rounds _ s = s"

definition sha256_block :: "w32 list \<Rightarrow> w32 list \<Rightarrow> w32 list" where
  "sha256_block s block =
     map2 (+) s (sha256_rounds (zip sha256_k (sha256_schedule block)) s)"

fun sha256_blocks :: "nat \<Rightarrow> w32 list \<Rightarrow> w32 list \<Rightarrow> w32 list" where
  "sha256_blocks 0 s ws = s"
| "sha256_blocks (Suc n) s ws = sha256_blocks n (sha256_block s (take 16 ws)) (drop 16 ws)"

text \<open>\<open>hashlib.sha256(m).digest()\<close> and \<open>.hexdigest()\<close>\<close>

definition sha256 :: "bytes \<Rightarrow> bytes" where
  "sha256 m =
     (let ws = be_words (sha256_pad m)
      in concat (map (\<lambda>w. be_bytes 4 (unat w)) (sha256_blocks (length ws div 16) sha256_h0 ws)))"

definition sha256_hex :: "bytes \<Rightarrow> string" where
  "sha256_hex m = to_hex (sha256 m)"

lemma sha256_hex_eq_iff: "sha256_hex a = sha256_hex b \<longleftrightarrow> sha256 a = sha256 b"
  by (simp add: sha256_hex_def)

lemma length_sha256_rounds: "length st = 8 \<Longrightarrow> length (sha256_rounds kws st) = 8"
  by (induction kws st rule: sha256_rounds.induct) (auto simp: Let_def)

lemma length_sha256_blocks: "length st = 8 \<Longrightarrow> length (sha256_blocks n st ws) = 8"
  by (induction n arbitrary: st ws) (simp_all add: sha256_block_def length_sha256_rounds)

lemma length_sha256 [simp]: "length (sha256 m) = 32"
proof -
  have "length sha256_h0 = 8" by (simp add: sha256_h0_def)
  note len = length_sha256_blocks [OF this]
  have "length (concat (map (\<lambda>w. be_bytes 4 (unat w)) (ws :: w32 list))) = 4 * length ws" for ws
    by (induction ws) (simp_all add: be_bytes_def)
  then show ?thesis by (simp add: sha256_def Let_def len)
qed

end
