(* ===== verification/Signatures.thy ===== *)
theory Signatures
  imports Sha256
begin

text \<open>
  The Ed25519 layer: \<open>crypto/signatures.py\<close> (Base64 keys, used by the canonical stack) and
  \<open>crypto/crypto_utils.py\<close> (hexadecimal or PEM keys, used by the offline proof of concept). The
  primitive itself is third-party code (the \<open>cryptography\<close> package, the OpenSSL command line)
  and a parameter: a record of the functions the code calls. What the code relies on is the
  predicate \<open>ed_ok\<close>, that a signature made with a 32-byte key verifies under its
  public key. Key generation draws a seed, which is an argument.
\<close>

section \<open>The third-party primitive\<close>

datatype verify_outcome = SigValid | SigInvalid | KeyRejected

text \<open>
  \<open>ed_public\<close>: raw public key of a 32-byte private key; \<open>ed_sign\<close>: \<open>None\<close> when
  \<open>from_private_bytes\<close> raises \<open>ValueError\<close>; \<open>ed_verify\<close> on public key, message and
  signature: \<open>SigInvalid\<close> is the exception \<open>InvalidSignature\<close>, \<open>KeyRejected\<close> is
  \<open>ValueError\<close>.
\<close>

record ed25519 =
  ed_public :: "bytes \<Rightarrow> bytes"
  ed_sign :: "bytes \<Rightarrow> bytes \<Rightarrow> bytes option"
  ed_verify :: "bytes \<Rightarrow> bytes \<Rightarrow> bytes \<Rightarrow> verify_outcome"

definition ed_ok :: "ed25519 \<Rightarrow> bool" where
  "ed_ok C \<longleftrightarrow>
     (\<forall>sk m. length sk = 32 \<longrightarrow>
        length (ed_public C sk) = 32 \<and>
        (\<exists>s. ed_sign C sk m = Some s \<and> ed_verify C (ed_public C sk) m s = SigValid))"

text \<open>A concrete instance for the witnesses: the signature is the public key before the message.\<close>

definition toy_ed25519 :: ed25519 where
  "toy_ed25519 =
     \<lparr>ed_public = (\<lambda>sk. sk),
      ed_sign = (\<lambda>sk m. if length sk = 32 then Some (sk @ m) else None),
      ed_verify = (\<lambda>pk m s. if length pk \<noteq> 32 then KeyRejected
                              else if s = pk @ m then SigValid else SigInvalid)\<rparr>"

lemma toy_ed25519_simps [simp]:
  "ed_public toy_ed25519 sk = sk"
  "ed_sign toy_ed25519 sk m = (if length sk = 32 then Some (sk @ m) else None)"
  "ed_verify toy_ed25519 pk m s = (if length pk \<noteq> 32 then KeyRejected
     else if s = pk @ m then SigValid else SigInvalid)"
  by (simp_all add: toy_ed25519_def)

lemma toy_ed25519_ok [simp]: "ed_ok toy_ed25519"
  by (simp add: ed_ok_def)

text \<open>
  A second instance, where the only messages with a signature are those of a given list: it
  shows that hypotheses on what a key has signed can be met.
\<close>

definition ledger_ed25519 :: "bytes list \<Rightarrow> ed25519" where
  "ledger_ed25519 ms =
     \<lparr>ed_public = (\<lambda>sk. sk),
      ed_sign = (\<lambda>sk m. if length sk = 32 \<and> m \<in> set ms then Some (sk @ m) else None),
      ed_verify = (\<lambda>pk m s. if length pk \<noteq> 32 then KeyRejected
                              else if s = pk @ m \<and> m \<in> set ms then SigValid else SigInvalid)\<rparr>"

lemma ledger_ed25519_simps [simp]:
  "ed_public (ledger_ed25519 ms) sk = sk"
  "ed_verify (ledger_ed25519 ms) pk m s = (if length pk \<noteq> 32 then KeyRejected
     else if s = pk @ m \<and> m \<in> set ms then SigValid else SigInvalid)"
  by (simp_all add: ledger_ed25519_def)

section \<open>The interface the stacks rely on\<close>

text \<open>
  Signing and verifying on textual keys. \<open>ok\<close> says that the library below behaves as documented,
  \<open>keypair\<close> that a private and a public key belong together.
\<close>

locale signature_scheme =
  fixes ok :: "'c \<Rightarrow> bool"
    and keypair :: "'c \<Rightarrow> string \<Rightarrow> string \<Rightarrow> bool"
    and sign :: "'c \<Rightarrow> string \<Rightarrow> bytes \<Rightarrow> string res"
    and verify :: "'c \<Rightarrow> string \<Rightarrow> bytes \<Rightarrow> string \<Rightarrow> bool"
  assumes sign_verifies:
    "ok c \<Longrightarrow> keypair c sk pk \<Longrightarrow> \<exists>s. sign c sk m = Inr s \<and> verify c pk m s"
begin

lemma sign_returns: "ok c \<Longrightarrow> keypair c sk pk \<Longrightarrow> is_ok (sign c sk m)"
  using sign_verifies [of c sk pk m] by auto

lemma signed_valid: "ok c \<Longrightarrow> keypair c sk pk \<Longrightarrow> sign c sk m = Inr s \<Longrightarrow> verify c pk m s"
  using sign_verifies [of c sk pk m] by auto

text \<open>Signing a family of messages with one key never fails.\<close>

lemma sign_all: "ok c \<Longrightarrow> keypair c sk pk \<Longrightarrow> is_ok (map_res (sign c sk) ms)"
proof (induction ms)
  case (Cons m ms)
  then obtain s ss where "sign c sk m = Inr s" "map_res (sign c sk) ms = Inr ss"
    using sign_returns [of c sk pk m] by (auto simp: is_ok_iff)
  then show ?case by simp
qed simp

end

section \<open>crypto/signatures.py: Base64 keys\<close>

definition b64_generate_keypair :: "ed25519 \<Rightarrow> bytes \<Rightarrow> string \<times> string" where
  "b64_generate_keypair C seed = (b64encode seed, b64encode (ed_public C seed))"

definition sign_message :: "ed25519 \<Rightarrow> string \<Rightarrow> bytes \<Rightarrow> string res" where
  "sign_message C sk message =
     (case b64decode sk of
        None \<Rightarrow> Inl (ValueError ''base64'')
      | Some private_bytes \<Rightarrow>
          (case ed_sign C private_bytes message of
             None \<Rightarrow> Inl (ValueError ''ed25519 private key'')
           | Some signature \<Rightarrow> Inr (b64encode signature)))"

definition verify_signature :: "ed25519 \<Rightarrow> string \<Rightarrow> bytes \<Rightarrow> string \<Rightarrow> bool" where
  "verify_signature C pk message sig =
     (case b64decode pk of
        None \<Rightarrow> False
      | Some public_bytes \<Rightarrow>
          (case b64decode sig of
             None \<Rightarrow> False
           | Some signature_bytes \<Rightarrow>
               (case ed_verify C public_bytes message signature_bytes of
                  SigValid \<Rightarrow> True
                | SigInvalid \<Rightarrow> False
                | KeyRejected \<Rightarrow> False)))"

lemma verify_ledger:
  "verify_signature (ledger_ed25519 ms) pk m s \<Longrightarrow> m \<in> set ms"
  by (auto simp: verify_signature_def split: option.splits if_splits)

text \<open>The key pairs that \<open>generate_keypair\<close> can return.\<close>

definition b64_keypair :: "ed25519 \<Rightarrow> string \<Rightarrow> string \<Rightarrow> bool" where
  "b64_keypair C sk pk \<longleftrightarrow>
     (case b64decode sk of
        None \<Rightarrow> False
      | Some seed \<Rightarrow> length seed = 32 \<and> b64_generate_keypair C seed = (sk, pk))"

lemma b64_generated_keypair:
  "length seed = 32 \<Longrightarrow> b64_generate_keypair C seed = (sk, pk) \<Longrightarrow> b64_keypair C sk pk"
  by (auto simp: b64_keypair_def b64_generate_keypair_def)

interpretation b64sig: signature_scheme ed_ok b64_keypair sign_message verify_signature
proof unfold_locales
  fix c sk pk m
  assume ok: "ed_ok c" and "b64_keypair c sk pk"
  then obtain seed where seed: "b64decode sk = Some seed" "length seed = 32"
    and pk: "pk = b64encode (ed_public c seed)"
    by (auto simp: b64_keypair_def b64_generate_keypair_def split: option.splits)
  from ok seed(2) obtain s where "ed_sign c seed m = Some s"
    "ed_verify c (ed_public c seed) m s = SigValid"
    by (auto simp: ed_ok_def)
  with seed(1) pk show "\<exists>s. sign_message c sk m = Inr s \<and> verify_signature c pk m s"
    by (simp add: sign_message_def verify_signature_def)
qed

section \<open>crypto/crypto\_utils.py: hexadecimal or PEM keys\<close>

text \<open>
  The module uses \<open>cryptography\<close> when it can be imported and the key is not PEM, and the OpenSSL
  command line otherwise. The command line is a parameter too: a missing \<open>openssl\<close> or a failing
  call is \<open>None\<close> or \<open>False\<close>, and any failure of it is one exception of the model.
\<close>

record backend =
  cryptography :: "ed25519 option"
  openssl_sign :: "string \<Rightarrow> bytes \<Rightarrow> bytes option"
  openssl_verify :: "string \<Rightarrow> bytes \<Rightarrow> bytes \<Rightarrow> bool"
  openssl_keypair :: "(string \<times> string) option"

definition is_pem :: "string \<Rightarrow> bool" where
  "is_pem key \<longleftrightarrow> sublist ''BEGIN'' key"

definition generate_keypair :: "backend \<Rightarrow> bytes \<Rightarrow> (string \<times> string) res" where
  "generate_keypair B seed =
     (case cryptography B of
        Some C \<Rightarrow> Inr (to_hex seed, to_hex (ed_public C seed))
      | None \<Rightarrow> of_option (RuntimeError ''openssl'') (openssl_keypair B))"

definition crypto_sign :: "backend \<Rightarrow> bytes \<Rightarrow> string \<Rightarrow> string res" where
  "crypto_sign B message private_key =
     (case (cryptography B, is_pem private_key) of
        (Some C, False) \<Rightarrow>
          (case from_hex private_key of
             None \<Rightarrow> Inl (ValueError ''fromhex'')
           | Some sk \<Rightarrow>
               (case ed_sign C sk message of
                  None \<Rightarrow> Inl (ValueError ''ed25519 private key'')
                | Some s \<Rightarrow> Inr (to_hex s)))
      | _ \<Rightarrow> map_sum (\<lambda>_. RuntimeError ''openssl'') to_hex
               (of_option () (openssl_sign B private_key message)))"

text \<open>Any exception is caught and means \<open>False\<close>.\<close>

definition crypto_verify :: "backend \<Rightarrow> bytes \<Rightarrow> string \<Rightarrow> string \<Rightarrow> bool" where
  "crypto_verify B message signature_hex public_key =
     (case (cryptography B, is_pem public_key) of
        (Some C, False) \<Rightarrow>
          (case (from_hex public_key, from_hex signature_hex) of
             (Some pk, Some s) \<Rightarrow> ed_verify C pk message s = SigValid
           | _ \<Rightarrow> False)
      | _ \<Rightarrow>
          (case from_hex signature_hex of
             None \<Rightarrow> False
           | Some s \<Rightarrow> openssl_verify B public_key message s))"

definition hex_keypair :: "backend \<Rightarrow> string \<Rightarrow> string \<Rightarrow> bool" where
  "hex_keypair B sk pk \<longleftrightarrow>
     (case from_hex sk of
        None \<Rightarrow> False
      | Some seed \<Rightarrow> length seed = 32 \<and> generate_keypair B seed = Inr (sk, pk))"

definition backend_ok :: "backend \<Rightarrow> bool" where
  "backend_ok B \<longleftrightarrow> (case cryptography B of None \<Rightarrow> False | Some C \<Rightarrow> ed_ok C)"

definition toy_backend :: backend where
  "toy_backend =
     \<lparr>cryptography = Some toy_ed25519, openssl_sign = (\<lambda>_ _. None),
      openssl_verify = (\<lambda>_ _ _. False), openssl_keypair = None\<rparr>"

lemma toy_backend_simps [simp]: "cryptography toy_backend = Some toy_ed25519"
  by (simp add: toy_backend_def)

lemma toy_backend_ok [simp]: "backend_ok toy_backend"
  by (simp add: backend_ok_def)

text \<open>Hexadecimal text is lower case, so it is never mistaken for PEM.\<close>

lemma hex_digit_not_B: "n < 16 \<Longrightarrow> hex_digit n \<noteq> CHR ''B''"
  by (drule less_16_cases) (auto simp: hex_digit_def)

lemma to_hex_no_B: "CHR ''B'' \<notin> set (to_hex bs)"
proof (induction bs)
  case (Cons b bs)
  have "byte_val b div 16 < 16" "byte_val b mod 16 < 16"
    using byte_val_less [of b] by (simp_all add: less_mult_imp_div_less)
  then have "hex_digit (byte_val b div 16) \<noteq> CHR ''B''" "hex_digit (byte_val b mod 16) \<noteq> CHR ''B''"
    by (simp_all add: hex_digit_not_B)
  with Cons show ?case by (auto simp: hex_byte_def)
qed simp

lemma to_hex_not_pem [simp]: "\<not> is_pem (to_hex bs)"
proof
  assume "is_pem (to_hex bs)"
  then have "set ''BEGIN'' \<subseteq> set (to_hex bs)"
    unfolding is_pem_def by (rule set_mono_sublist)
  then show False using to_hex_no_B [of bs] by simp
qed

interpretation hexsig: signature_scheme backend_ok hex_keypair "\<lambda>B sk m. crypto_sign B m sk"
  "\<lambda>B pk m s. crypto_verify B m s pk"
proof unfold_locales
  fix c sk pk m
  assume "backend_ok c" and "hex_keypair c sk pk"
  then obtain C seed where C: "cryptography c = Some C" "ed_ok C"
    and seed: "length seed = 32" and sk: "sk = to_hex seed" and pk: "pk = to_hex (ed_public C seed)"
    by (auto simp: backend_ok_def hex_keypair_def generate_keypair_def split: option.splits)
  from C(2) seed obtain s where "ed_sign C seed m = Some s"
    "ed_verify C (ed_public C seed) m s = SigValid"
    by (auto simp: ed_ok_def)
  with C(1) sk pk show "\<exists>s. crypto_sign c m sk = Inr s \<and> crypto_verify c m s pk"
    by (simp add: crypto_sign_def crypto_verify_def)
qed

end
