(* ===== verification/HashChain.thy ===== *)
theory HashChain
  imports Sha256
begin

text \<open>
  Hash-linked lists of records, the structure under the transfer chains of the program: every
  record carries the digest of the one before it, the first carries a genesis value. The
  locale states what a record type has to provide, and its main lemma that the last record of a
  chain determines the whole chain, unless two of the records form a SHA-256 collision or the
  digest of a record is the genesis value. It is interpreted on the record types of the stacks in
  their theories.
\<close>

fun linked :: "('r \<Rightarrow> 'h) \<Rightarrow> ('r \<Rightarrow> 'h) \<Rightarrow> 'h \<Rightarrow> 'r list \<Rightarrow> bool" where
  "linked link digest h [] = True"
| "linked link digest h (r # rs) = (link r = h \<and> linked link digest (digest r) rs)"

lemma linked_append:
  "linked link digest h (rs @ ss) \<longleftrightarrow>
     linked link digest h rs \<and> linked link digest (if rs = [] then h else digest (last rs)) ss"
  by (induction rs arbitrary: h) auto

lemma linked_snoc:
  "linked link digest h (rs @ [r]) \<longleftrightarrow>
     linked link digest h rs \<and> link r = (if rs = [] then h else digest (last rs))"
  by (simp add: linked_append)

text \<open>Two records, one from each list, whose different contents have the same SHA-256 digest.\<close>

definition collision :: "('r \<Rightarrow> bytes) \<Rightarrow> 'r list \<Rightarrow> 'r list \<Rightarrow> bool" where
  "collision content rs ss \<longleftrightarrow>
     (\<exists>r \<in> set rs. \<exists>s \<in> set ss. content r \<noteq> content s \<and> sha256 (content r) = sha256 (content s))"

lemma collision_snoc: "collision content rs ss \<Longrightarrow> collision content (rs @ [r]) (ss @ [s])"
  by (auto simp: collision_def)

locale hash_chain =
  fixes genesis :: 'h
    and link :: "'r \<Rightarrow> 'h"
    and digest :: "'r \<Rightarrow> 'h"
    and content :: "'r \<Rightarrow> bytes"
    and core :: "'r \<Rightarrow> 'c"
    and wf :: "'r \<Rightarrow> bool"
  assumes content_determines: "wf r \<Longrightarrow> wf s \<Longrightarrow> content r = content s \<Longrightarrow> core r = core s"
    and core_link: "core r = core s \<Longrightarrow> link r = link s"
    and digest_content: "wf r \<Longrightarrow> wf s \<Longrightarrow> digest r = digest s \<Longrightarrow>
      sha256 (content r) = sha256 (content s)"
begin

lemma last_determines_chain:
  assumes "linked link digest genesis rs" and "linked link digest genesis ss"
    and "rs \<noteq> []" and "ss \<noteq> []" and "core (last rs) = core (last ss)"
    and "\<forall>r \<in> set rs \<union> set ss. wf r"
  shows "map core rs = map core ss \<or> collision content rs ss \<or>
    (\<exists>r \<in> set rs \<union> set ss. digest r = genesis)"
  using assms
proof (induction rs arbitrary: ss rule: rev_induct)
  case (snoc r rs)
  from snoc.prems(4) obtain ss' s where ss: "ss = ss' @ [s]" by (cases ss rule: rev_cases) auto
  with snoc.prems(5) have core: "core r = core s" by simp
  then have link: "link r = link s" by (rule core_link)
  have lr: "link r = (if rs = [] then genesis else digest (last rs))"
    and ls: "link s = (if ss' = [] then genesis else digest (last ss'))"
    using snoc.prems(1,2) ss by (simp_all add: linked_snoc)
  show ?case
  proof (cases "rs = [] \<or> ss' = []")
    case True
    with lr ls link ss core show ?thesis by (auto split: if_splits)
  next
    case False
    with snoc.prems(6) ss have wf: "wf (last rs)" "wf (last ss')" by auto
    from False lr ls link have dig: "digest (last rs) = digest (last ss')" by simp
    then have sha: "sha256 (content (last rs)) = sha256 (content (last ss'))"
      by (rule digest_content [OF wf])
    show ?thesis
    proof (cases "content (last rs) = content (last ss')")
      case True
      then have "core (last rs) = core (last ss')" by (rule content_determines [OF wf])
      with snoc.IH [of ss'] snoc.prems(1,2,6) ss False
      have "map core rs = map core ss' \<or> collision content rs ss' \<or>
          (\<exists>r \<in> set rs \<union> set ss'. digest r = genesis)"
        by (simp add: linked_snoc)
      with core ss show ?thesis by (auto dest: collision_snoc)
    next
      case neq: False
      with sha False have "collision content rs ss'"
        unfolding collision_def by (metis last_in_set)
      with ss show ?thesis by (auto dest: collision_snoc)
    qed
  qed
qed simp

end

end
