(* ===== verification/TransferChain.thy ===== *)
theory TransferChain
  imports Json Signatures HashChain
begin

text \<open>
  \<open>digital_token/transfer_chain.py\<close>: the record of one transfer, its two serialised forms
  (the payload that is signed, and the payload with the signature that the next record hashes),
  creation and verification. Fresh identifiers and the clock are arguments: a \<open>stamp\<close> holds the
  UUID and the ISO timestamp one call draws.
\<close>

record stamp =
  stamp_uuid :: string
  stamp_now :: string

record transfer_record =
  tr_transfer_id :: string
  tr_token_id :: string
  tr_sender_pk :: string
  tr_receiver_pk :: string
  tr_nonce :: int
  tr_parent_transfer_id :: "string option"
  tr_prev_transfer_hash :: "string option"
  tr_timestamp :: string
  tr_signature :: string

section \<open>Serialised forms\<close>

definition tr_signing_dict :: "transfer_record \<Rightarrow> (string, json) dict" where
  "tr_signing_dict r =
     [(''transfer_id'', JStr (tr_transfer_id r)),
      (''token_id'', JStr (tr_token_id r)),
      (''sender_pk'', JStr (tr_sender_pk r)),
      (''receiver_pk'', JStr (tr_receiver_pk r)),
      (''nonce'', JInt (tr_nonce r)),
      (''parent_transfer_id'', opt_str_json (tr_parent_transfer_id r)),
      (''prev_transfer_hash'', opt_str_json (tr_prev_transfer_hash r)),
      (''timestamp'', JStr (tr_timestamp r))]"

definition tr_signing_payload :: "transfer_record \<Rightarrow> bytes" where
  "tr_signing_payload r = utf8_encode (dumps (JObj (tr_signing_dict r)))"

definition tr_to_dict :: "transfer_record \<Rightarrow> (string, json) dict" where
  "tr_to_dict r = AList.update ''signature'' (JStr (tr_signature r)) (tr_signing_dict r)"

definition tr_payload_bytes :: "transfer_record \<Rightarrow> bytes" where
  "tr_payload_bytes r = utf8_encode (dumps (JObj (tr_to_dict r)))"

section \<open>Creation and verification\<close>

definition tr_create ::
  "ed25519 \<Rightarrow> stamp \<Rightarrow> string \<Rightarrow> string \<Rightarrow> string \<Rightarrow> string \<Rightarrow> int \<Rightarrow> transfer_record option \<Rightarrow>
     transfer_record res" where
  "tr_create C st token_id sender_sk sender_pk receiver_pk nonce previous_transfer =
     (let (parent_transfer_id, prev_hash) =
            (case previous_transfer of
               None \<Rightarrow> (None, None)
             | Some p \<Rightarrow> (Some (tr_transfer_id p), Some (sha256_hex (tr_payload_bytes p))));
          transfer = \<lparr>tr_transfer_id = stamp_uuid st, tr_token_id = token_id,
            tr_sender_pk = sender_pk, tr_receiver_pk = receiver_pk, tr_nonce = nonce,
            tr_parent_transfer_id = parent_transfer_id, tr_prev_transfer_hash = prev_hash,
            tr_timestamp = stamp_now st, tr_signature = []\<rparr>
      in bind_res (sign_message C sender_sk (tr_signing_payload transfer))
           (\<lambda>signature. Inr (transfer\<lparr>tr_signature := signature\<rparr>)))"

definition tr_verify :: "ed25519 \<Rightarrow> transfer_record \<Rightarrow> bool" where
  "tr_verify C r = verify_signature C (tr_sender_pk r) (tr_signing_payload r) (tr_signature r)"

section \<open>What the payloads bind\<close>

lemma tr_signing_dict_wf: "json_wf (JObj (tr_signing_dict r))"
  by (simp add: tr_signing_dict_def)

lemma tr_to_dict_eq: "tr_to_dict r = tr_signing_dict r @ [(''signature'', JStr (tr_signature r))]"
  by (simp add: tr_to_dict_def tr_signing_dict_def)

lemma tr_to_dict_wf: "json_wf (JObj (tr_to_dict r))"
  by (simp add: tr_to_dict_eq tr_signing_dict_def)

lemma tr_signing_dict_inject:
  "tr_signing_dict r = tr_signing_dict s \<longleftrightarrow> r\<lparr>tr_signature := []\<rparr> = s\<lparr>tr_signature := []\<rparr>"
  by (cases r; cases s) (auto simp: tr_signing_dict_def)

lemma tr_to_dict_inject: "tr_to_dict r = tr_to_dict s \<longleftrightarrow> r = s"
  by (cases r; cases s) (auto simp: tr_to_dict_eq tr_signing_dict_def)

lemma tr_signing_payload_eq_iff:
  "tr_signing_payload r = tr_signing_payload s \<longleftrightarrow>
     r\<lparr>tr_signature := []\<rparr> = s\<lparr>tr_signature := []\<rparr>"
  unfolding tr_signing_payload_def utf8_encode_inject dumps_inject [OF tr_signing_dict_wf tr_signing_dict_wf]
    json.inject tr_signing_dict_inject ..

lemma tr_payload_bytes_eq_iff: "tr_payload_bytes r = tr_payload_bytes s \<longleftrightarrow> r = s"
  unfolding tr_payload_bytes_def utf8_encode_inject dumps_inject [OF tr_to_dict_wf tr_to_dict_wf]
    json.inject tr_to_dict_inject ..

lemma tr_signing_payload_signature [simp]:
  "tr_signing_payload (r\<lparr>tr_signature := s\<rparr>) = tr_signing_payload r"
  by (simp add: tr_signing_payload_def tr_signing_dict_def)

section \<open>Links\<close>

text \<open>
  The hash link of the records: the genesis value is \<open>None\<close>, the digest of a record the hash of
  its whole payload.
\<close>

definition tr_digest :: "transfer_record \<Rightarrow> string option" where
  "tr_digest r = Some (sha256_hex (tr_payload_bytes r))"

interpretation tr_chain: hash_chain None tr_prev_transfer_hash tr_digest tr_payload_bytes "\<lambda>r. r" "\<lambda>_. True"
  by unfold_locales (auto simp: tr_payload_bytes_eq_iff tr_digest_def sha256_hex_eq_iff)

lemma tr_create_fields:
  assumes "tr_create C st tid sk spk rpk n prev = Inr r"
  shows "tr_transfer_id r = stamp_uuid st" "tr_token_id r = tid" "tr_sender_pk r = spk"
    "tr_receiver_pk r = rpk" "tr_nonce r = n" "tr_timestamp r = stamp_now st"
    "tr_parent_transfer_id r = map_option tr_transfer_id prev"
    "tr_prev_transfer_hash r = (case prev of None \<Rightarrow> None | Some p \<Rightarrow> tr_digest p)"
  using assms by (auto simp: tr_create_def bind_res_Inr_iff tr_digest_def split: option.splits)

lemma tr_create_verifies:
  assumes "ed_ok C" and "b64_keypair C sk spk" and "tr_create C st tid sk spk rpk n prev = Inr r"
  shows "tr_verify C r"
proof -
  from assms(3) obtain t s where s: "sign_message C sk (tr_signing_payload t) = Inr s"
    and r: "r = t\<lparr>tr_signature := s\<rparr>" and "tr_sender_pk t = spk"
    by (auto simp: tr_create_def bind_res_Inr_iff Let_def split: prod.splits)
  moreover from b64sig.signed_valid [OF assms(1,2) s]
  have "verify_signature C spk (tr_signing_payload t) s" .
  ultimately show ?thesis by (simp add: tr_verify_def)
qed

lemma tr_create_returns:
  assumes "ed_ok C" and "b64_keypair C sk spk"
  shows "\<exists>r. tr_create C st tid sk spk rpk n prev = Inr r"
proof -
  have "\<exists>s. sign_message C sk m = Inr s" for m
    using b64sig.sign_returns [OF assms, of m] by (simp add: is_ok_iff)
  then show ?thesis
    by (auto simp: tr_create_def bind_res_Inr_iff Let_def split: prod.splits)
qed

end
