(* ===== verification/TokenModel.thy ===== *)
theory TokenModel
  imports TransferChain
begin

text \<open>
  \<open>digital_token/token_model.py\<close>: the bearer token of the canonical stack, with its attribute
  lock, the issuer's payload, the transfer that hands it on, its JSON form and the validation of
  its whole history. \<open>mint\<close> is the issuance of \<open>scripts/run_demo.py\<close>, the only code of the
  repository that issues a canonical token. The lemmas say that validation means what the
  declarative description of a custody chain says, that a transfer by the owner keeps a token
  valid, that the tip of a chain seals its history, and what signatures bind.
\<close>

record token =
  tk_token_id :: string
  tk_value :: int
  tk_issuer_pk :: string
  tk_owner_pk :: string
  tk_expiry :: string
  tk_issuer_signature :: string
  tk_transfer_chain :: "transfer_record list"

section \<open>Attribute assignment\<close>

text \<open>
  \<open>__setattr__\<close> on a constructed token: identifier and value are locked. The aliases
  \<open>current_owner_pk\<close> and \<open>issuer_sig\<close> write the fields they alias.
\<close>

datatype token_attr =
    Attr_token_id string
  | Attr_value int
  | Attr_issuer_pk string
  | Attr_owner_pk string
  | Attr_current_owner_pk string
  | Attr_expiry string
  | Attr_issuer_signature string
  | Attr_issuer_sig string
  | Attr_transfer_chain "transfer_record list"

fun token_setattr :: "token_attr \<Rightarrow> token \<Rightarrow> token res" where
  "token_setattr (Attr_token_id v) t =
     (if tk_token_id t \<noteq> v then Inl (AttributeError ''token_id is immutable'')
      else Inr (t\<lparr>tk_token_id := v\<rparr>))"
| "token_setattr (Attr_value v) t =
     (if tk_value t \<noteq> v then Inl (AttributeError ''value is immutable'')
      else Inr (t\<lparr>tk_value := v\<rparr>))"
| "token_setattr (Attr_issuer_pk v) t = Inr (t\<lparr>tk_issuer_pk := v\<rparr>)"
| "token_setattr (Attr_owner_pk v) t = Inr (t\<lparr>tk_owner_pk := v\<rparr>)"
| "token_setattr (Attr_current_owner_pk v) t = Inr (t\<lparr>tk_owner_pk := v\<rparr>)"
| "token_setattr (Attr_expiry v) t = Inr (t\<lparr>tk_expiry := v\<rparr>)"
| "token_setattr (Attr_issuer_signature v) t = Inr (t\<lparr>tk_issuer_signature := v\<rparr>)"
| "token_setattr (Attr_issuer_sig v) t = Inr (t\<lparr>tk_issuer_signature := v\<rparr>)"
| "token_setattr (Attr_transfer_chain v) t = Inr (t\<lparr>tk_transfer_chain := v\<rparr>)"

section \<open>Issuance\<close>

definition issuance_dict :: "token \<Rightarrow> (string, json) dict" where
  "issuance_dict t =
     [(''token_id'', JStr (tk_token_id t)),
      (''value'', JInt (tk_value t)),
      (''issuer_pk'', JStr (tk_issuer_pk t)),
      (''owner_pk'', JStr (tk_owner_pk t)),
      (''expiry'', JStr (tk_expiry t))]"

definition issuance_payload :: "token \<Rightarrow> bytes" where
  "issuance_payload t = utf8_encode (dumps_sorted (JObj (issuance_dict t)))"

definition mint ::
  "ed25519 \<Rightarrow> string \<Rightarrow> string \<Rightarrow> string \<Rightarrow> string \<Rightarrow> int \<Rightarrow> token res" where
  "mint C issuer_sk issuer_pk owner_pk token_id val =
     (let token = \<lparr>tk_token_id = token_id, tk_value = val, tk_issuer_pk = issuer_pk,
            tk_owner_pk = owner_pk, tk_expiry = ''2030-01-01T00:00:00+00:00'',
            tk_issuer_signature = [], tk_transfer_chain = []\<rparr>
      in bind_res (sign_message C issuer_sk (issuance_payload token))
           (\<lambda>s. token_setattr (Attr_issuer_signature s) token))"

section \<open>Transfer\<close>

definition append_transfer ::
  "ed25519 \<Rightarrow> stamp \<Rightarrow> string \<Rightarrow> string \<Rightarrow> token \<Rightarrow> (transfer_record \<times> token) res" where
  "append_transfer C st sender_sk receiver_pk t =
     (let sender_pk = tk_owner_pk t;
          prev_transfer =
            (if tk_transfer_chain t \<noteq> [] then Some (last (tk_transfer_chain t)) else None);
          nonce = (case prev_transfer of None \<Rightarrow> 1 | Some p \<Rightarrow> tr_nonce p + 1)
      in bind_res (tr_create C st (tk_token_id t) sender_sk sender_pk receiver_pk nonce prev_transfer)
           (\<lambda>transfer. Inr (transfer,
              t\<lparr>tk_transfer_chain := tk_transfer_chain t @ [transfer], tk_owner_pk := receiver_pk\<rparr>)))"

section \<open>JSON form\<close>

definition token_to_ordered_dict :: "token \<Rightarrow> (string, json) dict" where
  "token_to_ordered_dict t =
     [(''token_id'', JStr (tk_token_id t)),
      (''value'', JInt (tk_value t)),
      (''issuer_pk'', JStr (tk_issuer_pk t)),
      (''owner_pk'', JStr (tk_owner_pk t)),
      (''expiry'', JStr (tk_expiry t)),
      (''issuer_signature'', JStr (tk_issuer_signature t)),
      (''transfer_chain'', JList (map (\<lambda>r. JObj (tr_to_dict r)) (tk_transfer_chain t)))]"

definition token_to_json :: "token \<Rightarrow> string" where
  "token_to_json t = dumps (JObj (token_to_ordered_dict t))"

section \<open>Validation\<close>

text \<open>
  The loop over the chain: \<open>None\<close> is \<open>return False\<close> inside the loop, \<open>Some owner\<close> the
  owner after its last round.
\<close>

fun validate_loop ::
  "ed25519 \<Rightarrow> string \<Rightarrow> transfer_record list \<Rightarrow> string \<Rightarrow> transfer_record option \<Rightarrow> int \<Rightarrow>
     string option" where
  "validate_loop C token_id [] owner_pk previous_transfer expected_nonce = Some owner_pk"
| "validate_loop C token_id (transfer # rest) owner_pk previous_transfer expected_nonce =
     (if tr_token_id transfer \<noteq> token_id then None
      else if \<not> tr_verify C transfer then None
      else if tr_sender_pk transfer \<noteq> owner_pk then None
      else if tr_nonce transfer \<noteq> expected_nonce then None
      else if (case previous_transfer of
                 None \<Rightarrow> tr_parent_transfer_id transfer \<noteq> None \<or>
                         tr_prev_transfer_hash transfer \<noteq> None
               | Some p \<Rightarrow>
                   tr_parent_transfer_id transfer \<noteq> Some (tr_transfer_id p) \<or>
                   tr_prev_transfer_hash transfer \<noteq> Some (sha256_hex (tr_payload_bytes p)))
      then None
      else validate_loop C token_id rest (tr_receiver_pk transfer) (Some transfer)
             (expected_nonce + 1))"

definition validate_chain :: "ed25519 \<Rightarrow> string \<Rightarrow> token \<Rightarrow> bool" where
  "validate_chain C issuer_pk t =
     (if issuer_pk \<noteq> tk_issuer_pk t then False
      else
        let issued_owner_pk =
              (if tk_transfer_chain t \<noteq> [] then tr_sender_pk (hd (tk_transfer_chain t))
               else tk_owner_pk t);
            issued_payload = issuance_payload (t\<lparr>tk_owner_pk := issued_owner_pk\<rparr>)
        in if \<not> verify_signature C (tk_issuer_pk t) issued_payload (tk_issuer_signature t) then False
           else if tk_transfer_chain t = [] then True
           else (case validate_loop C (tk_token_id t) (tk_transfer_chain t)
                        (tr_sender_pk (hd (tk_transfer_chain t))) None 1 of
                   None \<Rightarrow> False
                 | Some owner_pk \<Rightarrow> owner_pk = tk_owner_pk t))"

section \<open>The declarative reading of a chain\<close>

text \<open>
  One record in its place: it is about the token, signed by the owner of the moment, numbered by
  its position and linked to its predecessor.
\<close>

definition hop_ok ::
  "ed25519 \<Rightarrow> string \<Rightarrow> string \<Rightarrow> transfer_record option \<Rightarrow> int \<Rightarrow> transfer_record \<Rightarrow> bool" where
  "hop_ok C token_id owner prev n r \<longleftrightarrow>
     tr_token_id r = token_id \<and> tr_verify C r \<and> tr_sender_pk r = owner \<and> tr_nonce r = n \<and>
     tr_parent_transfer_id r = map_option tr_transfer_id prev \<and>
     tr_prev_transfer_hash r = (case prev of None \<Rightarrow> None | Some p \<Rightarrow> tr_digest p)"

definition chain_ok ::
  "ed25519 \<Rightarrow> string \<Rightarrow> string \<Rightarrow> transfer_record option \<Rightarrow> int \<Rightarrow> transfer_record list \<Rightarrow> bool" where
  "chain_ok C token_id owner prev n rs \<longleftrightarrow>
     (\<forall>i < length rs.
        hop_ok C token_id (if i = 0 then owner else tr_receiver_pk (rs ! (i - 1)))
          (if i = 0 then prev else Some (rs ! (i - 1))) (n + int i) (rs ! i))"

text \<open>The owner a token had when it was issued.\<close>

definition issued_owner :: "token \<Rightarrow> string" where
  "issued_owner t =
     (if tk_transfer_chain t = [] then tk_owner_pk t else tr_sender_pk (hd (tk_transfer_chain t)))"

lemma chain_ok_Nil [simp]: "chain_ok C tid owner prev n []"
  by (simp add: chain_ok_def)

lemma chain_ok_Cons:
  "chain_ok C tid owner prev n (r # rs) \<longleftrightarrow>
     hop_ok C tid owner prev n r \<and> chain_ok C tid (tr_receiver_pk r) (Some r) (n + 1) rs"
  unfolding chain_ok_def length_Cons All_less_Suc2
  by (simp add: nth_Cons' add.assoc add.commute [of 1] cong: if_cong)

lemma chain_ok_snoc:
  "chain_ok C tid owner prev n (rs @ [r]) \<longleftrightarrow>
     chain_ok C tid owner prev n rs \<and>
     hop_ok C tid (if rs = [] then owner else tr_receiver_pk (last rs))
       (if rs = [] then prev else Some (last rs)) (n + int (length rs)) r"
  by (induction rs arbitrary: owner prev n) (auto simp: chain_ok_Cons algebra_simps)

lemma validate_loop_eq:
  "validate_loop C tid rs owner prev n =
     (if chain_ok C tid owner prev n rs
      then Some (if rs = [] then owner else tr_receiver_pk (last rs)) else None)"
  by (induction rs arbitrary: owner prev n)
    (auto simp: chain_ok_Cons hop_ok_def tr_digest_def split: option.splits)

lemma validate_chain_eq:
  "validate_chain C issuer_pk t \<longleftrightarrow>
     issuer_pk = tk_issuer_pk t \<and>
     verify_signature C issuer_pk (issuance_payload (t\<lparr>tk_owner_pk := issued_owner t\<rparr>))
       (tk_issuer_signature t) \<and>
     chain_ok C (tk_token_id t) (issued_owner t) None 1 (tk_transfer_chain t) \<and>
     (tk_transfer_chain t \<noteq> [] \<longrightarrow> tk_owner_pk t = tr_receiver_pk (last (tk_transfer_chain t)))"
  by (auto simp: validate_chain_def validate_loop_eq issued_owner_def Let_def)

section \<open>Preservation and binding\<close>

lemma issuance_dict_flat: "list_all (\<lambda>(k, v). json_flat v) (issuance_dict t)"
  and issuance_dict_keys: "map fst (issuance_dict t) = map fst (issuance_dict u)"
  and issuance_dict_wf: "distinct (map fst (issuance_dict t))"
  by (simp_all add: issuance_dict_def)

lemma issuance_payload_eq_iff:
  "issuance_payload t = issuance_payload u \<longleftrightarrow>
     tk_token_id t = tk_token_id u \<and> tk_value t = tk_value u \<and> tk_issuer_pk t = tk_issuer_pk u \<and>
     tk_owner_pk t = tk_owner_pk u \<and> tk_expiry t = tk_expiry u"
proof -
  have "issuance_payload t = issuance_payload u \<longleftrightarrow> issuance_dict t = issuance_dict u"
    unfolding issuance_payload_def utf8_encode_inject
    using dumps_sorted_flat_inject [OF _ issuance_dict_keys issuance_dict_wf issuance_dict_flat
        issuance_dict_flat] by metis
  then show ?thesis by (auto simp: issuance_dict_def)
qed

lemma issuance_payload_updates [simp]:
  "issuance_payload (t\<lparr>tk_issuer_signature := s\<rparr>) = issuance_payload t"
  "issuance_payload (t\<lparr>tk_transfer_chain := rs\<rparr>) = issuance_payload t"
  by (simp_all add: issuance_payload_eq_iff)

lemma chain_ok_linked:
  "chain_ok C tid owner prev n rs \<Longrightarrow>
     linked tr_prev_transfer_hash tr_digest (case prev of None \<Rightarrow> None | Some p \<Rightarrow> tr_digest p) rs"
proof (induction rs arbitrary: owner prev n)
  case (Cons r rs)
  then have "hop_ok C tid owner prev n r" and "chain_ok C tid (tr_receiver_pk r) (Some r) (n + 1) rs"
    by (simp_all add: chain_ok_Cons)
  with Cons.IH [of "tr_receiver_pk r" "Some r" "n + 1"] show ?case by (simp add: hop_ok_def)
qed simp

lemma chain_ok_nth:
  "chain_ok C tid owner prev n rs \<Longrightarrow> r \<in> set rs \<Longrightarrow> tr_verify C r \<and> tr_token_id r = tid"
  by (auto simp: chain_ok_def hop_ok_def in_set_conv_nth)

lemma chain_ok_last_nonce:
  "chain_ok C tid owner prev n rs \<Longrightarrow> rs \<noteq> [] \<Longrightarrow> tr_nonce (last rs) = n + int (length rs) - 1"
  by (cases rs rule: rev_cases) (auto simp: chain_ok_snoc hop_ok_def)

lemma append_transfer_Inr:
  assumes "append_transfer C st sk rpk t = Inr (r, t')"
  shows "t' = t\<lparr>tk_transfer_chain := tk_transfer_chain t @ [r], tk_owner_pk := rpk\<rparr>"
    and "tr_create C st (tk_token_id t) sk (tk_owner_pk t) rpk
      (if tk_transfer_chain t = [] then 1 else tr_nonce (last (tk_transfer_chain t)) + 1)
      (if tk_transfer_chain t = [] then None else Some (last (tk_transfer_chain t))) = Inr r"
  using assms by (auto simp: append_transfer_def bind_res_Inr_iff Let_def split: if_splits)

lemma append_transfer_returns:
  assumes "ed_ok C" and "b64_keypair C sk (tk_owner_pk t)"
  shows "\<exists>r t'. append_transfer C st sk rpk t = Inr (r, t')"
  using tr_create_returns [OF assms]
  by (fastforce simp: append_transfer_def bind_res_Inr_iff Let_def split: option.splits)

lemma append_transfer_valid:
  assumes "ed_ok C" and "b64_keypair C sk (tk_owner_pk t)"
    and valid: "validate_chain C ipk t" and app: "append_transfer C st sk rpk t = Inr (r, t')"
  shows "validate_chain C ipk t'"
proof -
  note t' = append_transfer_Inr(1) [OF app] and cr = append_transfer_Inr(2) [OF app]
  note f = tr_create_fields [OF cr] and v = tr_create_verifies [OF assms(1,2) cr]
  let ?rs = "tk_transfer_chain t"
  have io: "issued_owner t' = issued_owner t"
    using f(3) by (cases ?rs) (auto simp: issued_owner_def t')
  have ok: "chain_ok C (tk_token_id t) (issued_owner t) None 1 ?rs"
    and own: "?rs \<noteq> [] \<Longrightarrow> tk_owner_pk t = tr_receiver_pk (last ?rs)"
    using valid by (auto simp: validate_chain_eq)
  have "hop_ok C (tk_token_id t) (if ?rs = [] then issued_owner t else tr_receiver_pk (last ?rs))
      (if ?rs = [] then None else Some (last ?rs)) (1 + int (length ?rs)) r"
    using f v own chain_ok_last_nonce [OF ok]
    by (auto simp: hop_ok_def issued_owner_def)
  with ok have "chain_ok C (tk_token_id t) (issued_owner t) None 1 (?rs @ [r])"
    by (simp add: chain_ok_snoc)
  moreover have "issuance_payload (t'\<lparr>tk_owner_pk := issued_owner t\<rparr>) =
      issuance_payload (t\<lparr>tk_owner_pk := issued_owner t\<rparr>)"
    by (simp add: issuance_payload_eq_iff t')
  ultimately show ?thesis
    using valid io f(4) by (auto simp: validate_chain_eq t')
qed

lemma mint_Inr:
  assumes "mint C isk ipk opk tid v = Inr t"
  shows "tk_token_id t = tid" "tk_value t = v" "tk_issuer_pk t = ipk" "tk_owner_pk t = opk"
    "tk_transfer_chain t = []" "tk_expiry t = ''2030-01-01T00:00:00+00:00''"
    "sign_message C isk (issuance_payload t) = Inr (tk_issuer_signature t)"
  using assms
  by (auto simp: mint_def bind_res_Inr_iff Let_def issuance_payload_def issuance_dict_def)

lemma mint_returns: "ed_ok C \<Longrightarrow> b64_keypair C isk ipk \<Longrightarrow> \<exists>t. mint C isk ipk opk tid v = Inr t"
  using b64sig.sign_returns [of C isk ipk] by (auto simp: mint_def bind_res_Inr_iff Let_def is_ok_iff)

lemma mint_valid:
  assumes "ed_ok C" "b64_keypair C isk ipk" "mint C isk ipk opk tid v = Inr t"
  shows "validate_chain C ipk t"
proof -
  note m = mint_Inr [OF assms(3)]
  have "issuance_payload (t\<lparr>tk_owner_pk := tk_owner_pk t\<rparr>) = issuance_payload t"
    by (simp add: issuance_payload_eq_iff)
  with m b64sig.signed_valid [OF assms(1,2) m(7)] show ?thesis
    by (simp add: validate_chain_eq issued_owner_def)
qed

text \<open>
  The two kinds of signed payload never coincide: the fields of an issuance and those of a
  transfer have different names, so a signature made for one cannot serve as the other.
\<close>

lemma signing_payload_not_issuance: "tr_signing_payload r \<noteq> issuance_payload t"
proof
  assume "tr_signing_payload r = issuance_payload t"
  then have "dumps (JObj (tr_signing_dict r)) = dumps (sort_keys (JObj (issuance_dict t)))"
    by (simp add: tr_signing_payload_def issuance_payload_def utf8_encode_inject dumps_sorted_def)
  moreover have "json_wf (JObj (issuance_dict t))"
    by (simp add: issuance_dict_def)
  ultimately have "JObj (tr_signing_dict r) = sort_keys (JObj (issuance_dict t))"
    using dumps_inject [OF tr_signing_dict_wf] json_wf_sort_keys by blast
  then have "length (tr_signing_dict r) = length (issuance_dict t)" by simp
  then show False by (simp add: tr_signing_dict_def issuance_dict_def)
qed

section \<open>Concrete tokens\<close>

text \<open>
  Keys and tokens for the witnesses: the key with number \<open>k\<close> is the Base64 text of 32 bytes \<open>k\<close>
  (both its private and its public half under the concrete signature instance), and the demo
  token is what the demo issuer, key 1, mints for key \<open>k\<close>.
\<close>

definition demo_key :: "8 word \<Rightarrow> string" where
  "demo_key k = b64encode (replicate 32 k)"

lemma demo_keypair [simp]: "b64_keypair toy_ed25519 (demo_key k) (demo_key k)"
  by (simp add: demo_key_def b64_keypair_def b64_generate_keypair_def)

lemma demo_key_eq_iff [simp]: "demo_key k = demo_key l \<longleftrightarrow> k = l"
  by (auto simp: demo_key_def b64encode_inject)

definition demo_token :: "8 word \<Rightarrow> string \<Rightarrow> int \<Rightarrow> token" where
  "demo_token k tid val =
     (let t = \<lparr>tk_token_id = tid, tk_value = val, tk_issuer_pk = demo_key 1,
            tk_owner_pk = demo_key k, tk_expiry = ''2030-01-01T00:00:00+00:00'',
            tk_issuer_signature = [], tk_transfer_chain = []\<rparr>
      in t\<lparr>tk_issuer_signature := b64encode (replicate 32 1 @ issuance_payload t)\<rparr>)"

lemma demo_token_sel [simp]:
  "tk_token_id (demo_token k tid v) = tid" "tk_value (demo_token k tid v) = v"
  "tk_issuer_pk (demo_token k tid v) = demo_key 1" "tk_owner_pk (demo_token k tid v) = demo_key k"
  "tk_transfer_chain (demo_token k tid v) = []"
  "tk_expiry (demo_token k tid v) = ''2030-01-01T00:00:00+00:00''"
  by (simp_all add: demo_token_def Let_def)

lemma demo_token_signature:
  "tk_issuer_signature (demo_token k tid v) =
     b64encode (replicate 32 1 @ issuance_payload (demo_token k tid v))"
  by (simp add: demo_token_def Let_def issuance_payload_eq_iff)

lemma demo_token_ledger:
  "validate_chain (ledger_ed25519 [issuance_payload (demo_token k tid v)]) (demo_key 1)
     (demo_token k tid v)"
proof -
  let ?t = "demo_token k tid v"
  have "issuance_payload (?t\<lparr>tk_owner_pk := demo_key k\<rparr>) = issuance_payload ?t"
    by (simp add: issuance_payload_eq_iff)
  then show ?thesis
    by (simp add: validate_chain_eq issued_owner_def verify_signature_def demo_token_signature)
      (simp add: demo_key_def)
qed

lemma demo_token_minted:
  "mint toy_ed25519 (demo_key 1) (demo_key 1) (demo_key k) tid v = Inr (demo_token k tid v)"
  by (simp add: mint_def demo_token_def Let_def sign_message_def demo_key_def)

lemma demo_token_valid [simp]: "validate_chain toy_ed25519 (demo_key 1) (demo_token k tid v)"
  using mint_valid [OF toy_ed25519_ok demo_keypair demo_token_minted] .

text \<open>The demo token after its owner \<open>k\<close> has handed it to \<open>l\<close>.\<close>

lemma demo_transfer:
  obtains r t' where
    "append_transfer toy_ed25519 st (demo_key k) (demo_key l) (demo_token k tid v) = Inr (r, t')"
    "validate_chain toy_ed25519 (demo_key 1) t'" "tk_transfer_chain t' = [r]"
    "tk_owner_pk t' = demo_key l" "tk_token_id t' = tid" "tk_value t' = v"
    "tk_issuer_pk t' = demo_key 1" "tr_sender_pk r = demo_key k" "tr_receiver_pk r = demo_key l"
proof -
  have kp: "b64_keypair toy_ed25519 (demo_key k) (tk_owner_pk (demo_token k tid v))" by simp
  obtain r t' where
    app: "append_transfer toy_ed25519 st (demo_key k) (demo_key l) (demo_token k tid v) = Inr (r, t')"
    using append_transfer_returns [OF toy_ed25519_ok kp] by blast
  show ?thesis
    using that [OF app append_transfer_valid [OF toy_ed25519_ok kp demo_token_valid app]]
      append_transfer_Inr [OF app] tr_create_fields [OF append_transfer_Inr(2) [OF app]]
    by simp
qed

section \<open>Properties\<close>

text \<open>The owner of the token after its first \<open>i\<close> transfers.\<close>

definition custodian :: "token \<Rightarrow> nat \<Rightarrow> string" where
  "custodian t i = (if i = 0 then issued_owner t else tr_receiver_pk (tk_transfer_chain t ! (i - 1)))"

lemma validate_chain_custodian:
  "validate_chain C issuer_pk t \<longleftrightarrow>
     issuer_pk = tk_issuer_pk t \<and>
     verify_signature C issuer_pk (issuance_payload (t\<lparr>tk_owner_pk := custodian t 0\<rparr>))
       (tk_issuer_signature t) \<and>
     (\<forall>i < length (tk_transfer_chain t).
        hop_ok C (tk_token_id t) (custodian t i)
          (if i = 0 then None else Some (tk_transfer_chain t ! (i - 1)))
          (1 + int i) (tk_transfer_chain t ! i)) \<and>
     custodian t (length (tk_transfer_chain t)) = tk_owner_pk t"
  by (auto simp: validate_chain_eq chain_ok_def custodian_def last_conv_nth)
    (auto simp: issued_owner_def)

lemma valid_custody:
  assumes "validate_chain C ipk t" and "i < length (tk_transfer_chain t)"
  shows "tr_token_id (tk_transfer_chain t ! i) = tk_token_id t"
    "tr_sender_pk (tk_transfer_chain t ! i) = custodian t i"
    "tr_verify C (tk_transfer_chain t ! i)"
  using assms by (auto simp: validate_chain_custodian hop_ok_def)

text \<open>
  C1: Validation accepts a token exactly when it names the expected issuer, the issuer's
  signature covers its identifier, value, expiry and first owner, and every record of its chain
  is about this token, signed by the owner of the moment, numbered by its position from 1 and
  linked to its predecessor by identifier and by hash, the last receiver being the owner.
\<close>
theorem validate_chain_spec:
  "validate_chain C issuer_pk t \<longleftrightarrow>
     (let rs = tk_transfer_chain t in
      issuer_pk = tk_issuer_pk t \<and>
      verify_signature C issuer_pk (issuance_payload (t\<lparr>tk_owner_pk := custodian t 0\<rparr>))
        (tk_issuer_signature t) \<and>
      (\<forall>i < length rs.
         tr_token_id (rs ! i) = tk_token_id t \<and>
         tr_sender_pk (rs ! i) = custodian t i \<and>
         verify_signature C (custodian t i) (tr_signing_payload (rs ! i)) (tr_signature (rs ! i)) \<and>
         tr_nonce (rs ! i) = int i + 1 \<and>
         tr_parent_transfer_id (rs ! i) = (if i = 0 then None else Some (tr_transfer_id (rs ! (i - 1)))) \<and>
         tr_prev_transfer_hash (rs ! i) =
           (if i = 0 then None else Some (sha256_hex (tr_payload_bytes (rs ! (i - 1)))))) \<and>
      tk_owner_pk t = custodian t (length rs))"
  unfolding validate_chain_custodian Let_def hop_ok_def tr_verify_def
  by (rule iffI; (elim conjE)?; intro conjI; force simp: tr_digest_def)

lemma validate_chain_spec_witness:
  "\<exists>t. length (tk_transfer_chain t) = 1 \<and> validate_chain toy_ed25519 (demo_key 1) t \<and>
     tr_sender_pk (tk_transfer_chain t ! 0) = custodian t 0 \<and>
     tr_nonce (tk_transfer_chain t ! 0) = 1 \<and> tk_owner_pk t = custodian t 1"
proof -
  obtain r t' where "tk_transfer_chain t' = [r]" and v: "validate_chain toy_ed25519 (demo_key 1) t'"
    using demo_transfer [of _ 2 3 "''t1''" 10] by metis
  with v [unfolded validate_chain_spec] show ?thesis by (intro exI [of _ t']) (auto simp: Let_def)
qed

text \<open>
  C13: The owner of a valid token can always hand it on: the transfer returns, the token it
  leaves behind is valid, owned by the receiver and unchanged in everything the issuer signed,
  and its chain is the old one with one record, numbered by its position, at the end.
\<close>
theorem append_transfer_hands_over:
  assumes "ed_ok C" and "b64_keypair C sk (tk_owner_pk t)" and "validate_chain C ipk t"
  shows "\<exists>r t'. append_transfer C st sk rpk t = Inr (r, t') \<and> validate_chain C ipk t' \<and>
    tk_owner_pk t' = rpk \<and> tk_transfer_chain t' = tk_transfer_chain t @ [r] \<and>
    tr_nonce r = int (length (tk_transfer_chain t)) + 1 \<and>
    (tk_token_id t', tk_value t', tk_issuer_pk t', tk_expiry t', tk_issuer_signature t') =
      (tk_token_id t, tk_value t, tk_issuer_pk t, tk_expiry t, tk_issuer_signature t)"
proof -
  obtain r t' where app: "append_transfer C st sk rpk t = Inr (r, t')"
    using append_transfer_returns [OF assms(1,2)] by blast
  have ok: "chain_ok C (tk_token_id t) (issued_owner t) None 1 (tk_transfer_chain t)"
    using assms(3) by (simp add: validate_chain_eq)
  have "tr_nonce r = int (length (tk_transfer_chain t)) + 1"
    using tr_create_fields(5) [OF append_transfer_Inr(2) [OF app]] chain_ok_last_nonce [OF ok] by auto
  with app append_transfer_valid [OF assms app] append_transfer_Inr(1) [OF app] show ?thesis by simp
qed

lemma append_transfer_hands_over_witness:
  "\<exists>r t'. append_transfer toy_ed25519 \<lparr>stamp_uuid = ''id1'', stamp_now = ''now''\<rparr> (demo_key 2) (demo_key 3)
      (demo_token 2 ''t1'' 10) = Inr (r, t') \<and> validate_chain toy_ed25519 (demo_key 1) t' \<and>
    tk_owner_pk t' = demo_key 3"
  using append_transfer_hands_over [of toy_ed25519 "demo_key 2" "demo_token 2 ''t1'' 10" "demo_key 1"
      "\<lparr>stamp_uuid = ''id1'', stamp_now = ''now''\<rparr>" "demo_key 3"]
  by auto

text \<open>
  C14: The last record seals the history: two valid tokens, of whatever issuers, with the same
  last transfer record have the same whole chain, unless two of their records are a SHA-256
  collision.
\<close>
theorem last_transfer_seals_history:
  assumes "validate_chain C ipk t" and "validate_chain C ipk' u"
    and "tk_transfer_chain t \<noteq> []" and "tk_transfer_chain u \<noteq> []"
    and "last (tk_transfer_chain t) = last (tk_transfer_chain u)"
  shows "tk_transfer_chain t = tk_transfer_chain u \<or>
    (\<exists>r \<in> set (tk_transfer_chain t). \<exists>s \<in> set (tk_transfer_chain u).
       tr_payload_bytes r \<noteq> tr_payload_bytes s \<and>
       sha256 (tr_payload_bytes r) = sha256 (tr_payload_bytes s))"
proof -
  have "linked tr_prev_transfer_hash tr_digest None (tk_transfer_chain t)"
    "linked tr_prev_transfer_hash tr_digest None (tk_transfer_chain u)"
    using assms(1,2) by (auto simp: validate_chain_eq dest: chain_ok_linked)
  from tr_chain.last_determines_chain [OF this assms(3-5)] show ?thesis
    by (auto simp: collision_def tr_digest_def)
qed

lemma last_transfer_seals_history_witness:
  "\<exists>t. tk_transfer_chain t \<noteq> [] \<and> validate_chain toy_ed25519 (demo_key 1) t \<and>
    (tk_transfer_chain t = tk_transfer_chain t \<or>
      (\<exists>r \<in> set (tk_transfer_chain t). \<exists>s \<in> set (tk_transfer_chain t).
         tr_payload_bytes r \<noteq> tr_payload_bytes s \<and>
         sha256 (tr_payload_bytes r) = sha256 (tr_payload_bytes s)))"
proof -
  obtain r t' where ne: "tk_transfer_chain t' \<noteq> []" and v: "validate_chain toy_ed25519 (demo_key 1) t'"
    using demo_transfer [of _ 2 3 "''t1''" 10] by (metis list.discI)
  with last_transfer_seals_history [OF v v ne ne refl] show ?thesis by blast
qed

text \<open>
  C15: An issuer that has signed nothing but the issuance payloads of the tokens in \<open>T\<close> is never
  charged with more: every token that validates under its key has the identifier, the value, the
  expiry and the first owner of a token of \<open>T\<close>.
\<close>
theorem validated_token_was_issued:
  assumes "\<And>m s. verify_signature C ipk m s \<Longrightarrow> m \<in> issuance_payload ` T"
    and "validate_chain C ipk t"
  shows "\<exists>u \<in> T. tk_token_id t = tk_token_id u \<and> tk_value t = tk_value u \<and>
    tk_expiry t = tk_expiry u \<and> tk_issuer_pk u = ipk \<and> custodian t 0 = tk_owner_pk u"
proof -
  from assms(2) have "verify_signature C ipk (issuance_payload (t\<lparr>tk_owner_pk := custodian t 0\<rparr>))
      (tk_issuer_signature t)" and ipk: "ipk = tk_issuer_pk t"
    by (auto simp: validate_chain_custodian)
  from assms(1) [OF this(1)] obtain u where "u \<in> T"
    "issuance_payload (t\<lparr>tk_owner_pk := custodian t 0\<rparr>) = issuance_payload u" by blast
  with ipk show ?thesis by (intro bexI [of _ u]) (simp_all add: issuance_payload_eq_iff)
qed

lemma validated_token_was_issued_witness:
  "\<exists>C t. validate_chain C (demo_key 1) t \<and>
    (\<exists>u \<in> {demo_token 2 ''t1'' 10}. tk_value t = tk_value u \<and> custodian t 0 = tk_owner_pk u)"
proof -
  let ?t = "demo_token 2 ''t1'' 10"
  let ?C = "ledger_ed25519 [issuance_payload ?t]"
  have v: "validate_chain ?C (demo_key 1) ?t" by (rule demo_token_ledger)
  have "verify_signature ?C (demo_key 1) m s \<Longrightarrow> m \<in> issuance_payload ` {?t}" for m s
    using verify_ledger by fastforce
  then have "\<exists>u \<in> {?t}. tk_token_id ?t = tk_token_id u \<and> tk_value ?t = tk_value u \<and>
      tk_expiry ?t = tk_expiry u \<and> tk_issuer_pk u = demo_key 1 \<and> custodian ?t 0 = tk_owner_pk u"
    by (rule validated_token_was_issued [OF _ v])
  with v show ?thesis by blast
qed

text \<open>
  Custody: a valid token cannot have left an owner who has signed no transfer of it. If
  \<open>pk\<close> owned the token after its first \<open>i\<close> transfers and no transfer record of this token
  verifies under \<open>pk\<close>, there has been no further transfer and \<open>pk\<close> is still the owner.
\<close>
theorem unsigned_owner_keeps_custody:
  assumes "validate_chain C ipk t"
    and "i \<le> length (tk_transfer_chain t)" and "custodian t i = pk"
    and "\<And>r. tr_token_id r = tk_token_id t \<Longrightarrow> tr_sender_pk r = pk \<Longrightarrow>
           \<not> verify_signature C pk (tr_signing_payload r) (tr_signature r)"
  shows "i = length (tk_transfer_chain t) \<and> tk_owner_pk t = pk"
proof (cases "i = length (tk_transfer_chain t)")
  case True
  with assms(1,3) show ?thesis by (auto simp: validate_chain_custodian)
next
  case False
  with assms(2) have "i < length (tk_transfer_chain t)" by simp
  from valid_custody [OF assms(1) this] assms(3,4) show ?thesis
    by (auto simp: tr_verify_def)
qed

lemma unsigned_owner_keeps_custody_witness:
  "\<exists>C t. validate_chain C (demo_key 1) t \<and> custodian t 0 = demo_key 2 \<and>
     0 = length (tk_transfer_chain t) \<and> tk_owner_pk t = demo_key 2"
proof -
  let ?t = "demo_token 2 ''t1'' 10"
  let ?C = "ledger_ed25519 [issuance_payload ?t]"
  have v: "validate_chain ?C (demo_key 1) ?t" by (rule demo_token_ledger)
  have c: "custodian ?t 0 = demo_key 2" by (simp add: custodian_def issued_owner_def)
  have "\<not> verify_signature ?C (demo_key 2) (tr_signing_payload r) (tr_signature r)" for r
    using verify_ledger signing_payload_not_issuance by fastforce
  with unsigned_owner_keeps_custody [OF v _ c] v c show ?thesis by (intro exI) auto
qed

end
