(* ===== verification/CashWallet.thy ===== *)
theory CashWallet
  imports TokenModel
begin

text \<open>
  \<open>wallet/wallet.py\<close>: the wallet of the canonical stack with its two registers, unspent (UTR) and
  spent (STR) tokens, the key store, the deserialisation of tokens and the search for an exact
  subset. Operations that change the wallet take and return it; those that can raise after a
  change return the changed wallet beside the error. The second half proves the round trip of
  a token through its JSON text, the optimality of the subset search, what selection and sending
  do to the registers, and the invariant of a wallet.
\<close>

section \<open>State\<close>

type_synonym key_store = "(string, string) dict"

definition add_keypair :: "string \<Rightarrow> string \<Rightarrow> key_store \<Rightarrow> key_store" where
  "add_keypair private_key public_key keys = AList.update public_key private_key keys"

definition get_private_key :: "key_store \<Rightarrow> string \<Rightarrow> string res" where
  "get_private_key keys public_key = of_option (KeyError public_key) (map_of keys public_key)"

record cash_wallet =
  cw_owner_pk :: string
  cw_keystore :: key_store
  cw_utr :: "(string, token) dict"
  cw_str :: "(string, token) dict"

definition new_wallet :: "string \<Rightarrow> key_store \<Rightarrow> cash_wallet" where
  "new_wallet owner_pk keystore =
     \<lparr>cw_owner_pk = owner_pk, cw_keystore = keystore, cw_utr = [], cw_str = []\<rparr>"

section \<open>Deserialisation\<close>

text \<open>\<open>data.get(k)\<close> and \<open>data.get(k, default)\<close>.\<close>

definition json_get :: "string \<Rightarrow> json \<Rightarrow> (string, json) dict \<Rightarrow> json" where
  "json_get k dflt d = (case map_of d k of None \<Rightarrow> dflt | Some v \<Rightarrow> v)"

definition record_from_json :: "nat \<Rightarrow> json \<Rightarrow> transfer_record res" where
  "record_from_json index j =
     bind_res (json_obj j) (\<lambda>record.
     bind_res (bind_res (json_field ''transfer_id'' record) json_str) (\<lambda>transfer_id.
     bind_res (bind_res (json_field ''token_id'' record) json_str) (\<lambda>token_id.
     bind_res (bind_res (json_field ''sender_pk'' record) json_str) (\<lambda>sender_pk.
     bind_res (bind_res (json_field ''receiver_pk'' record) json_str) (\<lambda>receiver_pk.
     bind_res (json_int (json_get ''nonce'' (JInt (int index + 1)) record)) (\<lambda>nonce.
     bind_res (json_opt_str (json_get ''parent_transfer_id'' JNull record)) (\<lambda>parent.
     bind_res (json_opt_str (json_get ''prev_transfer_hash'' JNull record)) (\<lambda>prev_hash.
     bind_res (bind_res (json_field ''timestamp'' record) json_str) (\<lambda>timestamp.
     bind_res (bind_res (json_field ''signature'' record) json_str) (\<lambda>signature.
     Inr \<lparr>tr_transfer_id = transfer_id, tr_token_id = token_id, tr_sender_pk = sender_pk,
       tr_receiver_pk = receiver_pk, tr_nonce = nonce, tr_parent_transfer_id = parent,
       tr_prev_transfer_hash = prev_hash, tr_timestamp = timestamp,
       tr_signature = signature\<rparr>))))))))))"

definition token_from_payload :: "string \<Rightarrow> token res" where
  "token_from_payload payload =
     bind_res (bind_res (parse_json payload) json_obj) (\<lambda>data.
     bind_res (json_iter (json_get ''transfer_chain'' (JList []) data)) (\<lambda>records.
     bind_res (map_res (\<lambda>(index, record). record_from_json index record)
         (enumerate 0 records)) (\<lambda>transfer_chain.
     bind_res (bind_res (json_field ''token_id'' data) json_str) (\<lambda>token_id.
     bind_res (bind_res (json_field ''value'' data) json_int) (\<lambda>val.
     bind_res (bind_res (json_field ''issuer_pk'' data) json_str) (\<lambda>issuer_pk.
     bind_res (json_str (json_get ''owner_pk'' (json_get ''current_owner_pk'' JNull data) data))
       (\<lambda>owner_pk.
     bind_res (bind_res (json_field ''expiry'' data) json_str) (\<lambda>expiry.
     bind_res (json_str (json_get ''issuer_signature''
         (json_get ''issuer_sig'' (JStr []) data) data)) (\<lambda>issuer_signature.
     Inr \<lparr>tk_token_id = token_id, tk_value = val, tk_issuer_pk = issuer_pk,
       tk_owner_pk = owner_pk, tk_expiry = expiry, tk_issuer_signature = issuer_signature,
       tk_transfer_chain = transfer_chain\<rparr>)))))))))"

section \<open>Selection\<close>

text \<open>
  The nested \<open>search\<close> of \<open>_find_exact_token_subset\<close>: \<open>rest\<close> is \<open>tokens[index:]\<close>, and the
  variable \<open>best\<close> of the enclosing function is threaded through.
\<close>

fun exact_search ::
  "int \<Rightarrow> token list \<Rightarrow> token list \<Rightarrow> int \<Rightarrow> token list option \<Rightarrow> token list option" where
  "exact_search amount [] selected tot best =
     (if tot = amount then
        (if best = None \<or> length selected < length (the best) then Some selected else best)
      else best)"
| "exact_search amount (t # rest) selected tot best =
     (if tot = amount then
        (if best = None \<or> length selected < length (the best) then Some selected else best)
      else if amount < tot then best
      else if best \<noteq> None \<and> length (the best) \<le> length selected then best
      else
        let best' = exact_search amount rest (selected @ [t]) (tot + tk_value t) best
        in exact_search amount rest selected tot best')"

definition find_exact_token_subset :: "token list \<Rightarrow> int \<Rightarrow> token list option" where
  "find_exact_token_subset tokens amount = exact_search amount tokens [] 0 None"

definition select_tokens :: "cash_wallet \<Rightarrow> int \<Rightarrow> token list res" where
  "select_tokens w amount =
     (if amount < 0 then Inl (ValueError ''amount must be non-negative'')
      else if amount = 0 then Inr []
      else
        let tokens = sort_key tk_value (map snd (cw_utr w))
        in case find_exact_token_subset tokens amount of
             Some exact \<Rightarrow> Inr exact
           | None \<Rightarrow>
               (case greedy_loop tk_value amount [] 0 tokens of
                  Some selected \<Rightarrow> Inr selected
                | None \<Rightarrow> Inl (ValueError ''insufficient funds'')))"

section \<open>Operations\<close>

definition add_token :: "ed25519 \<Rightarrow> token \<Rightarrow> cash_wallet \<Rightarrow> cash_wallet res" where
  "add_token C t w =
     (if tk_owner_pk t \<noteq> cw_owner_pk w
      then Inl (ValueError ''token is not owned by this wallet'')
      else if \<not> validate_chain C (tk_issuer_pk t) t
      then Inl (ValueError ''invalid token transfer chain'')
      else Inr (w\<lparr>cw_utr := AList.update (tk_token_id t) t (cw_utr w)\<rparr>))"

text \<open>
  The loop of \<open>send_tokens\<close>. The stamp of round \<open>i\<close> is \<open>st i\<close>. A failing signature leaves the
  token in neither register.
\<close>

fun send_loop ::
  "ed25519 \<Rightarrow> (nat \<Rightarrow> stamp) \<Rightarrow> string \<Rightarrow> string \<Rightarrow> nat \<Rightarrow> token list \<Rightarrow> cash_wallet \<Rightarrow>
     string list res \<times> cash_wallet" where
  "send_loop C st sender_sk receiver_pk i [] w = (Inr [], w)"
| "send_loop C st sender_sk receiver_pk i (t # ts) w =
     (case map_of (cw_utr w) (tk_token_id t) of
        None \<Rightarrow> (Inl (ValueError ''token unavailable''), w)
      | Some local_token \<Rightarrow>
          let w1 = w\<lparr>cw_utr := AList.delete (tk_token_id t) (cw_utr w)\<rparr>
          in case append_transfer C (st i) sender_sk receiver_pk local_token of
               Inl e \<Rightarrow> (Inl e, w1)
             | Inr (_, sent) \<Rightarrow>
                 let w2 = w1\<lparr>cw_str := AList.update (tk_token_id sent) sent (cw_str w1)\<rparr>;
                     (r, w3) = send_loop C st sender_sk receiver_pk (i + 1) ts w2
                 in (map_sum (\<lambda>e. e) (\<lambda>ps. token_to_json sent # ps) r, w3))"

definition send_tokens ::
  "ed25519 \<Rightarrow> (nat \<Rightarrow> stamp) \<Rightarrow> string \<Rightarrow> token list \<Rightarrow> cash_wallet \<Rightarrow>
     string list res \<times> cash_wallet" where
  "send_tokens C st receiver_pk tokens w =
     (case get_private_key (cw_keystore w) (cw_owner_pk w) of
        Inl e \<Rightarrow> (Inl e, w)
      | Inr sender_sk \<Rightarrow> send_loop C st sender_sk receiver_pk 0 tokens w)"

definition send_token ::
  "ed25519 \<Rightarrow> (nat \<Rightarrow> stamp) \<Rightarrow> string \<Rightarrow> cash_wallet \<Rightarrow> string res \<times> cash_wallet" where
  "send_token C st receiver_pk w =
     (case sort (map fst (cw_utr w)) of
        [] \<Rightarrow> (Inl (ValueError ''no tokens available to send''), w)
      | token_id # _ \<Rightarrow>
          (case map_of (cw_utr w) token_id of
             None \<Rightarrow> (Inl (KeyError token_id), w)
           | Some t \<Rightarrow>
               let (r, w') = send_tokens C st receiver_pk [t] w
               in (bind_res r (\<lambda>ps. case ps of [] \<Rightarrow> Inl IndexError | p # _ \<Rightarrow> Inr p), w')))"

definition initiate_payment ::
  "ed25519 \<Rightarrow> (nat \<Rightarrow> stamp) \<Rightarrow> int \<Rightarrow> string \<Rightarrow> cash_wallet \<Rightarrow>
     string list res \<times> cash_wallet" where
  "initiate_payment C st price receiver_pk w =
     (case select_tokens w price of
        Inl e \<Rightarrow> (Inl e, w)
      | Inr tokens \<Rightarrow> send_tokens C st receiver_pk tokens w)"

definition process_payment :: "token list \<Rightarrow> int \<Rightarrow> cash_wallet \<Rightarrow> token list res" where
  "process_payment tokens price w =
     (let tot = sum_list (map tk_value tokens)
      in if tot < price then Inl (ValueError ''reject_payment: total paid less than price'')
         else let change = tot - price in select_tokens w change)"

definition receive_token :: "ed25519 \<Rightarrow> string \<Rightarrow> cash_wallet \<Rightarrow> bool \<times> cash_wallet" where
  "receive_token C payload w =
     (let utr_before = cw_utr w; str_before = cw_str w;
          body = bind_res (token_from_payload payload) (\<lambda>t.
            if tk_owner_pk t \<noteq> cw_owner_pk w
            then Inl (ValueError ''token receiver does not match wallet owner'')
            else if \<not> validate_chain C (tk_issuer_pk t) t
            then Inl (ValueError ''invalid token transfer chain'')
            else if map_of (cw_str w) (tk_token_id t) \<noteq> None
            then Inl (ValueError ''token already spent by this wallet'')
            else Inr (w\<lparr>cw_utr := AList.update (tk_token_id t) t (cw_utr w)\<rparr>))
      in case body of
           Inr w' \<Rightarrow> (True, w')
         | Inl _ \<Rightarrow> (False, w\<lparr>cw_utr := utr_before, cw_str := str_before\<rparr>))"

definition wallet_sync :: "string list \<Rightarrow> cash_wallet \<Rightarrow> cash_wallet" where
  "wallet_sync settled_token_ids w =
     w\<lparr>cw_str := fold AList.delete settled_token_ids (cw_str w)\<rparr>"

section \<open>Round trip\<close>

lemma tr_to_dict_lookup:
  "json_obj (JObj (tr_to_dict r)) = Inr (tr_to_dict r)"
  "record_from_json i (JObj (tr_to_dict r)) = Inr r"
  by (simp_all add: record_from_json_def tr_to_dict_def tr_signing_dict_def json_field_def
      json_get_def)

lemma records_roundtrip:
  "map_res (\<lambda>(index, record). record_from_json index record)
     (enumerate n (map (\<lambda>r. JObj (tr_to_dict r)) rs)) = Inr rs"
  by (induction rs arbitrary: n) (simp_all add: tr_to_dict_lookup)

lemma token_dict_wf: "json_wf (JObj (token_to_ordered_dict t))"
  using tr_to_dict_wf by (auto simp: token_to_ordered_dict_def list_all_iff)

lemma parse_token_json: "parse_json (token_to_json t) = Inr (JObj (token_to_ordered_dict t))"
  unfolding parse_json_def token_to_json_def json_roundtrip [OF token_dict_wf] by simp

lemma token_payload_roundtrip: "token_from_payload (token_to_json t) = Inr t"
  by (simp add: token_from_payload_def parse_token_json)
    (simp add: token_to_ordered_dict_def json_field_def json_get_def records_roundtrip)

section \<open>The subset search\<close>

abbreviation value_of :: "token list \<Rightarrow> int" where
  "value_of ts \<equiv> sum_list (map tk_value ts)"

abbreviation nonneg :: "token list \<Rightarrow> bool" where
  "nonneg ts \<equiv> \<forall>t \<in> set ts. 0 \<le> tk_value t"

lemma exact_search_sound:
  "exact_search amount ts selected tot best = Some r \<Longrightarrow>
     best = Some r \<or> (\<exists>s. subseq s ts \<and> r = selected @ s \<and> tot + value_of s = amount)"
proof (induction ts arbitrary: selected tot best)
  case Nil
  then show ?case by (auto split: if_splits)
next
  case (Cons t ts)
  let ?b = "exact_search amount ts (selected @ [t]) (tot + tk_value t) best"
  show ?case
  proof (cases "tot = amount \<or> amount < tot \<or> (best \<noteq> None \<and> length (the best) \<le> length selected)")
    case True
    with Cons.prems show ?thesis by (auto split: if_splits)
  next
    case False
    with Cons.prems have r: "exact_search amount ts selected tot ?b = Some r" by (auto simp: Let_def)
    from Cons.IH [OF this] consider "?b = Some r"
      | s where "subseq s ts" "r = selected @ s" "tot + value_of s = amount" by blast
    then show ?thesis
    proof cases
      case 1
      from Cons.IH [OF this] show ?thesis by fastforce
    next
      case 2
      then show ?thesis using list_emb_Cons by blast
    qed
  qed
qed

text \<open>The search never returns anything longer than what it had.\<close>

lemma exact_search_keeps:
  "best = Some b \<Longrightarrow>
     \<exists>r. exact_search amount ts selected tot best = Some r \<and> length r \<le> length b"
proof (induction ts arbitrary: selected tot best b)
  case (Cons t ts)
  obtain r1 where "exact_search amount ts (selected @ [t]) (tot + tk_value t) best = Some r1"
    "length r1 \<le> length b"
    using Cons.IH [OF Cons.prems] by blast
  with Cons.IH [of "Some r1" r1 selected tot] Cons.prems show ?case by (auto simp: Let_def)
qed auto

lemma exact_search_optimal:
  assumes "nonneg ts" and "subseq s ts" and "tot + value_of s = amount"
  shows "\<exists>r. exact_search amount ts selected tot best = Some r \<and>
           length r \<le> length selected + length s"
  using assms
proof (induction ts arbitrary: selected tot best s)
  case Nil
  then have "s = []" by simp
  with Nil show ?case by (cases best) auto
next
  case (Cons t ts)
  have "0 \<le> value_of s"
    using Cons.prems(1) list_emb_set [OF Cons.prems(2)] by (intro sum_list_nonneg) auto
  with Cons.prems(3) have le: "tot \<le> amount" by simp
  let ?b = "exact_search amount ts (selected @ [t]) (tot + tk_value t) best"
  consider "tot = amount" | "tot \<noteq> amount" "best \<noteq> None" "length (the best) \<le> length selected"
    | (split) "tot \<noteq> amount" "\<not> (best \<noteq> None \<and> length (the best) \<le> length selected)" by blast
  then show ?case
  proof cases
    case split
    then have "\<not> amount < tot" "tot \<noteq> amount"
      "(best \<noteq> None \<and> length (the best) \<le> length selected) = False"
      using le by auto
    then have eq: "exact_search amount (t # ts) selected tot best =
        exact_search amount ts selected tot ?b" by (simp only: exact_search.simps if_False Let_def)
    show ?thesis
    proof (cases "subseq s ts")
      case True
      from Cons.IH [OF _ True Cons.prems(3)] Cons.prems(1) show ?thesis unfolding eq by simp
    next
      case False
      with Cons.prems(2) obtain s' where s: "s = t # s'" "subseq s' ts"
        by (cases s) (auto split: if_splits)
      with Cons.prems(1,3) Cons.IH [of s' "tot + tk_value t" "selected @ [t]" best]
      obtain b where "?b = Some b" "length b \<le> length selected + length s"
        by (auto simp: algebra_simps)
      with exact_search_keeps [OF this(1)] show ?thesis unfolding eq by (meson le_trans)
    qed
  qed (use le in \<open>auto split: if_splits\<close>)
qed

lemma find_exact_Some:
  assumes "find_exact_token_subset tokens amount = Some r"
  shows "subseq r tokens" and "value_of r = amount"
  using exact_search_sound [of amount tokens "[]" 0 None r] assms
  by (auto simp: find_exact_token_subset_def)

lemma find_exact_minimal:
  assumes "nonneg tokens" and "subseq s tokens" and "value_of s = amount"
  shows "\<exists>r. find_exact_token_subset tokens amount = Some r \<and> length r \<le> length s"
  using exact_search_optimal [OF assms(1,2), of 0 amount "[]" None] assms(3)
  by (auto simp: find_exact_token_subset_def)

section \<open>What selection returns\<close>

lemma select_tokens_Inr:
  assumes "select_tokens w amount = Inr sel"
  shows "subseq sel (sort_key tk_value (map snd (cw_utr w)))" and "amount \<le> value_of sel"
proof -
  let ?ts = "sort_key tk_value (map snd (cw_utr w))"
  consider "amount = 0" "sel = []"
    | "find_exact_token_subset ?ts amount = Some sel"
    | "greedy_loop tk_value amount [] 0 ?ts = Some sel"
    using assms by (auto simp: select_tokens_def Let_def split: if_splits option.splits)
  then have "subseq sel ?ts \<and> amount \<le> value_of sel"
  proof cases
    case 2
    with find_exact_Some [OF 2] show ?thesis by simp
  next
    case 3
    from greedy_loop_Some [OF 3] subseq_take show ?thesis by auto
  qed simp
  then show "subseq sel ?ts" and "amount \<le> value_of sel" by simp_all
qed

lemma select_tokens_in_utr:
  assumes "dict_wf (cw_utr w)" and "\<forall>(k, t) \<in> set (cw_utr w). tk_token_id t = k"
    and "select_tokens w amount = Inr sel"
  shows "distinct (map tk_token_id sel)"
    and "\<forall>t \<in> set sel. map_of (cw_utr w) (tk_token_id t) = Some t"
proof -
  note sub = select_tokens_Inr(1) [OF assms(3)] and keyed = dict_self_keyed [OF assms(1,2)]
  have "distinct (map tk_token_id (sort_key tk_value (map snd (cw_utr w))))"
    using keyed(1) by (simp only: distinct_map distinct_sort set_sort)
  with subseq_map [OF sub] show "distinct (map tk_token_id sel)" by (rule subseq_distinct)
  show "\<forall>t \<in> set sel. map_of (cw_utr w) (tk_token_id t) = Some t"
    using subseq_subset [OF sub] keyed(2) by auto
qed

lemma select_tokens_Inl_iff:
  assumes "nonneg (map snd (cw_utr w))" and "0 < amount"
  shows "(\<exists>e. select_tokens w amount = Inl e) \<longleftrightarrow> dict_total tk_value (cw_utr w) < amount"
proof -
  let ?ts = "sort_key tk_value (map snd (cw_utr w))"
  have pool: "nonneg ?ts" and tot: "value_of ?ts = dict_total tk_value (cw_utr w)"
    using assms(1) by (simp_all only: sum_list_sort_key dict_total_values set_sort)
  have "find_exact_token_subset ?ts amount = None" if "value_of ?ts < amount"
    using find_exact_Some [of ?ts amount] subseq_sum_le [OF _ pool] that
    by (cases "find_exact_token_subset ?ts amount") fastforce+
  with greedy_loop_None_nonneg [OF pool assms(2)] assms(2) tot show ?thesis
    by (auto simp: select_tokens_def Let_def split: option.splits)
qed

section \<open>What sending does\<close>

text \<open>
  When the key store holds the owner's key, sending distinct tokens of the UTR succeeds: each
  is extended by one transfer to the receiver and moved to the STR.
\<close>

abbreviation handed_over :: "ed25519 \<Rightarrow> string \<Rightarrow> string \<Rightarrow> token \<Rightarrow> token \<Rightarrow> bool" where
  "handed_over C sk receiver_pk t t' \<equiv>
     (\<exists>st r. append_transfer C st sk receiver_pk t = Inr (r, t'))"

lemma handed_over_sel:
  "handed_over C sk rpk t t' \<Longrightarrow>
     tk_token_id t' = tk_token_id t \<and> tk_value t' = tk_value t \<and> tk_owner_pk t' = rpk \<and>
     tk_issuer_pk t' = tk_issuer_pk t"
  using append_transfer_Inr(1) by fastforce

lemma send_loop_succeeds:
  assumes "ed_ok C" and "b64_keypair C sk (cw_owner_pk w)"
    and "distinct (map tk_token_id ts)"
    and "\<forall>t \<in> set ts. map_of (cw_utr w) (tk_token_id t) = Some t \<and> tk_owner_pk t = cw_owner_pk w"
  shows "\<exists>ts'. list_all2 (handed_over C sk rpk) ts ts' \<and>
    send_loop C st sk rpk i ts w = (Inr (map token_to_json ts'),
      w\<lparr>cw_utr := fold (\<lambda>t. AList.delete (tk_token_id t)) ts (cw_utr w),
        cw_str := fold (\<lambda>t. AList.update (tk_token_id t) t) ts' (cw_str w)\<rparr>)"
  using assms(2-4)
proof (induction ts arbitrary: w i)
  case Nil
  then show ?case by simp
next
  case (Cons t ts)
  from Cons.prems have t: "map_of (cw_utr w) (tk_token_id t) = Some t"
    and kp: "b64_keypair C sk (tk_owner_pk t)" by auto
  obtain r t' where app: "append_transfer C (st i) sk rpk t = Inr (r, t')"
    using append_transfer_returns [OF assms(1) kp] by blast
  let ?w = "w\<lparr>cw_utr := AList.delete (tk_token_id t) (cw_utr w),
              cw_str := AList.update (tk_token_id t') t' (cw_str w)\<rparr>"
  have "\<forall>u \<in> set ts. map_of (cw_utr ?w) (tk_token_id u) = Some u \<and> tk_owner_pk u = cw_owner_pk ?w"
  proof
    fix u assume u: "u \<in> set ts"
    with Cons.prems(2) have "tk_token_id u \<noteq> tk_token_id t" by (metis (no_types) distinct.simps(2) image_eqI list.set_map list.simps(9))
    with u Cons.prems(3) show
      "map_of (cw_utr ?w) (tk_token_id u) = Some u \<and> tk_owner_pk u = cw_owner_pk ?w"
      by (simp add: dict_simps)
  qed
  then obtain ts' where "list_all2 (handed_over C sk rpk) ts ts'" and
    "send_loop C st sk rpk (i + 1) ts ?w = (Inr (map token_to_json ts'),
      ?w\<lparr>cw_utr := fold (\<lambda>t. AList.delete (tk_token_id t)) ts (cw_utr ?w),
        cw_str := fold (\<lambda>t. AList.update (tk_token_id t) t) ts' (cw_str ?w)\<rparr>)"
    using Cons.IH [of ?w "i + 1"] Cons.prems(1,2) by auto
  with t app show ?case
    by (intro exI [of _ "t' # ts'"]) auto
qed

section \<open>The invariant\<close>

text \<open>
  Every token of the UTR is filed under its identifier, owned by the wallet and valid; every
  token of the STR is filed under its identifier, valid, and its last transfer was made by this
  wallet.
\<close>

definition wallet_inv :: "ed25519 \<Rightarrow> cash_wallet \<Rightarrow> bool" where
  "wallet_inv C w \<longleftrightarrow>
     dict_wf (cw_utr w) \<and> dict_wf (cw_str w) \<and>
     (\<forall>(k, t) \<in> set (cw_utr w). tk_token_id t = k \<and> tk_owner_pk t = cw_owner_pk w \<and>
        validate_chain C (tk_issuer_pk t) t) \<and>
     (\<forall>(k, t) \<in> set (cw_str w). tk_token_id t = k \<and> validate_chain C (tk_issuer_pk t) t \<and>
        tk_transfer_chain t \<noteq> [] \<and> tr_sender_pk (last (tk_transfer_chain t)) = cw_owner_pk w)"

definition holds_key :: "ed25519 \<Rightarrow> cash_wallet \<Rightarrow> bool" where
  "holds_key C w \<longleftrightarrow>
     (case get_private_key (cw_keystore w) (cw_owner_pk w) of
        Inl _ \<Rightarrow> False
      | Inr sk \<Rightarrow> b64_keypair C sk (cw_owner_pk w))"

definition registers_disjoint :: "cash_wallet \<Rightarrow> bool" where
  "registers_disjoint w \<longleftrightarrow> dict_keys (cw_utr w) \<inter> dict_keys (cw_str w) = {}"

lemma wallet_inv_utr:
  "wallet_inv C w \<Longrightarrow> map_of (cw_utr w) k = Some t \<Longrightarrow>
     tk_token_id t = k \<and> tk_owner_pk t = cw_owner_pk w \<and> validate_chain C (tk_issuer_pk t) t"
  by (auto simp: wallet_inv_def dest!: map_of_SomeD)

lemma wallet_inv_new [simp]: "wallet_inv C (new_wallet opk ks)"
  by (simp add: wallet_inv_def new_wallet_def)

lemma wallet_inv_file:
  assumes "wallet_inv C w" and "tk_owner_pk t = cw_owner_pk w"
    and "validate_chain C (tk_issuer_pk t) t"
  shows "wallet_inv C (w\<lparr>cw_utr := AList.update (tk_token_id t) t (cw_utr w)\<rparr>)"
  using assms by (fastforce simp: wallet_inv_def dict_simps dest: dict_in_update)

lemma wallet_inv_move:
  assumes "wallet_inv C w" and "ed_ok C" and kp: "b64_keypair C sk (cw_owner_pk w)"
    and t: "map_of (cw_utr w) k = Some t" and app: "append_transfer C st sk rpk t = Inr (r, t')"
  shows "wallet_inv C (w\<lparr>cw_utr := AList.delete k (cw_utr w),
    cw_str := AList.update (tk_token_id t') t' (cw_str w)\<rparr>)"
proof -
  note inv = wallet_inv_utr [OF assms(1) t]
  have "validate_chain C (tk_issuer_pk t') t'" "tk_transfer_chain t' \<noteq> []"
    "tr_sender_pk (last (tk_transfer_chain t')) = cw_owner_pk w"
    using append_transfer_valid [OF assms(2) _ _ app] append_transfer_Inr [OF app] kp inv
      tr_create_fields(3) [OF append_transfer_Inr(2) [OF app]] by auto
  with assms(1) show ?thesis
    by (fastforce simp: wallet_inv_def dict_simps dest: dict_in_update dict_in_delete)
qed

lemma send_loop_inv:
  assumes "ed_ok C"
  shows "wallet_inv C w \<Longrightarrow> b64_keypair C sk (cw_owner_pk w) \<Longrightarrow>
    send_loop C st sk rpk i ts w = (r, w') \<Longrightarrow>
    wallet_inv C w' \<and> cw_owner_pk w' = cw_owner_pk w \<and> cw_keystore w' = cw_keystore w \<and>
    (registers_disjoint w \<longrightarrow> registers_disjoint w')"
proof (induction ts arbitrary: w i r)
  case (Cons t ts)
  show ?case
  proof (cases "map_of (cw_utr w) (tk_token_id t)")
    case None
    with Cons.prems show ?thesis by auto
  next
    case (Some l)
    note inv = wallet_inv_utr [OF Cons.prems(1) Some]
    have "b64_keypair C sk (tk_owner_pk l)" using inv Cons.prems(2) by simp
    from append_transfer_returns [OF assms this]
    obtain r1 t' where app: "append_transfer C (st i) sk rpk l = Inr (r1, t')" by blast
    let ?w = "w\<lparr>cw_utr := AList.delete (tk_token_id t) (cw_utr w),
                cw_str := AList.update (tk_token_id t') t' (cw_str w)\<rparr>"
    obtain r2 w2 where rest: "send_loop C st sk rpk (i + 1) ts ?w = (r2, w2)" by fastforce
    with Some app Cons.prems(3) have w': "w' = w2" by simp
    have "tk_token_id t' = tk_token_id t"
      using append_transfer_Inr(1) [OF app] inv by simp
    then have disj: "registers_disjoint w \<longrightarrow> registers_disjoint ?w"
      by (auto simp: registers_disjoint_def dict_simps)
    have "b64_keypair C sk (cw_owner_pk ?w)" using Cons.prems(2) by simp
    with Cons.IH [OF wallet_inv_move [OF Cons.prems(1) assms Cons.prems(2) Some app]] rest
      disj w' show ?thesis by simp
  qed
qed simp

lemma send_tokens_inv:
  assumes "ed_ok C" and "wallet_inv C w" and "holds_key C w"
    and "send_tokens C st rpk ts w = (r, w')"
  shows "wallet_inv C w'" "cw_owner_pk w' = cw_owner_pk w" "cw_keystore w' = cw_keystore w"
    "holds_key C w'" "registers_disjoint w \<Longrightarrow> registers_disjoint w'"
  using send_loop_inv [OF assms(1,2)] assms(3,4)
  by (auto simp: send_tokens_def holds_key_def split: sum.splits)

lemma receive_token_True_iff:
  "receive_token C p w = (True, w') \<longleftrightarrow>
     (\<exists>t. token_from_payload p = Inr t \<and> tk_owner_pk t = cw_owner_pk w \<and>
        validate_chain C (tk_issuer_pk t) t \<and> map_of (cw_str w) (tk_token_id t) = None \<and>
        w' = w\<lparr>cw_utr := AList.update (tk_token_id t) t (cw_utr w)\<rparr>)"
  by (auto simp: receive_token_def bind_res_Inr_iff Let_def split: sum.splits if_splits)

lemma receive_token_False: "receive_token C p w = (False, w') \<Longrightarrow> w' = w"
  by (auto simp: receive_token_def Let_def split: sum.splits)

lemma receive_token_inv:
  assumes "wallet_inv C w" and "receive_token C p w = (b, w')"
  shows "wallet_inv C w'" "cw_owner_pk w' = cw_owner_pk w" "cw_keystore w' = cw_keystore w"
    "registers_disjoint w \<Longrightarrow> registers_disjoint w'"
proof -
  have "wallet_inv C w' \<and> cw_owner_pk w' = cw_owner_pk w \<and> cw_keystore w' = cw_keystore w \<and>
      (registers_disjoint w \<longrightarrow> registers_disjoint w')"
  proof (cases b)
    case True
    with assms(2) obtain t where t: "tk_owner_pk t = cw_owner_pk w"
      "validate_chain C (tk_issuer_pk t) t" and new: "tk_token_id t \<notin> dict_keys (cw_str w)"
      and w': "w' = w\<lparr>cw_utr := AList.update (tk_token_id t) t (cw_utr w)\<rparr>"
      by (auto simp: receive_token_True_iff map_of_eq_None_iff simp del: set_map)
    have "dict_keys (cw_utr w') = insert (tk_token_id t) (dict_keys (cw_utr w))" "cw_str w' = cw_str w"
      by (simp_all add: w' dict_keys_update)
    with new have "registers_disjoint w \<longrightarrow> registers_disjoint w'"
      unfolding registers_disjoint_def by simp
    with wallet_inv_file [OF assms(1) t] show ?thesis unfolding w' by simp
  next
    case False
    with assms receive_token_False [of C p w w'] show ?thesis by simp
  qed
  then show "wallet_inv C w'" "cw_owner_pk w' = cw_owner_pk w" "cw_keystore w' = cw_keystore w"
    "registers_disjoint w \<Longrightarrow> registers_disjoint w'" by simp_all
qed

lemma fold_AList_delete_facts:
  fixes d :: "('k, 'v) dict"
  shows "dict_keys (fold AList.delete ks d) = dict_keys d - set ks"
    and "dict_wf d \<Longrightarrow> dict_wf (fold AList.delete ks d)"
    and "set (fold AList.delete ks d) \<subseteq> set d"
proof (induction ks arbitrary: d)
  case (Cons k ks)
  { case 1 show ?case by (simp add: Cons(1) dict_simps) blast }
  { case 2 then show ?case by (simp add: Cons(2) dict_simps) }
  { case 3 show ?case
      using subset_trans [OF Cons(3) dict_values_delete_subset] by simp }
qed simp_all

lemma wallet_sync_inv:
  assumes "wallet_inv C w"
  shows "wallet_inv C (wallet_sync ids w)"
    and "registers_disjoint w \<Longrightarrow> registers_disjoint (wallet_sync ids w)"
proof -
  let ?w = "wallet_sync ids w"
  note del = fold_AList_delete_facts [where ks = ids and d = "cw_str w"]
  have sel: "cw_utr ?w = cw_utr w" "cw_owner_pk ?w = cw_owner_pk w"
    "cw_str ?w = fold AList.delete ids (cw_str w)" by (simp_all add: wallet_sync_def)
  show "wallet_inv C ?w"
    using assms del(2) unfolding wallet_inv_def sel by (blast dest: subsetD [OF del(3)])
  show "registers_disjoint w \<Longrightarrow> registers_disjoint ?w"
    unfolding registers_disjoint_def sel del(1) by blast
qed

section \<open>Runs of a wallet\<close>

text \<open>Any operation, with any arguments and any outcome, is a step of the wallet.\<close>

inductive cash_step :: "ed25519 \<Rightarrow> cash_wallet \<Rightarrow> cash_wallet \<Rightarrow> bool" for C where
  Add: "add_token C t w = Inr w' \<Longrightarrow> cash_step C w w'"
| Send: "send_tokens C st rpk ts w = (r, w') \<Longrightarrow> cash_step C w w'"
| Send_one: "send_token C st rpk w = (r1, w') \<Longrightarrow> cash_step C w w'"
| Pay: "initiate_payment C st price rpk w = (r, w') \<Longrightarrow> cash_step C w w'"
| Receive: "receive_token C payload w = (b, w') \<Longrightarrow> cash_step C w w'"
| Sync: "cash_step C w (wallet_sync ids w)"

inductive_cases cash_step_cases: "cash_step C w w'"

lemma send_token_is_send:
  "send_token C st rpk w = (r, w') \<Longrightarrow> w' = w \<or> (\<exists>ts r'. send_tokens C st rpk ts w = (r', w'))"
  by (auto simp: send_token_def split: list.splits option.splits prod.splits)

lemma initiate_is_send:
  "initiate_payment C st price rpk w = (r, w') \<Longrightarrow>
     w' = w \<or> (\<exists>ts r'. send_tokens C st rpk ts w = (r', w'))"
  by (auto simp: initiate_payment_def split: sum.splits)

lemma add_token_inv:
  "wallet_inv C w \<Longrightarrow> add_token C t w = Inr w' \<Longrightarrow> wallet_inv C w'"
  by (auto simp: add_token_def split: if_splits intro: wallet_inv_file)

lemma add_token_keys:
  "add_token C t w = Inr w' \<Longrightarrow> cw_owner_pk w' = cw_owner_pk w \<and> cw_keystore w' = cw_keystore w"
  by (auto simp: add_token_def split: if_splits)

lemma holds_key_cong:
  "cw_owner_pk w' = cw_owner_pk w \<Longrightarrow> cw_keystore w' = cw_keystore w \<Longrightarrow>
     holds_key C w' = holds_key C w"
  unfolding holds_key_def by presburger

lemma wallet_sync_keys [simp]:
  "cw_owner_pk (wallet_sync ids w) = cw_owner_pk w" "cw_keystore (wallet_sync ids w) = cw_keystore w"
  "cw_utr (wallet_sync ids w) = cw_utr w"
  by (simp_all add: wallet_sync_def)

lemma holds_key_sync [simp]: "holds_key C (wallet_sync ids w) = holds_key C w"
  by (rule holds_key_cong) simp_all

lemma cash_step_inv:
  assumes "ed_ok C" and "cash_step C w w'" and "wallet_inv C w" and "holds_key C w"
  shows "wallet_inv C w' \<and> holds_key C w' \<and> cw_owner_pk w' = cw_owner_pk w"
  using assms(2)
proof cases
  case (Add t)
  with assms(3,4) add_token_inv add_token_keys [OF Add] show ?thesis
    by (simp add: holds_key_cong [of w' w])
next
  case (Send st rpk ts r)
  with send_tokens_inv [OF assms(1,3,4)] show ?thesis by blast
next
  case (Send_one st rpk r1)
  with send_token_is_send [OF Send_one] send_tokens_inv [OF assms(1,3,4)] assms(3,4) show ?thesis
    by blast
next
  case (Pay st price rpk r)
  with initiate_is_send [OF Pay] send_tokens_inv [OF assms(1,3,4)] assms(3,4) show ?thesis by blast
next
  case (Receive payload b)
  with receive_token_inv [OF assms(3) Receive] assms(4) show ?thesis
    by (simp add: holds_key_cong [of w' w])
next
  case (Sync ids)
  with wallet_sync_inv(1) [OF assms(3)] assms(4) show ?thesis by simp
qed

lemma cash_run_inv:
  assumes "(cash_step C)\<^sup>*\<^sup>* w w'" and "ed_ok C" and "wallet_inv C w" and "holds_key C w"
  shows "wallet_inv C w' \<and> holds_key C w' \<and> cw_owner_pk w' = cw_owner_pk w"
  using assms by (induction rule: rtranclp_induct) (auto dest: cash_step_inv)

lemma cash_step_disjoint:
  assumes "ed_ok C" and "cash_step C w w'" and "wallet_inv C w" and "holds_key C w"
    and "registers_disjoint w"
  shows "registers_disjoint w' \<or>
    (\<exists>t. add_token C t w = Inr w' \<and> tk_token_id t \<in> dict_keys (cw_str w))"
  using assms(2)
proof cases
  case (Add t)
  then have w': "w' = w\<lparr>cw_utr := AList.update (tk_token_id t) t (cw_utr w)\<rparr>"
    by (auto simp: add_token_def split: if_splits)
  then have "dict_keys (cw_utr w') = insert (tk_token_id t) (dict_keys (cw_utr w))"
    "cw_str w' = cw_str w" by (simp_all add: dict_keys_update)
  with assms(5) Add show ?thesis unfolding registers_disjoint_def by auto
next
  case (Send st rpk ts r)
  with send_tokens_inv(5) [OF assms(1,3,4)] assms(5) show ?thesis by blast
next
  case (Send_one st rpk r1)
  with send_token_is_send [OF Send_one] send_tokens_inv(5) [OF assms(1,3,4)] assms(5)
  show ?thesis by blast
next
  case (Pay st price rpk r)
  with initiate_is_send [OF Pay] send_tokens_inv(5) [OF assms(1,3,4)] assms(5) show ?thesis by blast
next
  case (Receive payload b)
  with receive_token_inv(4) [OF assms(3) Receive assms(5)] show ?thesis by blast
next
  case (Sync ids)
  with wallet_sync_inv(2) [OF assms(3,5)] show ?thesis by simp
qed

text \<open>What the operations do to the identifiers of the registers.\<close>

lemma send_loop_registers:
  "send_loop C st sk rpk i ts w = (r, w') \<Longrightarrow>
     dict_keys (cw_utr w') \<subseteq> dict_keys (cw_utr w) \<and> dict_keys (cw_str w) \<subseteq> dict_keys (cw_str w')"
proof (induction ts arbitrary: i w r)
  case (Cons t ts)
  show ?case
  proof (cases "\<exists>u sent rec. map_of (cw_utr w) (tk_token_id t) = Some u \<and> append_transfer C (st i) sk rpk u = Inr (rec, sent)")
    case False
    with Cons.prems have "w' = w \<or> w' = w\<lparr>cw_utr := AList.delete (tk_token_id t) (cw_utr w)\<rparr>"
      by (cases "map_of (cw_utr w) (tk_token_id t)"; cases "append_transfer C (st i) sk rpk (the (map_of (cw_utr w) (tk_token_id t)))")
        (auto simp: Let_def)
    then show ?thesis by (elim disjE) (simp_all add: dict_keys_delete Diff_subset del: set_map)
  next
    case True
    then obtain u sent rec where t: "map_of (cw_utr w) (tk_token_id t) = Some u" "append_transfer C (st i) sk rpk u = Inr (rec, sent)"
      by blast
    let ?w = "w\<lparr>cw_utr := AList.delete (tk_token_id t) (cw_utr w), cw_str := AList.update (tk_token_id sent) sent (cw_str w)\<rparr>"
    obtain r' where "send_loop C st sk rpk (i + 1) ts ?w = (r', w')"
      using Cons.prems t by (auto simp: Let_def split: prod.splits)
    from Cons.IH [OF this] show ?thesis by (auto simp: dict_keys_delete dict_keys_update simp del: set_map)
  qed
qed simp

lemma send_tokens_registers:
  "send_tokens C st rpk ts w = (r, w') \<Longrightarrow>
     dict_keys (cw_utr w') \<subseteq> dict_keys (cw_utr w) \<and> dict_keys (cw_str w) \<subseteq> dict_keys (cw_str w')"
  using send_loop_registers by (simp add: send_tokens_def split: sum.splits)

lemma add_token_registers:
  assumes "add_token C t w = Inr w'"
  shows "dict_keys (cw_utr w') = insert (tk_token_id t) (dict_keys (cw_utr w))" "cw_str w' = cw_str w"
proof -
  from assms have "w' = w\<lparr>cw_utr := AList.update (tk_token_id t) t (cw_utr w)\<rparr>"
    by (auto simp: add_token_def split: if_splits)
  then show "dict_keys (cw_utr w') = insert (tk_token_id t) (dict_keys (cw_utr w))" "cw_str w' = cw_str w"
    by (simp_all add: dict_keys_update)
qed

lemma wallet_sync_registers:
  "cw_utr (wallet_sync ids w) = cw_utr w" "dict_keys (cw_str (wallet_sync ids w)) = dict_keys (cw_str w) - set ids"
proof -
  have "dict_keys (fold AList.delete ids d) = dict_keys d - set ids" for d :: "(string, token) dict"
    by (induction ids arbitrary: d) (auto simp: dict_keys_delete simp del: set_map)
  then show "dict_keys (cw_str (wallet_sync ids w)) = dict_keys (cw_str w) - set ids"
    by (simp add: wallet_sync_def)
qed (simp add: wallet_sync_def)

lemma receive_token_spent:
  assumes "tid \<in> dict_keys (cw_str w)" and "token_from_payload p = Inr t" and "tk_token_id t = tid"
  shows "receive_token C p w = (False, w)"
proof (cases "receive_token C p w")
  case (Pair b w')
  have "map_of (cw_str w) tid \<noteq> None" using assms(1) by (simp add: map_of_eq_None_iff)
  with Pair assms(2,3) have "\<not> b" by (auto simp: receive_token_True_iff)
  with Pair receive_token_False show ?thesis by fastforce
qed

lemma cash_step_keeps_spent:
  assumes "cash_step C w w'" and "\<forall>ids. tid \<in> set ids \<longrightarrow> w' \<noteq> wallet_sync ids w"
    and "\<forall>t. tk_token_id t = tid \<longrightarrow> add_token C t w \<noteq> Inr w'"
    and "tid \<in> dict_keys (cw_str w) \<and> tid \<notin> dict_keys (cw_utr w)"
  shows "tid \<in> dict_keys (cw_str w') \<and> tid \<notin> dict_keys (cw_utr w')"
  using assms(1)
proof cases
  case (Add t)
  with assms(3,4) add_token_registers [OF Add] show ?thesis by auto
next
  case (Send st rpk ts r)
  with send_tokens_registers [OF Send] assms(4) show ?thesis by blast
next
  case (Send_one st rpk r1)
  with send_token_is_send [OF Send_one] send_tokens_registers assms(4) show ?thesis by blast
next
  case (Pay st price rpk r)
  with initiate_is_send [OF Pay] send_tokens_registers assms(4) show ?thesis by blast
next
  case (Receive p b)
  show ?thesis
  proof (cases b)
    case True
    with Receive obtain t where t: "token_from_payload p = Inr t" "map_of (cw_str w) (tk_token_id t) = None"
      and w': "w' = w\<lparr>cw_utr := AList.update (tk_token_id t) t (cw_utr w)\<rparr>"
      by (auto simp: receive_token_True_iff)
    from t(2) assms(4) have "tk_token_id t \<noteq> tid" by (auto simp: map_of_eq_None_iff)
    with assms(4) show ?thesis by (auto simp: w' dict_keys_update simp del: set_map)
  next
    case False
    with Receive receive_token_False assms(4) show ?thesis by metis
  qed
next
  case (Sync ids)
  with assms(2,4) show ?thesis by (auto simp: wallet_sync_registers simp del: set_map)
qed

section \<open>A payment\<close>

text \<open>What every call of \<open>send_tokens\<close> with tokens selected from the wallet does.\<close>

lemma send_selected:
  assumes ok: "ed_ok C" and inv: "wallet_inv C w" and key: "holds_key C w"
    and sel: "distinct (map tk_token_id ts)" "\<forall>t \<in> set ts. map_of (cw_utr w) (tk_token_id t) = Some t"
  shows "\<exists>sk ts'. list_all2 (handed_over C sk rpk) ts ts' \<and> b64_keypair C sk (cw_owner_pk w) \<and>
    send_tokens C st rpk ts w = (Inr (map token_to_json ts'),
      w\<lparr>cw_utr := fold (\<lambda>t. AList.delete (tk_token_id t)) ts (cw_utr w),
        cw_str := fold (\<lambda>t. AList.update (tk_token_id t) t) ts' (cw_str w)\<rparr>)"
proof -
  obtain sk where sk: "get_private_key (cw_keystore w) (cw_owner_pk w) = Inr sk"
    "b64_keypair C sk (cw_owner_pk w)" using key by (auto simp: holds_key_def split: sum.splits)
  have "\<forall>t \<in> set ts. map_of (cw_utr w) (tk_token_id t) = Some t \<and> tk_owner_pk t = cw_owner_pk w"
    using sel(2) wallet_inv_utr [OF inv] by blast
  from send_loop_succeeds [OF ok sk(2) sel(1) this, of rpk st 0] sk show ?thesis
    by (auto simp: send_tokens_def)
qed

text \<open>
  The relation between what was selected and what was sent, and its consequences for the sent
  tokens.
\<close>

lemma handed_over_list:
  assumes "list_all2 (handed_over C sk rpk) ts ts'"
  shows "map tk_token_id ts' = map tk_token_id ts" "map tk_value ts' = map tk_value ts"
    "\<forall>t \<in> set ts'. tk_owner_pk t = rpk"
  using assms by (induction rule: list_all2_induct) (auto dest: append_transfer_Inr(1))

lemma handed_over_valid:
  assumes "list_all2 (handed_over C sk rpk) ts ts'" and "ed_ok C"
    and "\<forall>t \<in> set ts. b64_keypair C sk (tk_owner_pk t) \<and> validate_chain C (tk_issuer_pk t) t"
  shows "\<forall>t \<in> set ts'. validate_chain C (tk_issuer_pk t) t"
  using assms(1,3)
proof (induction rule: list_all2_induct)
  case (Cons t ts t' ts')
  then obtain st r where app: "append_transfer C st sk rpk t = Inr (r, t')" by blast
  have "validate_chain C (tk_issuer_pk t) t'"
    using append_transfer_valid [OF assms(2) _ _ app] Cons.prems by simp
  moreover have "tk_issuer_pk t' = tk_issuer_pk t" using append_transfer_Inr(1) [OF app] by simp
  ultimately show ?case using Cons by simp
qed simp

abbreviation after_send :: "token list \<Rightarrow> token list \<Rightarrow> cash_wallet \<Rightarrow> cash_wallet" where
  "after_send sel sent w \<equiv>
     w\<lparr>cw_utr := fold (\<lambda>t. AList.delete (tk_token_id t)) sel (cw_utr w),
       cw_str := fold (\<lambda>t. AList.update (tk_token_id t) t) sent (cw_str w)\<rparr>"

lemma sent_effect:
  assumes ok: "ed_ok C" and inv: "wallet_inv C w" and ho: "list_all2 (handed_over C sk rpk) sel sent"
    and kp: "b64_keypair C sk (cw_owner_pk w)"
    and pool: "distinct (map tk_token_id sel)" "\<forall>t \<in> set sel. map_of (cw_utr w) (tk_token_id t) = Some t"
  shows "dict_total tk_value (cw_utr (after_send sel sent w)) =
      dict_total tk_value (cw_utr w) - value_of sent"
    and "dict_keys (cw_utr (after_send sel sent w)) = dict_keys (cw_utr w) - tk_token_id ` set sent"
    and "dict_keys (cw_str (after_send sel sent w)) = dict_keys (cw_str w) \<union> tk_token_id ` set sent"
    and "tk_token_id ` set sent \<subseteq> dict_keys (cw_utr w)" and "distinct (map tk_token_id sent)"
    and "\<forall>t \<in> set sent. tk_owner_pk t = rpk \<and> validate_chain C (tk_issuer_pk t) t"
    and "value_of sent = value_of sel"
proof -
  note same = handed_over_list [OF ho]
  have ids: "tk_token_id ` set sel = tk_token_id ` set sent"
    using same(1) by (metis list.set_map)
  have wf: "dict_wf (cw_utr w)" using inv by (simp add: wallet_inv_def)
  have old: "\<forall>t \<in> set sel. tk_owner_pk t = cw_owner_pk w \<and> validate_chain C (tk_issuer_pk t) t"
    using pool(2) wallet_inv_utr [OF inv] by blast
  have "\<forall>t \<in> set sent. validate_chain C (tk_issuer_pk t) t"
    using old kp by (intro handed_over_valid [OF ho ok]) simp
  with same(3) show "\<forall>t \<in> set sent. tk_owner_pk t = rpk \<and> validate_chain C (tk_issuer_pk t) t"
    by blast
  show "dict_keys (cw_utr (after_send sel sent w)) = dict_keys (cw_utr w) - tk_token_id ` set sent"
    "dict_keys (cw_str (after_send sel sent w)) = dict_keys (cw_str w) \<union> tk_token_id ` set sent"
    by (simp_all add: fold_delete_keys fold_update_keys ids)
  show "tk_token_id ` set sent \<subseteq> dict_keys (cw_utr w)"
    unfolding ids [symmetric] using pool(2) by (force dest: map_of_SomeD)
  show "dict_total tk_value (cw_utr (after_send sel sent w)) =
      dict_total tk_value (cw_utr w) - value_of sent"
    using fold_delete_total [OF wf pool, of tk_value] same(2) by simp
  show "distinct (map tk_token_id sent)" "value_of sent = value_of sel"
    using pool(1) same(1,2) by simp_all
qed

text \<open>What a returning \<open>initiate_payment\<close> has done.\<close>

lemma wallet_inv_keyed:
  assumes "wallet_inv C w"
  shows "dict_wf (cw_utr w)" and "\<forall>(k, t) \<in> set (cw_utr w). tk_token_id t = k"
  using assms by (auto simp: wallet_inv_def)

lemma initiate_payment_Inr:
  assumes "ed_ok C" and inv: "wallet_inv C w" and "holds_key C w"
    and sel: "select_tokens w price = Inr sel"
  obtains sk sent where "list_all2 (handed_over C sk rpk) sel sent"
    "b64_keypair C sk (cw_owner_pk w)"
    "initiate_payment C st price rpk w = (Inr (map token_to_json sent), after_send sel sent w)"
  using send_selected [OF assms(1-3) select_tokens_in_utr [OF wallet_inv_keyed [OF inv] sel], of rpk st]
    that sel by (auto simp: initiate_payment_def)

lemma select_tokens_succeeds:
  assumes "nonneg (map snd (cw_utr w))" and "0 \<le> price" and "price \<le> dict_total tk_value (cw_utr w)"
  obtains sel where "select_tokens w price = Inr sel"
proof (cases "select_tokens w price")
  case (Inl e)
  then have "price \<noteq> 0" by (auto simp: select_tokens_def)
  with select_tokens_Inl_iff [OF assms(1), of price] Inl assms(2,3) show ?thesis by auto
qed

lemma initiate_payment_succeeds:
  assumes ok: "ed_ok C" and inv: "wallet_inv C w" and key: "holds_key C w"
    and nn: "nonneg (map snd (cw_utr w))" and price: "0 \<le> price" "price \<le> dict_total tk_value (cw_utr w)"
  shows "\<exists>sent w'. initiate_payment C st price rpk w = (Inr (map token_to_json sent), w') \<and>
    price \<le> value_of sent \<and> distinct (map tk_token_id sent) \<and>
    dict_total tk_value (cw_utr w') = dict_total tk_value (cw_utr w) - value_of sent \<and>
    dict_keys (cw_utr w') = dict_keys (cw_utr w) - tk_token_id ` set sent \<and>
    dict_keys (cw_str w') = dict_keys (cw_str w) \<union> tk_token_id ` set sent \<and>
    tk_token_id ` set sent \<subseteq> dict_keys (cw_utr w) \<and>
    (\<forall>t \<in> set sent. tk_owner_pk t = rpk \<and> validate_chain C (tk_issuer_pk t) t)"
proof -
  obtain sel where sel: "select_tokens w price = Inr sel"
    by (rule select_tokens_succeeds [OF nn price])
  obtain sk sent where ho: "list_all2 (handed_over C sk rpk) sel sent"
    and kp: "b64_keypair C sk (cw_owner_pk w)"
    and pay: "initiate_payment C st price rpk w = (Inr (map token_to_json sent), after_send sel sent w)"
    by (rule initiate_payment_Inr [OF ok inv key sel])
  note eff = sent_effect [OF ok inv ho kp select_tokens_in_utr [OF wallet_inv_keyed [OF inv] sel]]
  have "price \<le> value_of sent" using select_tokens_Inr(2) [OF sel] eff(7) by simp
  with pay eff show ?thesis by (intro exI [of _ sent] exI [of _ "after_send sel sent w"]) simp
qed

section \<open>Concrete wallets\<close>

text \<open>The wallet of key \<open>k\<close> holding demo tokens with the given identifiers and values.\<close>

definition demo_wallet :: "8 word \<Rightarrow> (string \<times> int) list \<Rightarrow> cash_wallet" where
  "demo_wallet k tokens =
     (new_wallet (demo_key k) (add_keypair (demo_key k) (demo_key k) []))
       \<lparr>cw_utr := map (\<lambda>(tid, v). (tid, demo_token k tid v)) tokens\<rparr>"

text \<open>Stamps for the witnesses: every transfer draws the same identifier and time.\<close>

definition demo_stamps :: "nat \<Rightarrow> stamp" where
  "demo_stamps i = \<lparr>stamp_uuid = ''uuid'', stamp_now = ''2026-01-01T00:00:00+00:00''\<rparr>"

lemma demo_wallet_sel [simp]:
  "cw_owner_pk (demo_wallet k ts) = demo_key k" "cw_str (demo_wallet k ts) = []"
  "cw_utr (demo_wallet k ts) = map (\<lambda>(tid, v). (tid, demo_token k tid v)) ts"
  "cw_keystore (demo_wallet k ts) = [(demo_key k, demo_key k)]"
  by (simp_all add: demo_wallet_def new_wallet_def add_keypair_def)

lemma demo_wallet_facts [simp]:
  "holds_key toy_ed25519 (demo_wallet k ts)" "registers_disjoint (demo_wallet k ts)"
  by (simp_all add: holds_key_def get_private_key_def registers_disjoint_def)

lemma demo_wallet_inv [simp]:
  "distinct (map fst ts) \<Longrightarrow> wallet_inv toy_ed25519 (demo_wallet k ts)"
  by (auto simp: wallet_inv_def comp_def split_beta)

lemma demo_wallet_total [simp]:
  "dict_total tk_value (map (\<lambda>(tid, v). (tid, demo_token k tid v)) ts) = sum_list (map snd ts)"
  by (induction ts) auto

text \<open>The demo wallet of key 2 with one token pays: the token is in its STR.\<close>

lemma demo_wallet_pays:
  obtains w where "cash_step toy_ed25519 (demo_wallet 2 [(''a'', 10)]) w"
    "''a'' \<in> dict_keys (cw_str w)" "''a'' \<notin> dict_keys (cw_utr w)"
proof -
  let ?w1 = "demo_wallet 2 [(''a'', 10)]"
  have "wallet_inv toy_ed25519 ?w1" "holds_key toy_ed25519 ?w1" "nonneg (map snd (cw_utr ?w1))"
    "0 \<le> (5 :: int)" "5 \<le> dict_total tk_value (cw_utr ?w1)" by simp_all
  from initiate_payment_succeeds [OF toy_ed25519_ok this, of undefined "demo_key 3"] obtain ts' w2 where
    pay: "initiate_payment toy_ed25519 undefined 5 (demo_key 3) ?w1 = (Inr (map token_to_json ts'), w2)"
    and cover: "5 \<le> value_of ts'"
    and str: "dict_keys (cw_str w2) = dict_keys (cw_str ?w1) \<union> tk_token_id ` set ts'"
    and utr: "dict_keys (cw_utr w2) = dict_keys (cw_utr ?w1) - tk_token_id ` set ts'"
    and sub: "tk_token_id ` set ts' \<subseteq> dict_keys (cw_utr ?w1)" by metis
  from cover have "ts' \<noteq> []" by auto
  with sub have "''a'' \<in> tk_token_id ` set ts'" by (cases ts') auto
  with str utr that [OF cash_step.Pay [OF pay]] show ?thesis by blast
qed

section \<open>Properties\<close>

text \<open>
  C16: A token survives its JSON text unchanged, whatever its fields contain, and different tokens
  have different texts.
\<close>
theorem token_json_roundtrip:
  "token_from_payload (token_to_json t) = Inr t \<and> (token_to_json t = token_to_json u \<longleftrightarrow> t = u)"
  using token_payload_roundtrip by (metis sum.inject(2))

text \<open>
  C12: On non-negative values the subset search is exact and optimal: it finds a sub-list with
  exactly the amount if and only if there is one, and returns one with as few tokens as possible.
\<close>
theorem find_exact_optimal:
  assumes "nonneg tokens"
  shows "case find_exact_token_subset tokens amount of
      None \<Rightarrow> \<not> (\<exists>s. subseq s tokens \<and> value_of s = amount)
    | Some r \<Rightarrow> subseq r tokens \<and> value_of r = amount \<and>
        (\<forall>s. subseq s tokens \<and> value_of s = amount \<longrightarrow> length r \<le> length s)"
  using find_exact_minimal [OF assms] find_exact_Some [of tokens amount]
  by (fastforce split: option.splits)

lemma find_exact_optimal_witness:
  "case find_exact_token_subset (map (demo_token 2 ''t'') [1, 2, 3, 5]) 6 of
      None \<Rightarrow> False
    | Some r \<Rightarrow> value_of r = 6 \<and> length r \<le> 2"
proof -
  let ?ts = "map (demo_token 2 ''t'') [1, 2, 3, 5]"
  let ?s = "[demo_token 2 ''t'' 1, demo_token 2 ''t'' 5]"
  have s: "subseq ?s ?ts \<and> value_of ?s = 6" by simp
  have "nonneg ?ts" by simp
  from find_exact_optimal [OF this, of 6] s show ?thesis
    by (cases "find_exact_token_subset ?ts 6") (force simp del: list.map)+
qed

text \<open>
  Selection on a wallet with non-negative values raises exactly when the amount is negative
  or above the balance. What it returns are different tokens of the UTR that cover the amount;
  when some tokens of the wallet make up the amount exactly, so do those returned, and with as
  few tokens as possible.
\<close>
theorem select_tokens_spec:
  assumes "wallet_inv C w" and "nonneg (map snd (cw_utr w))"
  shows "case select_tokens w amount of
      Inl _ \<Rightarrow> amount < 0 \<or> dict_total tk_value (cw_utr w) < amount
    | Inr sel \<Rightarrow> 0 \<le> amount \<and> amount \<le> value_of sel \<and>
        value_of sel \<le> dict_total tk_value (cw_utr w) \<and>
        distinct (map tk_token_id sel) \<and>
        (\<forall>t \<in> set sel. map_of (cw_utr w) (tk_token_id t) = Some t) \<and>
        (\<forall>s. subseq s (sort_key tk_value (map snd (cw_utr w))) \<and> value_of s = amount \<longrightarrow>
           value_of sel = amount \<and> length sel \<le> length s)"
proof (cases "select_tokens w amount")
  case (Inl e)
  have "\<not> 0 < amount \<or> dict_total tk_value (cw_utr w) < amount"
    using select_tokens_Inl_iff [OF assms(2), of amount] Inl by blast
  moreover from Inl have "amount \<noteq> 0" by (auto simp: select_tokens_def)
  ultimately show ?thesis using Inl by auto
next
  case (Inr sel)
  let ?ts = "sort_key tk_value (map snd (cw_utr w))"
  have pool: "nonneg ?ts" and tot: "value_of ?ts = dict_total tk_value (cw_utr w)"
    using assms(2) by (simp_all only: sum_list_sort_key dict_total_values set_sort)
  have wf: "dict_wf (cw_utr w)" "\<forall>(k, t) \<in> set (cw_utr w). tk_token_id t = k"
    using assms(1) by (auto simp: wallet_inv_def)
  have "value_of sel = amount \<and> length sel \<le> length s" if "subseq s ?ts" "value_of s = amount" for s
  proof (cases "amount = 0")
    case True
    with Inr show ?thesis by (simp add: select_tokens_def)
  next
    case False
    from find_exact_minimal [OF pool that] obtain r where
      r: "find_exact_token_subset ?ts amount = Some r" "length r \<le> length s" by blast
    with Inr False have "sel = r" by (auto simp: select_tokens_def Let_def split: if_splits)
    with r find_exact_Some(2) [OF r(1)] show ?thesis by simp
  qed
  moreover have "0 \<le> amount" using Inr by (auto simp: select_tokens_def split: if_splits)
  moreover note select_tokens_Inr [OF Inr] select_tokens_in_utr [OF wf Inr]
  moreover have "value_of sel \<le> dict_total tk_value (cw_utr w)"
    using subseq_sum_le [OF select_tokens_Inr(1) [OF Inr] pool] tot by simp
  ultimately show ?thesis unfolding Inr sum.case by blast
qed

lemma select_tokens_spec_witness:
  "case select_tokens (demo_wallet 2 [(''a'', 10), (''b'', 2), (''c'', 4)]) 6 of
      Inl _ \<Rightarrow> False
    | Inr sel \<Rightarrow> value_of sel = 6 \<and> length sel \<le> 2"
proof -
  let ?w = "demo_wallet 2 [(''a'', 10), (''b'', 2), (''c'', 4)]"
  let ?s = "[demo_token 2 ''b'' 2, demo_token 2 ''c'' 4]"
  have "wallet_inv toy_ed25519 ?w" "nonneg (map snd (cw_utr ?w))" by simp_all
  note spec = select_tokens_spec [OF this, of 6]
  have s: "subseq ?s (sort_key tk_value (map snd (cw_utr ?w))) \<and> value_of ?s = 6" by simp
  show ?thesis
  proof (cases "select_tokens ?w 6")
    case (Inl e)
    with spec show ?thesis by simp
  next
    case (Inr sel)
    with spec s have "value_of sel = 6 \<and> length sel \<le> length ?s" unfolding Inr sum.case by blast
    with Inr show ?thesis by simp
  qed
qed

text \<open>
  C8: However a wallet is used from its creation on, whatever tokens, payloads and lists it is
  given and whichever calls fail, its UTR holds only valid tokens that it owns, and its STR
  only valid tokens whose last transfer it signed itself.
\<close>
theorem reachable_wallet_sound:
  assumes "ed_ok C" and "b64_keypair C sk pk"
    and "(cash_step C)\<^sup>*\<^sup>* (new_wallet pk (add_keypair sk pk [])) w"
  shows "(\<forall>(k, t) \<in> set (cw_utr w). tk_token_id t = k \<and> tk_owner_pk t = pk \<and>
      validate_chain C (tk_issuer_pk t) t) \<and>
    (\<forall>(k, t) \<in> set (cw_str w). tk_token_id t = k \<and> validate_chain C (tk_issuer_pk t) t \<and>
      tk_transfer_chain t \<noteq> [] \<and> tr_sender_pk (last (tk_transfer_chain t)) = pk)"
proof -
  let ?w = "new_wallet pk (add_keypair sk pk [])"
  have "holds_key C ?w"
    using assms(2) by (simp add: holds_key_def new_wallet_def add_keypair_def get_private_key_def)
  from cash_run_inv [OF assms(3,1) wallet_inv_new this]
  have "wallet_inv C w" "cw_owner_pk w = cw_owner_pk ?w" by simp_all
  then show ?thesis by (simp add: wallet_inv_def new_wallet_def)
qed

lemma reachable_wallet_sound_witness:
  "\<exists>w :: cash_wallet. cw_str w \<noteq> [] \<and> (\<forall>(k, t) \<in> set (cw_str w). tk_token_id t = k \<and>
     validate_chain toy_ed25519 (tk_issuer_pk t) t \<and> tk_transfer_chain t \<noteq> [] \<and>
     tr_sender_pk (last (tk_transfer_chain t)) = demo_key 2)"
proof -
  let ?w0 = "new_wallet (demo_key 2) (add_keypair (demo_key 2) (demo_key 2) [])"
  let ?w1 = "demo_wallet 2 [(''a'', 10)]"
  have "add_token toy_ed25519 (demo_token 2 ''a'' 10) ?w0 = Inr ?w1"
    by (simp add: add_token_def demo_wallet_def new_wallet_def)
  then have step1: "cash_step toy_ed25519 ?w0 ?w1" by (rule cash_step.Add)
  obtain w2 where step2: "cash_step toy_ed25519 ?w1 w2" and str: "''a'' \<in> dict_keys (cw_str w2)"
    by (rule demo_wallet_pays) blast
  from str have "cw_str w2 \<noteq> []" by auto
  have "(cash_step toy_ed25519)\<^sup>*\<^sup>* ?w0 w2"
    using step1 step2 by (meson r_into_rtranclp rtranclp.rtrancl_into_rtrancl)
  from reachable_wallet_sound [OF toy_ed25519_ok demo_keypair this] \<open>cw_str w2 \<noteq> []\<close>
  show ?thesis by (elim conjE) (rule exI [of _ w2], rule conjI)
qed

text \<open>
  C17: A spent token stays spent until its settlement is confirmed: once an identifier is in the STR
  and not in the UTR, it stays so through any sequence of operations other than \<open>sync\<close> with that
  identifier among the settled ones and \<open>add_token\<close> of a token with that identifier (both of which
  undo it), and every payload of a token with that identifier is refused, leaving the wallet as it was.
\<close>
theorem spent_tokens_stay_out:
  assumes "tid \<in> dict_keys (cw_str w)" and "tid \<notin> dict_keys (cw_utr w)"
    and "(\<lambda>a b. cash_step C a b \<and> (\<forall>ids. tid \<in> set ids \<longrightarrow> b \<noteq> wallet_sync ids a) \<and>
           (\<forall>t. tk_token_id t = tid \<longrightarrow> add_token C t a \<noteq> Inr b))\<^sup>*\<^sup>* w w'"
  shows "tid \<in> dict_keys (cw_str w') \<and> tid \<notin> dict_keys (cw_utr w') \<and>
    (\<forall>payload t. token_from_payload payload = Inr t \<longrightarrow> tk_token_id t = tid \<longrightarrow>
       receive_token C payload w' = (False, w'))"
proof -
  from assms(3) have "tid \<in> dict_keys (cw_str w') \<and> tid \<notin> dict_keys (cw_utr w')"
    by (induction rule: rtranclp_induct) (use assms(1,2) cash_step_keeps_spent in \<open>blast+\<close>)
  then show ?thesis using receive_token_spent by blast
qed

text \<open>In the witness the wallet pays, then hears of the settlement of another token.\<close>

lemma spent_tokens_stay_out_witness:
  "\<exists>w. cash_step toy_ed25519 (demo_wallet 2 [(''a'', 10)]) w \<and> ''a'' \<in> dict_keys (cw_str (wallet_sync [''b''] w)) \<and>
     (\<forall>t. tk_token_id t = ''a'' \<longrightarrow> receive_token toy_ed25519 (token_to_json t) (wallet_sync [''b''] w) =
        (False, wallet_sync [''b''] w))"
proof -
  let ?w = "demo_wallet 2 [(''a'', 10)]"
  obtain w where step: "cash_step toy_ed25519 ?w w" and str: "''a'' \<in> dict_keys (cw_str w)"
    and utr: "''a'' \<notin> dict_keys (cw_utr w)" by (rule demo_wallet_pays)
  let ?w' = "wallet_sync [''b''] w"
  let ?R = "\<lambda>a b. cash_step toy_ed25519 a b \<and> (\<forall>ids. ''a'' \<in> set ids \<longrightarrow> b \<noteq> wallet_sync ids a) \<and>
      (\<forall>t. tk_token_id t = ''a'' \<longrightarrow> add_token toy_ed25519 t a \<noteq> Inr b)"
  have kept: "''a'' \<in> dict_keys (cw_str ?w')" "''a'' \<notin> dict_keys (cw_utr ?w')"
    using str utr by (simp_all add: wallet_sync_registers del: set_map)
  have "cash_step toy_ed25519 w ?w' \<and> (\<forall>ids. ''a'' \<in> set ids \<longrightarrow> ?w' \<noteq> wallet_sync ids w) \<and>
      (\<forall>t. tk_token_id t = ''a'' \<longrightarrow> add_token toy_ed25519 t w \<noteq> Inr ?w')"
  proof (intro conjI allI impI)
    show "?w' \<noteq> wallet_sync ids w" if "''a'' \<in> set ids" for ids
      using kept(1) that wallet_sync_registers(2) [of ids w] by (metis DiffD2)
    show "add_token toy_ed25519 t w \<noteq> Inr ?w'" if "tk_token_id t = ''a''" for t
    proof
      assume eq: "add_token toy_ed25519 t w = Inr ?w'"
      from add_token_registers(1) [OF eq] that have "''a'' \<in> dict_keys (cw_utr ?w')" by (simp only: insertI1)
      with kept(2) show False by (rule notE)
    qed
  qed (rule cash_step.Sync)
  then have "?R\<^sup>*\<^sup>* w ?w'" by (rule r_into_rtranclp [of ?R w ?w'])
  from spent_tokens_stay_out [OF str utr this]
  have "\<forall>t. tk_token_id t = ''a'' \<longrightarrow> receive_token toy_ed25519 (token_to_json t) ?w' = (False, ?w')"
    using token_payload_roundtrip by (elim conjE) (rule allI, rule impI, simp only:)
  with step kept(1) show ?thesis by (intro exI [of _ w] conjI)
qed

text \<open>
  A wallet whose balance covers the price can pay it: the payment returns, the payloads are
  the JSON of different tokens of the wallet worth at least the price, each valid and now owned by
  the receiver, and the balance falls by exactly their value as they move from UTR to STR.
\<close>
theorem payment_succeeds:
  assumes "ed_ok C" and "wallet_inv C w" and "holds_key C w"
    and "nonneg (map snd (cw_utr w))" and "0 \<le> price" and "price \<le> dict_total tk_value (cw_utr w)"
  shows "\<exists>sent w'. initiate_payment C st price receiver_pk w = (Inr (map token_to_json sent), w') \<and>
    price \<le> value_of sent \<and> distinct (map tk_token_id sent) \<and>
    dict_total tk_value (cw_utr w') = dict_total tk_value (cw_utr w) - value_of sent \<and>
    dict_keys (cw_utr w') = dict_keys (cw_utr w) - tk_token_id ` set sent \<and>
    dict_keys (cw_str w') = dict_keys (cw_str w) \<union> tk_token_id ` set sent \<and>
    tk_token_id ` set sent \<subseteq> dict_keys (cw_utr w) \<and>
    (\<forall>t \<in> set sent. tk_owner_pk t = receiver_pk \<and> validate_chain C (tk_issuer_pk t) t)"
  using assms by (rule initiate_payment_succeeds)

lemma payment_succeeds_witness:
  "\<exists>sent w'. initiate_payment toy_ed25519 demo_stamps 6 (demo_key 3)
      (demo_wallet 2 [(''a'', 10), (''b'', 2), (''c'', 4)]) = (Inr (map token_to_json sent), w') \<and>
    6 \<le> value_of sent \<and> dict_total tk_value (cw_utr w') = 16 - value_of sent"
  using payment_succeeds [of toy_ed25519 "demo_wallet 2 [(''a'', 10), (''b'', 2), (''c'', 4)]" 6 demo_stamps
      "demo_key 3"] by (fastforce simp: split_beta)

section \<open>Gaps\<close>

text \<open>
  \<open>add_token\<close> takes back a token that the wallet has already spent: unlike
  \<open>receive_token\<close> it does not look into the STR.
\<close>

theorem add_token_readmits_spent:
  "\<exists>w w'. wallet_inv toy_ed25519 w \<and> ''a'' \<in> dict_keys (cw_str w) \<and>
     add_token toy_ed25519 (demo_token 2 ''a'' 10) w = Inr w' \<and> ''a'' \<in> dict_keys (cw_utr w')"
proof -
  obtain w2 where step: "cash_step toy_ed25519 (demo_wallet 2 [(''a'', 10)]) w2"
    and str: "''a'' \<in> dict_keys (cw_str w2)"
    by (rule demo_wallet_pays) blast
  have "wallet_inv toy_ed25519 w2" and own: "cw_owner_pk w2 = demo_key 2"
    using cash_step_inv [OF toy_ed25519_ok step] by simp_all
  moreover have "add_token toy_ed25519 (demo_token 2 ''a'' 10) w2 =
      Inr (w2\<lparr>cw_utr := AList.update ''a'' (demo_token 2 ''a'' 10) (cw_utr w2)\<rparr>)"
    by (simp add: add_token_def own)
  ultimately show ?thesis using str
    by (intro exI [of _ w2] exI conjI) (assumption | simp add: dict_keys_update)+
qed

text \<open>
  A confirmed settlement clears the STR of the token: an old payload of it, from before it was
  spent, is then received like a new one.
\<close>

lemma settled_token_received_again:
  assumes "tk_owner_pk t = cw_owner_pk w" and "validate_chain C (tk_issuer_pk t) t"
  shows "\<exists>w'. receive_token C (token_to_json t) (wallet_sync [tk_token_id t] w) = (True, w') \<and>
    tk_token_id t \<in> dict_keys (cw_utr w')"
proof -
  have "map_of (cw_str (wallet_sync [tk_token_id t] w)) (tk_token_id t) = None"
    by (simp add: map_of_eq_None_iff wallet_sync_registers del: set_map)
  then show ?thesis
    unfolding receive_token_True_iff using assms token_payload_roundtrip [of t]
    by (intro exI conjI refl) (assumption | simp add: wallet_sync_def dict_keys_update)+
qed

text \<open>
  When no exact combination exists the selection is not minimal: it takes the smallest tokens
  first, three of them where one would do.
\<close>

theorem select_tokens_not_minimal:
  "select_tokens (demo_wallet 2 [(''a'', 1), (''b'', 5), (''c'', 10)]) 9 =
     Inr [demo_token 2 ''a'' 1, demo_token 2 ''b'' 5, demo_token 2 ''c'' 10]"
  by (simp add: select_tokens_def find_exact_token_subset_def)

end
