(* ===== verification/CashProtocol.thy ===== *)
theory CashProtocol
  imports CashWallet
begin

text \<open>
  \<open>protocol/transfer_protocol.py\<close>, \<open>protocol/payment_session.py\<close> and \<open>protocol/cash_payment.py\<close>:
  the two-phase transfer over a channel and the payment session with change and rollback. The two
  wallets of a session are different objects. The lemmas show that a transfer delivers, that a
  session is all or nothing, what a successful session moves, and when it succeeds.
\<close>

section \<open>Channel\<close>

record discovery_message =
  dm_sender_pk :: string
  dm_receiver_pk :: string
  dm_session_id :: string

record transfer_payload =
  tp_session_id :: string
  tp_nonce :: int
  tp_token_json :: string
  tp_transfer_signature :: string

record channel =
  ch_discoveries :: "(string, discovery_message) dict"
  ch_payloads :: "(string, transfer_payload) dict"

definition new_channel :: channel where
  "new_channel = \<lparr>ch_discoveries = [], ch_payloads = []\<rparr>"

definition open_session ::
  "string \<Rightarrow> string \<Rightarrow> string \<Rightarrow> channel \<Rightarrow> discovery_message \<times> channel" where
  "open_session uuid sender_pk receiver_pk ch =
     (let session = \<lparr>dm_sender_pk = sender_pk, dm_receiver_pk = receiver_pk, dm_session_id = uuid\<rparr>
      in (session,
          ch\<lparr>ch_discoveries := AList.update (dm_session_id session) session (ch_discoveries ch)\<rparr>))"

definition send_transfer_payload :: "transfer_payload \<Rightarrow> channel \<Rightarrow> channel res" where
  "send_transfer_payload payload ch =
     (case map_of (ch_discoveries ch) (tp_session_id payload) of
        None \<Rightarrow> Inl (ValueError ''unknown session'')
      | Some _ \<Rightarrow>
          if tp_nonce payload \<le> 0 then Inl (ValueError ''nonce must be positive'')
          else Inr (ch\<lparr>ch_payloads := AList.update (tp_session_id payload) payload (ch_payloads ch)\<rparr>))"

definition receive_transfer_payload :: "string \<Rightarrow> string \<Rightarrow> channel \<Rightarrow> transfer_payload res" where
  "receive_transfer_payload session_id receiver_pk ch =
     (case map_of (ch_discoveries ch) session_id of
        None \<Rightarrow> Inl (ValueError ''unknown session'')
      | Some discovery \<Rightarrow>
          if dm_receiver_pk discovery \<noteq> receiver_pk
          then Inl (ValueError ''receiver public key mismatch'')
          else of_option (ValueError ''payload not available'')
                 (map_of (ch_payloads ch) session_id))"

text \<open>\<open>not x\<close> on a JSON value.\<close>

fun json_falsy :: "json \<Rightarrow> bool" where
  "json_falsy JNull = True"
| "json_falsy (JBool b) = (\<not> b)"
| "json_falsy (JInt i) = (i = 0)"
| "json_falsy (JFloat us) = (us = 0)"
| "json_falsy (JStr s) = (s = [])"
| "json_falsy (JList xs) = (xs = [])"
| "json_falsy (JObj kvs) = (kvs = [])"

definition build_payload_from_wallet_send ::
  "string \<Rightarrow> int \<Rightarrow> string \<Rightarrow> transfer_payload res" where
  "build_payload_from_wallet_send session_id nonce token_json =
     bind_res (bind_res (parse_json token_json) json_obj) (\<lambda>data.
     let transfer_chain = json_get ''transfer_chain'' (JList []) data
     in if json_falsy transfer_chain
        then Inl (ValueError ''token payload missing transfer chain'')
        else bind_res (json_list transfer_chain) (\<lambda>records.
             bind_res (json_obj (last records)) (\<lambda>record.
             bind_res (bind_res (json_field ''signature'' record) json_str) (\<lambda>transfer_signature.
             Inr \<lparr>tp_session_id = session_id, tp_nonce = nonce, tp_token_json = token_json,
               tp_transfer_signature = transfer_signature\<rparr>))))"

text \<open>
  The result beside the sender's wallet, the receiver's wallet and the channel: an exception after
  \<open>send_token\<close> leaves the sender's wallet changed.
\<close>

definition transfer_over_channel ::
  "ed25519 \<Rightarrow> string \<Rightarrow> (nat \<Rightarrow> stamp) \<Rightarrow> int \<Rightarrow> cash_wallet \<Rightarrow> cash_wallet \<Rightarrow> channel \<Rightarrow>
     bool res \<times> cash_wallet \<times> cash_wallet \<times> channel" where
  "transfer_over_channel C uuid st nonce sender receiver ch =
     (let (discovery, ch1) = open_session uuid (cw_owner_pk sender) (cw_owner_pk receiver) ch;
          (sent, sender1) = send_token C st (dm_receiver_pk discovery) sender
      in case sent of
           Inl e \<Rightarrow> (Inl e, sender1, receiver, ch1)
         | Inr token_json \<Rightarrow>
             (case bind_res (build_payload_from_wallet_send (dm_session_id discovery) nonce token_json)
                     (\<lambda>payload. send_transfer_payload payload ch1) of
                Inl e \<Rightarrow> (Inl e, sender1, receiver, ch1)
              | Inr ch2 \<Rightarrow>
                  (case receive_transfer_payload (dm_session_id discovery) (cw_owner_pk receiver) ch2 of
                     Inl e \<Rightarrow> (Inl e, sender1, receiver, ch2)
                   | Inr inbound \<Rightarrow>
                       let (ok, receiver1) = receive_token C (tp_token_json inbound) receiver
                       in (Inr ok, sender1, receiver1, ch2))))"

section \<open>Payment session\<close>

text \<open>\<open>_token_from_json\<close> drops the chain and takes the owner and signature fields as required.\<close>

definition token_from_json :: "string \<Rightarrow> token res" where
  "token_from_json payload =
     bind_res (bind_res (parse_json payload) json_obj) (\<lambda>data.
     bind_res (bind_res (json_field ''token_id'' data) json_str) (\<lambda>token_id.
     bind_res (bind_res (json_field ''value'' data) json_int) (\<lambda>val.
     bind_res (bind_res (json_field ''issuer_pk'' data) json_str) (\<lambda>issuer_pk.
     bind_res (bind_res (json_field ''owner_pk'' data) json_str) (\<lambda>owner_pk.
     bind_res (bind_res (json_field ''expiry'' data) json_str) (\<lambda>expiry.
     bind_res (bind_res (json_field ''issuer_signature'' data) json_str) (\<lambda>issuer_signature.
     Inr \<lparr>tk_token_id = token_id, tk_value = val, tk_issuer_pk = issuer_pk,
       tk_owner_pk = owner_pk, tk_expiry = expiry, tk_issuer_signature = issuer_signature,
       tk_transfer_chain = []\<rparr>)))))))"

text \<open>The receiving loops: they stop at the first payload that is rejected.\<close>

fun receive_all :: "ed25519 \<Rightarrow> string list \<Rightarrow> cash_wallet \<Rightarrow> bool \<times> cash_wallet" where
  "receive_all C [] w = (True, w)"
| "receive_all C (p # ps) w =
     (let (ok, w1) = receive_token C p w
      in if \<not> ok then (False, w1) else receive_all C ps w1)"

text \<open>
  The body of the \<open>try\<close>: the outcome and the two wallets at the point where the block was left.
\<close>

definition session_body ::
  "ed25519 \<Rightarrow> (nat \<Rightarrow> stamp) \<Rightarrow> (nat \<Rightarrow> stamp) \<Rightarrow> int \<Rightarrow> cash_wallet \<Rightarrow> cash_wallet \<Rightarrow>
     (string list \<times> string list) res \<times> cash_wallet \<times> cash_wallet" where
  "session_body C st st' price sender receiver =
     (case initiate_payment C st price (cw_owner_pk receiver) sender of
        (Inl e, sender1) \<Rightarrow> (Inl e, sender1, receiver)
      | (Inr payment_payloads, sender1) \<Rightarrow>
          (case receive_all C payment_payloads receiver of
             (False, receiver1) \<Rightarrow>
               (Inl (ValueError ''receiver rejected payment token''), sender1, receiver1)
           | (True, receiver1) \<Rightarrow>
               (case bind_res (map_res token_from_json payment_payloads)
                       (\<lambda>inbound_tokens. process_payment inbound_tokens price receiver1) of
                  Inl e \<Rightarrow> (Inl e, sender1, receiver1)
                | Inr change_tokens \<Rightarrow>
                    (case send_tokens C st' (cw_owner_pk sender1) change_tokens receiver1 of
                       (Inl e, receiver2) \<Rightarrow> (Inl e, sender1, receiver2)
                     | (Inr change_payloads, receiver2) \<Rightarrow>
                         (case receive_all C change_payloads sender1 of
                            (False, sender2) \<Rightarrow>
                              (Inl (ValueError ''sender rejected change token''), sender2, receiver2)
                          | (True, sender2) \<Rightarrow>
                              (Inr (payment_payloads, change_payloads), sender2, receiver2))))))"

definition execute_session ::
  "ed25519 \<Rightarrow> (nat \<Rightarrow> stamp) \<Rightarrow> (nat \<Rightarrow> stamp) \<Rightarrow> int \<Rightarrow> cash_wallet \<Rightarrow> cash_wallet \<Rightarrow>
     (string list \<times> string list) res \<times> cash_wallet \<times> cash_wallet" where
  "execute_session C st st' price sender receiver =
     (let sender_utr = cw_utr sender; sender_str = cw_str sender;
          receiver_utr = cw_utr receiver; receiver_str = cw_str receiver
      in case session_body C st st' price sender receiver of
           (Inl e, sender1, receiver1) \<Rightarrow>
             (Inl e, sender1\<lparr>cw_utr := sender_utr, cw_str := sender_str\<rparr>,
              receiver1\<lparr>cw_utr := receiver_utr, cw_str := receiver_str\<rparr>)
         | (Inr payloads, sender1, receiver1) \<Rightarrow> (Inr payloads, sender1, receiver1))"

definition execute_cash_payment ::
  "ed25519 \<Rightarrow> (nat \<Rightarrow> stamp) \<Rightarrow> (nat \<Rightarrow> stamp) \<Rightarrow> cash_wallet \<Rightarrow> cash_wallet \<Rightarrow> int \<Rightarrow>
     (string list \<times> string list) res \<times> cash_wallet \<times> cash_wallet" where
  "execute_cash_payment C st st' sender_wallet receiver_wallet price =
     execute_session C st st' price sender_wallet receiver_wallet"

section \<open>Reading what a wallet has sent\<close>

lemma token_from_json_sent:
  "token_from_json (token_to_json t) = Inr (t\<lparr>tk_transfer_chain := []\<rparr>)"
  by (simp add: token_from_json_def parse_token_json)
    (simp add: token_to_ordered_dict_def json_field_def)

lemma map_token_from_json_sent:
  "map_res token_from_json (map token_to_json ts) = Inr (map (\<lambda>t. t\<lparr>tk_transfer_chain := []\<rparr>) ts)"
  by (induction ts) (simp_all add: token_from_json_sent)

lemma build_payload_sent:
  assumes "tk_transfer_chain t \<noteq> []"
  shows "build_payload_from_wallet_send sid n (token_to_json t) =
    Inr \<lparr>tp_session_id = sid, tp_nonce = n, tp_token_json = token_to_json t,
      tp_transfer_signature = tr_signature (last (tk_transfer_chain t))\<rparr>"
  using assms by (simp add: build_payload_from_wallet_send_def parse_token_json)
    (simp add: token_to_ordered_dict_def json_get_def Let_def last_map json_field_def
      tr_to_dict_def tr_signing_dict_def)

text \<open>Receiving tokens that were sent to the wallet.\<close>

abbreviation after_receive :: "token list \<Rightarrow> cash_wallet \<Rightarrow> cash_wallet" where
  "after_receive ts w \<equiv> w\<lparr>cw_utr := fold (\<lambda>t. AList.update (tk_token_id t) t) ts (cw_utr w)\<rparr>"

lemma receive_sent_iff:
  "receive_token C (token_to_json t) w = (True, w') \<longleftrightarrow>
     tk_owner_pk t = cw_owner_pk w \<and> validate_chain C (tk_issuer_pk t) t \<and>
     tk_token_id t \<notin> dict_keys (cw_str w) \<and>
     w' = w\<lparr>cw_utr := AList.update (tk_token_id t) t (cw_utr w)\<rparr>"
  by (auto simp: receive_token_True_iff token_payload_roundtrip map_of_eq_None_iff simp del: set_map)

lemma receive_all_Cons_True:
  "receive_all C (p # ps) w = (True, w') \<longleftrightarrow>
     (\<exists>w1. receive_token C p w = (True, w1) \<and> receive_all C ps w1 = (True, w'))"
  by (cases "receive_token C p w") auto

lemma receive_all_sent_iff:
  "receive_all C (map token_to_json ts) w = (True, w') \<longleftrightarrow>
     (\<forall>t \<in> set ts. tk_owner_pk t = cw_owner_pk w \<and> validate_chain C (tk_issuer_pk t) t \<and>
        tk_token_id t \<notin> dict_keys (cw_str w)) \<and> w' = after_receive ts w"
proof (induction ts arbitrary: w)
  case (Cons t ts)
  have "receive_all C (map token_to_json (t # ts)) w = (True, w') \<longleftrightarrow>
    tk_owner_pk t = cw_owner_pk w \<and> validate_chain C (tk_issuer_pk t) t \<and>
    tk_token_id t \<notin> dict_keys (cw_str w) \<and>
    receive_all C (map token_to_json ts) (after_receive [t] w) = (True, w')"
    unfolding list.map receive_all_Cons_True receive_sent_iff by (simp del: set_map)
  then show ?case unfolding Cons.IH by (simp del: set_map)
qed auto

lemma receive_all_inv:
  assumes "receive_all C ps w = (b, w')"
  shows "cw_owner_pk w' = cw_owner_pk w" "cw_keystore w' = cw_keystore w" "cw_str w' = cw_str w"
    "wallet_inv C w \<Longrightarrow> wallet_inv C w'" "holds_key C w' = holds_key C w"
proof -
  have one: "cw_owner_pk w' = cw_owner_pk w \<and> cw_keystore w' = cw_keystore w \<and> cw_str w' = cw_str w"
    if "receive_token C p w = (b, w')" for p w w' b
    using that receive_token_True_iff [of C p w w'] receive_token_False [of C p w w'] by (cases b) auto
  have "cw_owner_pk w' = cw_owner_pk w \<and> cw_keystore w' = cw_keystore w \<and> cw_str w' = cw_str w \<and>
      (wallet_inv C w \<longrightarrow> wallet_inv C w')"
    using assms
  proof (induction ps arbitrary: w)
    case (Cons p ps)
    obtain ok w1 where r: "receive_token C p w = (ok, w1)" by fastforce
    have inv1: "wallet_inv C w \<longrightarrow> wallet_inv C w1" using receive_token_inv(1) [OF _ r] by blast
    note same = one [OF r]
    show ?case
    proof (cases ok)
      case True
      with Cons.prems r have "receive_all C ps w1 = (b, w')" by simp
      from Cons.IH [OF this] same inv1 show ?thesis by simp
    next
      case False
      with Cons.prems r have "w' = w1" by simp
      with same inv1 show ?thesis by simp
    qed
  qed simp
  then show "cw_owner_pk w' = cw_owner_pk w" "cw_keystore w' = cw_keystore w" "cw_str w' = cw_str w"
    "wallet_inv C w \<Longrightarrow> wallet_inv C w'" "holds_key C w' = holds_key C w"
    by (simp_all add: holds_key_cong [of w' w])
qed

lemma after_receive_effect:
  assumes "dict_wf (cw_utr w)" and "distinct (map tk_token_id ts)"
    and "tk_token_id ` set ts \<inter> dict_keys (cw_utr w) = {}"
  shows "dict_total tk_value (cw_utr (after_receive ts w)) = dict_total tk_value (cw_utr w) + value_of ts"
    and "dict_keys (cw_utr (after_receive ts w)) = dict_keys (cw_utr w) \<union> tk_token_id ` set ts"
    and "cw_utr (after_receive ts w) = cw_utr w @ map (\<lambda>t. (tk_token_id t, t)) ts"
proof -
  have "fold (\<lambda>t. AList.update (tk_token_id t) t) ts d = d @ map (\<lambda>t. (tk_token_id t, t)) ts"
    if "distinct (map tk_token_id ts)" "tk_token_id ` set ts \<inter> dict_keys d = {}" for d
    using that
  proof (induction ts arbitrary: d)
    case (Cons t ts)
    have "AList.update (tk_token_id t) t d = d @ [(tk_token_id t, t)]"
      using Cons.prems(2) by (intro dict_update_new) simp
    with Cons show ?case by auto
  qed simp
  from this [OF assms(2,3)] show
    "cw_utr (after_receive ts w) = cw_utr w @ map (\<lambda>t. (tk_token_id t, t)) ts" by simp
  then show "dict_total tk_value (cw_utr (after_receive ts w)) = dict_total tk_value (cw_utr w) + value_of ts"
    by (simp add: dict_total_def comp_def)
  show "dict_keys (cw_utr (after_receive ts w)) = dict_keys (cw_utr w) \<union> tk_token_id ` set ts"
    by (simp add: fold_update_keys)
qed

section \<open>What the steps of a session leave alone\<close>

lemma send_loop_owner:
  "send_loop C st sk rpk i ts w = (r, w') \<Longrightarrow>
     cw_owner_pk w' = cw_owner_pk w \<and> cw_keystore w' = cw_keystore w"
  by (induction ts arbitrary: w i r)
    (fastforce simp: Let_def split: option.splits sum.splits prod.splits)+

lemma send_tokens_owner:
  "send_tokens C st rpk ts w = (r, w') \<Longrightarrow>
     cw_owner_pk w' = cw_owner_pk w \<and> cw_keystore w' = cw_keystore w"
  by (auto simp: send_tokens_def dest: send_loop_owner split: sum.splits)

lemma initiate_payment_owner:
  "initiate_payment C st price rpk w = (r, w') \<Longrightarrow>
     cw_owner_pk w' = cw_owner_pk w \<and> cw_keystore w' = cw_keystore w"
  using initiate_is_send send_tokens_owner by blast

lemma receive_all_owner:
  "receive_all C ps w = (b, w') \<Longrightarrow>
     cw_owner_pk w' = cw_owner_pk w \<and> cw_keystore w' = cw_keystore w"
  using receive_all_inv(1,2) by blast

lemma session_body_owner:
  assumes "session_body C st st' price s r = (res, s', r')"
  shows "cw_owner_pk s' = cw_owner_pk s \<and> cw_keystore s' = cw_keystore s \<and>
    cw_owner_pk r' = cw_owner_pk r \<and> cw_keystore r' = cw_keystore r"
  using assms unfolding session_body_def
  by (auto split: sum.splits prod.splits bool.splits
      dest!: initiate_payment_owner send_tokens_owner receive_all_owner)

lemma wallet_restore:
  fixes w w' :: cash_wallet
  shows "cw_owner_pk w' = cw_owner_pk w \<Longrightarrow> cw_keystore w' = cw_keystore w \<Longrightarrow>
     w'\<lparr>cw_utr := cw_utr w, cw_str := cw_str w\<rparr> = w"
  by (rule cash_wallet.equality) simp_all

lemma execute_session_rollback:
  assumes "execute_session C st st' price s r = (Inl e, s', r')"
  shows "s' = s \<and> r' = r"
proof -
  obtain res s1 r1 where body: "session_body C st st' price s r = (res, s1, r1)"
    by (metis prod_cases3)
  note own = session_body_owner [OF body]
  from assms body have "s' = s1\<lparr>cw_utr := cw_utr s, cw_str := cw_str s\<rparr>"
    "r' = r1\<lparr>cw_utr := cw_utr r, cw_str := cw_str r\<rparr>"
    by (auto simp: execute_session_def Let_def split: sum.splits)
  with own wallet_restore [of s1 s] wallet_restore [of r1 r] show ?thesis by simp
qed

section \<open>What a successful session has done\<close>

lemma process_payment_sent:
  "process_payment (map (\<lambda>t. t\<lparr>tk_transfer_chain := []\<rparr>) ts) price w =
     (if value_of ts < price then Inl (ValueError ''reject_payment: total paid less than price'')
      else select_tokens w (value_of ts - price))"
  by (simp add: process_payment_def comp_def Let_def)

text \<open>The steps of a successful session, one by one.\<close>

lemma session_steps:
  assumes ok: "ed_ok C" and inv: "wallet_inv C s" "wallet_inv C r"
    and key: "holds_key C s" "holds_key C r"
    and run: "execute_session C st st' price s r = (Inr (ps, cs), s', r')"
  obtains sel paid change returned sk sk' where
    "select_tokens s price = Inr sel" "list_all2 (handed_over C sk (cw_owner_pk r)) sel paid"
    "b64_keypair C sk (cw_owner_pk s)" "b64_keypair C sk' (cw_owner_pk r)"
    "ps = map token_to_json paid"
    "\<forall>t \<in> set paid. tk_token_id t \<notin> dict_keys (cw_str r)"
    "wallet_inv C (after_receive paid r)"
    "select_tokens (after_receive paid r) (value_of paid - price) = Inr change"
    "list_all2 (handed_over C sk' (cw_owner_pk s)) change returned" "cs = map token_to_json returned"
    "\<forall>t \<in> set returned. tk_token_id t \<notin> dict_keys (cw_str (after_send sel paid s))"
    "s' = after_receive returned (after_send sel paid s)"
    "r' = after_send change returned (after_receive paid r)"
proof -
  from run have body: "session_body C st st' price s r = (Inr (ps, cs), s', r')"
    by (auto simp: execute_session_def Let_def split: sum.splits prod.splits)
  then obtain sel where sel: "select_tokens s price = Inr sel"
    by (cases "select_tokens s price") (auto simp: session_body_def initiate_payment_def)
  obtain sk paid where ho: "list_all2 (handed_over C sk (cw_owner_pk r)) sel paid"
    and kp: "b64_keypair C sk (cw_owner_pk s)"
    and pay: "initiate_payment C st price (cw_owner_pk r) s =
      (Inr (map token_to_json paid), after_send sel paid s)"
    by (rule initiate_payment_Inr [OF ok inv(1) key(1) sel])
  obtain r1 where rcv: "receive_all C (map token_to_json paid) r = (True, r1)"
    using body pay by (auto simp: session_body_def split: prod.splits bool.splits)
  then have r1: "r1 = after_receive paid r"
    and fresh: "\<forall>t \<in> set paid. tk_token_id t \<notin> dict_keys (cw_str r)"
    by (simp_all only: receive_all_sent_iff) blast
  have inv1: "wallet_inv C (after_receive paid r)" "holds_key C (after_receive paid r)"
    using receive_all_inv(4,5) [OF rcv] inv(2) key(2) r1 by simp_all
  obtain change where change: "select_tokens (after_receive paid r) (value_of paid - price) = Inr change"
    and rest: "(case send_tokens C st' (cw_owner_pk s) change (after_receive paid r) of
      (Inl e, r2) \<Rightarrow> (Inl e, after_send sel paid s, r2)
    | (Inr qs, r2) \<Rightarrow> (case receive_all C qs (after_send sel paid s) of
        (False, s2) \<Rightarrow> (Inl (ValueError ''sender rejected change token''), s2, r2)
      | (True, s2) \<Rightarrow> (Inr (map token_to_json paid, qs), s2, r2))) = (Inr (ps, cs), s', r')"
    using body pay rcv r1
    by (auto simp: session_body_def map_token_from_json_sent process_payment_sent
        split: sum.splits if_splits)
  obtain sk' returned where ho': "list_all2 (handed_over C sk' (cw_owner_pk s)) change returned"
    and kp': "b64_keypair C sk' (cw_owner_pk (after_receive paid r))"
    and snd: "send_tokens C st' (cw_owner_pk s) change (after_receive paid r) =
      (Inr (map token_to_json returned), after_send change returned (after_receive paid r))"
    using send_selected [OF ok inv1 select_tokens_in_utr [OF wallet_inv_keyed [OF inv1(1)] change]]
    by blast
  obtain s2 where rcv2: "receive_all C (map token_to_json returned) (after_send sel paid s) = (True, s2)"
    and out: "ps = map token_to_json paid" "cs = map token_to_json returned" "s' = s2"
      "r' = after_send change returned (after_receive paid r)"
    using rest snd by (auto split: prod.splits bool.splits)
  from rcv2 have s2: "s2 = after_receive returned (after_send sel paid s)"
    and fresh2: "\<forall>t \<in> set returned. tk_token_id t \<notin> dict_keys (cw_str (after_send sel paid s))"
    by (simp_all only: receive_all_sent_iff) blast
  show ?thesis
    by (rule that [OF sel ho kp _ out(1) fresh inv1(1) change ho' out(2) fresh2])
      (use kp' s2 out in simp_all)
qed

text \<open>
  The accounts of a successful session when the two wallets hold different tokens.
\<close>

lemma session_accounts:
  assumes ok: "ed_ok C" and inv: "wallet_inv C s" "wallet_inv C r"
    and key: "holds_key C s" "holds_key C r"
    and disj: "dict_keys (cw_utr s) \<inter> dict_keys (cw_utr r) = {}"
    and run: "execute_session C st st' price s r = (Inr (ps, cs), s', r')"
  shows "\<exists>paid change. ps = map token_to_json paid \<and> cs = map token_to_json change \<and>
    price \<le> value_of paid \<and> value_of paid - price \<le> value_of change \<and>
    tk_token_id ` set paid \<subseteq> dict_keys (cw_utr s) \<and>
    tk_token_id ` set change \<subseteq> dict_keys (cw_utr r) \<and>
    dict_total tk_value (cw_utr s') =
      dict_total tk_value (cw_utr s) - value_of paid + value_of change \<and>
    dict_total tk_value (cw_utr r') =
      dict_total tk_value (cw_utr r) + value_of paid - value_of change"
proof -
  obtain sel paid change given sk sk' where sel: "select_tokens s price = Inr sel"
    and ho: "list_all2 (handed_over C sk (cw_owner_pk r)) sel paid"
    and kp: "b64_keypair C sk (cw_owner_pk s)" "b64_keypair C sk' (cw_owner_pk r)"
    and ps: "ps = map token_to_json paid" and "\<forall>t \<in> set paid. tk_token_id t \<notin> dict_keys (cw_str r)"
    and inv1: "wallet_inv C (after_receive paid r)"
    and change: "select_tokens (after_receive paid r) (value_of paid - price) = Inr change"
    and ho': "list_all2 (handed_over C sk' (cw_owner_pk s)) change given"
    and cs: "cs = map token_to_json given"
    and fresh: "\<forall>t \<in> set given. tk_token_id t \<notin> dict_keys (cw_str (after_send sel paid s))"
    and s': "s' = after_receive given (after_send sel paid s)"
    and r': "r' = after_send change given (after_receive paid r)"
    by (rule session_steps [OF ok inv key run])
  note e1 = sent_effect [OF ok inv(1) ho kp(1) select_tokens_in_utr [OF wallet_inv_keyed [OF inv(1)] sel]]
  have "tk_token_id ` set paid \<inter> dict_keys (cw_utr r) = {}" using e1(4) disj by blast
  note rc1 = after_receive_effect [OF wallet_inv_keyed(1) [OF inv(2)] e1(5) this]
  have "b64_keypair C sk' (cw_owner_pk (after_receive paid r))" using kp(2) by simp
  note e2 = sent_effect [OF ok inv1 ho' this
      select_tokens_in_utr [OF wallet_inv_keyed [OF inv1] change]]
  have sub: "tk_token_id ` set given \<subseteq> dict_keys (cw_utr r)"
    using e2(4) fresh unfolding rc1(2) e1(3) by blast
  have "tk_token_id ` set given \<inter> dict_keys (cw_utr (after_send sel paid s)) = {}"
    using sub disj unfolding e1(2) by blast
  moreover have "dict_wf (cw_utr (after_send sel paid s))"
    using wallet_inv_keyed(1) [OF inv(1)] by (simp add: fold_delete_wf)
  ultimately have rc2: "dict_total tk_value (cw_utr s') =
      dict_total tk_value (cw_utr (after_send sel paid s)) + value_of given"
    using after_receive_effect(1) [of "after_send sel paid s" given] e2(5) s' by simp
  show ?thesis
    using ps cs sub e1(1,4,7) e2(1,7) rc1(1) rc2 select_tokens_Inr(2) [OF sel]
      select_tokens_Inr(2) [OF change] r'
    by (intro exI [of _ paid] exI [of _ given]) simp
qed

section \<open>When a session succeeds\<close>

text \<open>
  The receiver must be able to give change without the tokens just received, which the sender
  would have to reject.
\<close>

lemma session_succeeds:
  assumes ok: "ed_ok C" and inv: "wallet_inv C s" "wallet_inv C r"
    and key: "holds_key C s" "holds_key C r"
    and sel: "select_tokens s price = Inr sel"
    and fresh: "tk_token_id ` set sel \<inter> dict_keys (cw_str r) = {}"
    and change: "\<And>sk paid. list_all2 (handed_over C sk (cw_owner_pk r)) sel paid \<Longrightarrow>
      \<exists>change. select_tokens (after_receive paid r) (value_of paid - price) = Inr change \<and>
        tk_token_id ` set change \<inter> (dict_keys (cw_str s) \<union> tk_token_id ` set sel) = {}"
  obtains sk sk' paid change given where
    "execute_session C st st' price s r =
      (Inr (map token_to_json paid, map token_to_json given),
       after_receive given (after_send sel paid s),
       after_send change given (after_receive paid r))"
    "list_all2 (handed_over C sk (cw_owner_pk r)) sel paid"
    "select_tokens (after_receive paid r) (value_of paid - price) = Inr change"
    "list_all2 (handed_over C sk' (cw_owner_pk s)) change given"
proof -
  obtain sk paid where ho: "list_all2 (handed_over C sk (cw_owner_pk r)) sel paid"
    and kp: "b64_keypair C sk (cw_owner_pk s)"
    and pay: "initiate_payment C st price (cw_owner_pk r) s =
      (Inr (map token_to_json paid), after_send sel paid s)"
    by (rule initiate_payment_Inr [OF ok inv(1) key(1) sel])
  note e1 = sent_effect [OF ok inv(1) ho kp select_tokens_in_utr [OF wallet_inv_keyed [OF inv(1)] sel]]
  have ids: "tk_token_id ` set paid = tk_token_id ` set sel"
    using handed_over_list(1) [OF ho] by (metis list.set_map)
  have rcv: "receive_all C (map token_to_json paid) r = (True, after_receive paid r)"
    using e1(6) fresh ids unfolding receive_all_sent_iff by blast
  have inv1: "wallet_inv C (after_receive paid r)" "holds_key C (after_receive paid r)"
    using receive_all_inv(4,5) [OF rcv] inv(2) key(2) by simp_all
  obtain change where ch: "select_tokens (after_receive paid r) (value_of paid - price) = Inr change"
    and new: "tk_token_id ` set change \<inter> (dict_keys (cw_str s) \<union> tk_token_id ` set sel) = {}"
    using change [OF ho] by blast
  note pool = select_tokens_in_utr [OF wallet_inv_keyed [OF inv1(1)] ch]
  obtain sk' given where ho': "list_all2 (handed_over C sk' (cw_owner_pk s)) change given"
    and kp': "b64_keypair C sk' (cw_owner_pk (after_receive paid r))"
    and snd: "send_tokens C st' (cw_owner_pk s) change (after_receive paid r) =
      (Inr (map token_to_json given), after_send change given (after_receive paid r))"
    using send_selected [OF ok inv1 pool] by blast
  note e2 = sent_effect [OF ok inv1(1) ho' kp' pool]
  have ids': "tk_token_id ` set given = tk_token_id ` set change"
    using handed_over_list(1) [OF ho'] by (metis list.set_map)
  have "tk_token_id ` set given \<inter> dict_keys (cw_str (after_send sel paid s)) = {}"
    using new unfolding e1(3) ids ids' by blast
  then have rcv2: "receive_all C (map token_to_json given) (after_send sel paid s) =
      (True, after_receive given (after_send sel paid s))"
    using e2(6) unfolding receive_all_sent_iff by (simp del: set_map) blast
  have "\<not> value_of paid < price" using select_tokens_Inr(2) [OF sel] e1(7) by simp
  then have "session_body C st st' price s r =
      (Inr (map token_to_json paid, map token_to_json given),
       after_receive given (after_send sel paid s),
       after_send change given (after_receive paid r))"
    using pay rcv ch snd rcv2
    by (simp add: session_body_def map_token_from_json_sent process_payment_sent)
  then show ?thesis
    by (intro that [OF _ ho ch ho']) (simp add: execute_session_def)
qed

lemma select_exact:
  assumes "nonneg (map snd (cw_utr w))" and "subseq u (sort_key tk_value (map snd (cw_utr w)))"
    and "value_of u = price"
  obtains sel where "select_tokens w price = Inr sel" "value_of sel = price"
proof -
  have "nonneg (sort_key tk_value (map snd (cw_utr w)))" using assms(1) by simp
  from find_exact_minimal [OF this assms(2,3)] obtain r where
    r: "find_exact_token_subset (sort_key tk_value (map snd (cw_utr w))) price = Some r" by blast
  have "nonneg u" using assms(1) subseq_subset [OF assms(2)] by (metis set_sort subsetD)
  then have "0 \<le> price" using assms(3) sum_list_nonneg [of "map tk_value u"] by auto
  with r find_exact_Some(2) [OF r] that show ?thesis
    by (cases "price = 0") (auto simp: select_tokens_def)
qed

lemma session_exact:
  assumes ok: "ed_ok C" and inv: "wallet_inv C s" "wallet_inv C r"
    and key: "holds_key C s" "holds_key C r" and nn: "nonneg (map snd (cw_utr s))"
    and disj: "dict_keys (cw_utr s) \<inter> (dict_keys (cw_utr r) \<union> dict_keys (cw_str r)) = {}"
    and exact: "subseq u (sort_key tk_value (map snd (cw_utr s)))" "value_of u = price"
  shows "\<exists>paid s' r'. execute_session C st st' price s r = (Inr (map token_to_json paid, []), s', r') \<and>
    value_of paid = price \<and>
    dict_total tk_value (cw_utr s') = dict_total tk_value (cw_utr s) - price \<and>
    dict_total tk_value (cw_utr r') = dict_total tk_value (cw_utr r) + price"
proof -
  obtain sel where sel: "select_tokens s price = Inr sel" and val: "value_of sel = price"
    by (rule select_exact [OF nn exact])
  have "tk_token_id ` set sel \<subseteq> dict_keys (cw_utr s)"
    using select_tokens_in_utr(2) [OF wallet_inv_keyed [OF inv(1)] sel] by (force dest: map_of_SomeD)
  then have fresh: "tk_token_id ` set sel \<inter> dict_keys (cw_str r) = {}" using disj by blast
  have none: "select_tokens w (value_of paid - price) = Inr []"
    if "list_all2 (handed_over C sk rpk) sel paid" for sk rpk paid w
    using handed_over_list(2) [OF that] val by (simp add: select_tokens_def)
  obtain sk sk' paid change given where
    run: "execute_session C st st' price s r = (Inr (map token_to_json paid, map token_to_json given),
       after_receive given (after_send sel paid s), after_send change given (after_receive paid r))"
    and ho: "list_all2 (handed_over C sk (cw_owner_pk r)) sel paid"
    and ch: "select_tokens (after_receive paid r) (value_of paid - price) = Inr change"
    and ho': "list_all2 (handed_over C sk' (cw_owner_pk s)) change given"
    by (rule session_succeeds [OF ok inv key sel fresh]) (use none in fastforce)+
  from ch ho' none [OF ho] have "change = []" "given = []" by simp_all
  moreover have "value_of paid = price" using handed_over_list(2) [OF ho] val by simp
  moreover have "dict_keys (cw_utr s) \<inter> dict_keys (cw_utr r) = {}" using disj by blast
  note session_accounts [OF ok inv key this run]
  ultimately show ?thesis using run
    by (intro exI [of _ paid]) auto
qed

section \<open>Sending one token\<close>

lemma send_token_least:
  assumes "ed_ok C" and "wallet_inv C w" and "holds_key C w" and "cw_utr w \<noteq> []"
  obtains t t' where "send_token C st rpk w = (Inr (token_to_json t'), after_send [t] [t'] w)"
    "map_of (cw_utr w) (tk_token_id t) = Some t" "\<forall>k \<in> dict_keys (cw_utr w). tk_token_id t \<le> k"
    "tk_token_id t' = tk_token_id t" "tk_value t' = tk_value t" "tk_owner_pk t' = rpk"
    "validate_chain C (tk_issuer_pk t') t'"
    "length (tk_transfer_chain t') = length (tk_transfer_chain t) + 1"
proof -
  obtain tid rest where sorted: "sort (map fst (cw_utr w)) = tid # rest"
    using assms(4) by (metis list.exhaust map_is_Nil_conv set_empty set_sort)
  have set_eq: "set (tid # rest) = dict_keys (cw_utr w)"
    unfolding sorted [symmetric] by simp
  have least: "\<forall>k \<in> dict_keys (cw_utr w). tid \<le> k"
    using sorted_sort [of "map fst (cw_utr w)"] unfolding sorted set_eq [symmetric] by simp
  have "tid \<in> dict_keys (cw_utr w)" using set_eq by auto
  then obtain t where t: "map_of (cw_utr w) tid = Some t"
    by (metis domD dom_map_of_conv_image_fst)
  have tid: "tk_token_id t = tid" using wallet_inv_utr [OF assms(2) t] by simp
  have pool: "distinct (map tk_token_id [t])"
    "\<forall>u \<in> set [t]. map_of (cw_utr w) (tk_token_id u) = Some u" using t tid by simp_all
  obtain sk sent where ho: "list_all2 (handed_over C sk rpk) [t] sent"
    and kp: "b64_keypair C sk (cw_owner_pk w)"
    and send: "send_tokens C st rpk [t] w = (Inr (map token_to_json sent), after_send [t] sent w)"
    using send_selected [OF assms(1-3) pool] by blast
  from ho obtain t' where sent: "sent = [t']" by (auto simp: list_all2_Cons1)
  with ho obtain st1 r where app: "append_transfer C st1 sk rpk t = Inr (r, t')" by auto
  note eff = sent_effect(6) [OF assms(1,2) ho kp pool] and t' = append_transfer_Inr(1) [OF app]
  show ?thesis
    by (rule that [of t' t]) (use sorted t tid send sent least eff t' in \<open>simp_all add: send_token_def\<close>)
qed

section \<open>The demo\<close>

text \<open>
  \<open>main\<close> of \<open>scripts/run_demo.py\<close> without its prints: three key pairs from three seeds, two
  wallets over one key store, the withdrawals and the payment of 6. The result is the outcome of
  the payment with the two wallets.
\<close>

definition wallet_values :: "cash_wallet \<Rightarrow> int list" where
  "wallet_values w = sort (map tk_value (map snd (cw_utr w)))"

definition run_demo ::
  "ed25519 \<Rightarrow> bytes \<Rightarrow> bytes \<Rightarrow> bytes \<Rightarrow> (nat \<Rightarrow> stamp) \<Rightarrow> (nat \<Rightarrow> stamp) \<Rightarrow>
     ((string list \<times> string list) res \<times> cash_wallet \<times> cash_wallet) res" where
  "run_demo C issuer_seed a_seed b_seed st st' =
     (let (issuer_sk, issuer_pk) = b64_generate_keypair C issuer_seed;
          (a_sk, a_pk) = b64_generate_keypair C a_seed;
          (b_sk, b_pk) = b64_generate_keypair C b_seed;
          keystore = add_keypair b_sk b_pk (add_keypair a_sk a_pk []);
          wallet_a = new_wallet a_pk keystore;
          wallet_b = new_wallet b_pk keystore
      in bind_res (mint C issuer_sk issuer_pk a_pk ''a-10'' 10) (\<lambda>a10.
         bind_res (add_token C a10 wallet_a) (\<lambda>wallet_a.
         bind_res (mint C issuer_sk issuer_pk b_pk ''b-2a'' 2) (\<lambda>b2a.
         bind_res (add_token C b2a wallet_b) (\<lambda>wallet_b.
         bind_res (mint C issuer_sk issuer_pk b_pk ''b-2b'' 2) (\<lambda>b2b.
         bind_res (add_token C b2b wallet_b) (\<lambda>wallet_b.
         bind_res (mint C issuer_sk issuer_pk b_pk ''b-1'' 1) (\<lambda>b1.
         bind_res (add_token C b1 wallet_b) (\<lambda>wallet_b.
         Inr (execute_cash_payment C st st' wallet_a wallet_b 6))))))))))"

lemma mint_add:
  assumes "ed_ok C" and "b64_keypair C isk ipk" and "cw_owner_pk w = opk"
  obtains t where "mint C isk ipk opk tid v = Inr t" "tk_token_id t = tid" "tk_value t = v"
    "tk_owner_pk t = opk" "validate_chain C (tk_issuer_pk t) t"
    "add_token C t w = Inr (w\<lparr>cw_utr := AList.update tid t (cw_utr w)\<rparr>)"
proof -
  obtain t where t: "mint C isk ipk opk tid v = Inr t" using mint_returns [OF assms(1,2)] by blast
  note f = mint_Inr [OF t] and valid = mint_valid [OF assms(1,2) t]
  then have "add_token C t w = Inr (w\<lparr>cw_utr := AList.update tid t (cw_utr w)\<rparr>)"
    using assms(3) by (simp add: add_token_def)
  with that [OF t] f valid show ?thesis by simp
qed

lemma demo_session:
  assumes ok: "ed_ok C" and inv: "wallet_inv C a" "wallet_inv C b"
    and key: "holds_key C a" "holds_key C b"
    and utr: "cw_utr a = [(''a-10'', ta)]" "cw_str a = []"
      "cw_utr b = [(''b-2a'', t1), (''b-2b'', t2), (''b-1'', t3)]" "cw_str b = []"
    and ta: "tk_token_id ta = ''a-10''" "tk_value ta = 10"
    and t1: "tk_token_id t1 = ''b-2a''" "tk_value t1 = 2"
    and t2: "tk_token_id t2 = ''b-2b''" "tk_value t2 = 2"
    and t3: "tk_token_id t3 = ''b-1''" "tk_value t3 = 1"
  shows "\<exists>ps cs a' b'. execute_session C st st' 6 a b = (Inr (ps, cs), a', b') \<and>
    length ps = 1 \<and> length cs = 2 \<and> wallet_values a' = [2, 2] \<and> wallet_values b' = [1, 10]"
proof -
  have sel: "select_tokens a 6 = Inr [ta]"
    using ta(2) unfolding select_tokens_def find_exact_token_subset_def utr by simp
  have change: "select_tokens (after_receive [t] b) 4 = Inr [t1, t2]"
    if "tk_token_id t = ''a-10''" "tk_value t = 10" for t
  proof -
    have "cw_utr (after_receive [t] b) =
        [(''b-2a'', t1), (''b-2b'', t2), (''b-1'', t3), (''a-10'', t)]"
      using that(1) utr(3) by simp
    then show ?thesis using t1(2) t2(2) t3(2) that(2)
      unfolding select_tokens_def find_exact_token_subset_def by simp
  qed
  obtain sk sk' paid change given where
    run: "execute_session C st st' 6 a b = (Inr (map token_to_json paid, map token_to_json given),
       after_receive given (after_send [ta] paid a), after_send change given (after_receive paid b))"
    and ho: "list_all2 (handed_over C sk (cw_owner_pk b)) [ta] paid"
    and ch: "select_tokens (after_receive paid b) (value_of paid - 6) = Inr change"
    and ho': "list_all2 (handed_over C sk' (cw_owner_pk a)) change given"
  proof (rule session_succeeds [OF ok inv key sel])
    show "tk_token_id ` set [ta] \<inter> dict_keys (cw_str b) = {}" unfolding utr by simp
    fix sk paid
    assume ho: "list_all2 (handed_over C sk (cw_owner_pk b)) [ta] paid"
    then obtain p where p: "paid = [p]" by (auto simp: list_all2_Cons1)
    with handed_over_list(1,2) [OF ho] ta have "tk_token_id p = ''a-10''" "tk_value p = 10" by simp_all
    with change [of p] p ta(1) t1(1) t2(1) show "\<exists>change. select_tokens (after_receive paid b)
        (value_of paid - 6) = Inr change \<and>
        tk_token_id ` set change \<inter> (dict_keys (cw_str a) \<union> tk_token_id ` set [ta]) = {}"
      unfolding utr by simp
  qed
  from ho obtain p where p: "paid = [p]" by (auto simp: list_all2_Cons1)
  with handed_over_list(1,2) [OF ho] ta have pf: "tk_token_id p = ''a-10''" "tk_value p = 10" by simp_all
  with change [of p] ch p have chg: "change = [t1, t2]" by simp
  with ho' obtain g1 g2 where g: "given = [g1, g2]" by (auto simp: list_all2_Cons1)
  with handed_over_list(1,2) [OF ho'] chg t1 t2
  have gf: "tk_token_id g1 = ''b-2a''" "tk_value g1 = 2" "tk_token_id g2 = ''b-2b''" "tk_value g2 = 2"
    by simp_all
  have "wallet_values (after_receive given (after_send [ta] paid a)) = [2, 2]"
    using utr(1) ta(1) g gf by (simp add: wallet_values_def)
  moreover have "wallet_values (after_send change given (after_receive paid b)) = [1, 10]"
    using utr(3) t1 t2 t3 p pf chg by (simp add: wallet_values_def)
  ultimately show ?thesis using run p g by auto
qed

lemma run_demo_result:
  assumes ok: "ed_ok C" and seeds: "length iseed = 32" "length aseed = 32" "length bseed = 32"
  shows "\<exists>ps cs a b. run_demo C iseed aseed bseed st st' = Inr (Inr (ps, cs), a, b) \<and>
    length ps = 1 \<and> length cs = 2 \<and> wallet_values a = [2, 2] \<and> wallet_values b = [1, 10]"
proof -
  obtain isk ipk ask apk bsk bpk where gen: "b64_generate_keypair C iseed = (isk, ipk)"
    "b64_generate_keypair C aseed = (ask, apk)" "b64_generate_keypair C bseed = (bsk, bpk)"
    by fastforce
  have kp: "b64_keypair C isk ipk" "b64_keypair C ask apk" "b64_keypair C bsk bpk"
    using b64_generated_keypair [OF seeds(1) gen(1)] b64_generated_keypair [OF seeds(2) gen(2)]
      b64_generated_keypair [OF seeds(3) gen(3)] by simp_all
  let ?ks = "add_keypair bsk bpk (add_keypair ask apk [])"
  let ?a0 = "new_wallet apk ?ks" and ?b0 = "new_wallet bpk ?ks"
  have own: "cw_owner_pk ?a0 = apk" "cw_owner_pk ?b0 = bpk" by (simp_all add: new_wallet_def)
  have inv0: "wallet_inv C ?a0" "wallet_inv C ?b0" by simp_all
  obtain ta where ta: "mint C isk ipk apk ''a-10'' 10 = Inr ta" "tk_token_id ta = ''a-10''" "tk_value ta = 10"
    and a1: "add_token C ta ?a0 = Inr (?a0\<lparr>cw_utr := AList.update ''a-10'' ta (cw_utr ?a0)\<rparr>)" (is "_ = Inr ?a1")
    by (rule mint_add [OF ok kp(1) own(1)])
  obtain t1 where t1: "mint C isk ipk bpk ''b-2a'' 2 = Inr t1" "tk_token_id t1 = ''b-2a''" "tk_value t1 = 2"
    and b1: "add_token C t1 ?b0 = Inr (?b0\<lparr>cw_utr := AList.update ''b-2a'' t1 (cw_utr ?b0)\<rparr>)" (is "_ = Inr ?b1")
    by (rule mint_add [OF ok kp(1) own(2)])
  have own1: "cw_owner_pk ?b1 = bpk" using own(2) by simp
  obtain t2 where t2: "mint C isk ipk bpk ''b-2b'' 2 = Inr t2" "tk_token_id t2 = ''b-2b''" "tk_value t2 = 2"
    and b2: "add_token C t2 ?b1 = Inr (?b1\<lparr>cw_utr := AList.update ''b-2b'' t2 (cw_utr ?b1)\<rparr>)" (is "_ = Inr ?b2")
    by (rule mint_add [OF ok kp(1) own1])
  have own2: "cw_owner_pk ?b2 = bpk" using own(2) by simp
  obtain t3 where t3: "mint C isk ipk bpk ''b-1'' 1 = Inr t3" "tk_token_id t3 = ''b-1''" "tk_value t3 = 1"
    and b3: "add_token C t3 ?b2 = Inr (?b2\<lparr>cw_utr := AList.update ''b-1'' t3 (cw_utr ?b2)\<rparr>)" (is "_ = Inr ?b3")
    by (rule mint_add [OF ok kp(1) own2])
  have demo: "run_demo C iseed aseed bseed st st' = Inr (execute_session C st st' 6 ?a1 ?b3)"
    using gen ta(1) t1(1) t2(1) t3(1) a1 b1 b2 b3
    by (simp add: run_demo_def execute_cash_payment_def Let_def)
  have inv: "wallet_inv C ?a1" "wallet_inv C ?b3"
    using add_token_inv [OF inv0(1) a1]
      add_token_inv [OF add_token_inv [OF add_token_inv [OF inv0(2) b1] b2] b3] by blast+
  have key: "holds_key C ?a1" "holds_key C ?b3"
    using kp by (auto simp: holds_key_def get_private_key_def new_wallet_def add_keypair_def)
  have utr: "cw_utr ?a1 = [(''a-10'', ta)]" "cw_str ?a1 = []"
    "cw_utr ?b3 = [(''b-2a'', t1), (''b-2b'', t2), (''b-1'', t3)]" "cw_str ?b3 = []"
    by (simp_all add: new_wallet_def)
  from demo_session [OF ok inv key utr ta(2,3) t1(2,3) t2(2,3) t3(2,3), of st st'] demo
  show ?thesis by simp
qed

section \<open>Properties\<close>

text \<open>
  C18: A transfer over a channel delivers: when the sender holds a token, the nonce is positive
  and the receiver has not itself spent a token of the sender, the call returns True, and the
  token with the smallest identifier has left the sender's UTR for its STR and is in the
  receiver's UTR, valid, with the same value and one more transfer.
\<close>
theorem transfer_delivers:
  assumes "ed_ok C" and "wallet_inv C sender" and "holds_key C sender"
    and "cw_utr sender \<noteq> []" and "0 < nonce"
    and "dict_keys (cw_utr sender) \<inter> dict_keys (cw_str receiver) = {}"
  shows "\<exists>t t' sender' ch'.
    transfer_over_channel C uuid st nonce sender receiver ch =
      (Inr True, sender', receiver\<lparr>cw_utr := AList.update (tk_token_id t) t' (cw_utr receiver)\<rparr>, ch') \<and>
    map_of (cw_utr sender) (tk_token_id t) = Some t \<and>
    (\<forall>k \<in> dict_keys (cw_utr sender). tk_token_id t \<le> k) \<and>
    dict_keys (cw_utr sender') = dict_keys (cw_utr sender) - {tk_token_id t} \<and>
    map_of (cw_str sender') (tk_token_id t) = Some t' \<and>
    tk_token_id t' = tk_token_id t \<and> tk_value t' = tk_value t \<and>
    tk_owner_pk t' = cw_owner_pk receiver \<and> validate_chain C (tk_issuer_pk t') t' \<and>
    length (tk_transfer_chain t') = length (tk_transfer_chain t) + 1"
proof -
  obtain t t' where one: "send_token C st (cw_owner_pk receiver) sender =
      (Inr (token_to_json t'), after_send [t] [t'] sender)"
    and t: "map_of (cw_utr sender) (tk_token_id t) = Some t"
    and least: "\<forall>k \<in> dict_keys (cw_utr sender). tk_token_id t \<le> k"
    and t': "tk_token_id t' = tk_token_id t" "tk_value t' = tk_value t"
      "tk_owner_pk t' = cw_owner_pk receiver" "validate_chain C (tk_issuer_pk t') t'"
      "length (tk_transfer_chain t') = length (tk_transfer_chain t) + 1"
    by (rule send_token_least [OF assms(1-4)])
  have "tk_token_id t' \<notin> dict_keys (cw_str receiver)"
    using map_of_SomeD [OF t] t'(1) assms(6) by force
  then have rcv: "receive_token C (token_to_json t') receiver =
      (True, receiver\<lparr>cw_utr := AList.update (tk_token_id t) t' (cw_utr receiver)\<rparr>)"
    using t' unfolding receive_sent_iff by simp
  have chain: "tk_transfer_chain t' \<noteq> []" using t'(5) by auto
  have "\<exists>ch'. transfer_over_channel C uuid st nonce sender receiver ch =
      (Inr True, after_send [t] [t'] sender,
       receiver\<lparr>cw_utr := AList.update (tk_token_id t) t' (cw_utr receiver)\<rparr>, ch')"
    using one rcv assms(5)
    by (simp add: transfer_over_channel_def open_session_def build_payload_sent [OF chain]
        send_transfer_payload_def receive_transfer_payload_def dict_simps Let_def)
  then obtain ch' where "transfer_over_channel C uuid st nonce sender receiver ch =
      (Inr True, after_send [t] [t'] sender,
       receiver\<lparr>cw_utr := AList.update (tk_token_id t) t' (cw_utr receiver)\<rparr>, ch')" ..
  moreover have "map_of (cw_str (after_send [t] [t'] sender)) (tk_token_id t) = Some t'"
    using t' by (simp add: dict_simps)
  moreover have "dict_keys (cw_utr (after_send [t] [t'] sender)) =
      dict_keys (cw_utr sender) - {tk_token_id t}" by (simp add: dict_keys_delete)
  ultimately show ?thesis using t least t' by blast
qed

lemma transfer_delivers_witness:
  "\<exists>t' sender' ch'. transfer_over_channel toy_ed25519 ''s1'' demo_stamps 1 (demo_wallet 2 [(''b'', 7), (''a'', 10)])
      (demo_wallet 3 []) new_channel =
        (Inr True, sender', (demo_wallet 3 [])\<lparr>cw_utr := [(''a'', t')]\<rparr>, ch') \<and>
     tk_value t' = 10 \<and> tk_owner_pk t' = demo_key 3"
proof -
  let ?s = "demo_wallet 2 [(''b'', 7), (''a'', 10)]"
  have pre: "wallet_inv toy_ed25519 ?s" "holds_key toy_ed25519 ?s" "cw_utr ?s \<noteq> []"
    "0 < (1 :: int)" "dict_keys (cw_utr ?s) \<inter> dict_keys (cw_str (demo_wallet 3 [])) = {}"
    by simp_all
  from transfer_delivers [OF toy_ed25519_ok pre, of "''s1''" demo_stamps new_channel]
  obtain t t' s' ch' where tr: "transfer_over_channel toy_ed25519 ''s1'' demo_stamps 1 ?s (demo_wallet 3 []) new_channel =
      (Inr True, s', (demo_wallet 3 [])\<lparr>cw_utr := AList.update (tk_token_id t) t' (cw_utr (demo_wallet 3 []))\<rparr>, ch')"
    and t: "map_of (cw_utr ?s) (tk_token_id t) = Some t" and
    least: "\<forall>k \<in> dict_keys (cw_utr ?s). tk_token_id t \<le> k" and
    t': "tk_value t' = tk_value t" "tk_owner_pk t' = cw_owner_pk (demo_wallet 3 [])"
    by (elim exE conjE) metis
  have "tk_token_id t \<le> ''a''" using least by simp
  with t have "tk_token_id t = ''a''" "tk_value t = 10" by (auto split: if_splits)
  with tr t' show ?thesis by auto
qed

text \<open>
  C3: A payment session is atomic: when it raises, for whatever reason and at whatever step,
  both wallets are exactly what they were before.
\<close>
theorem session_atomic:
  assumes "execute_cash_payment C st st' s r price = (Inl e, s', r')"
  shows "s' = s \<and> r' = r"
  using assms execute_session_rollback unfolding execute_cash_payment_def by blast

lemma session_atomic_witness:
  "\<exists>e s' r'. execute_cash_payment toy_ed25519 demo_stamps demo_stamps (demo_wallet 2 [(''a'', 10)]) (demo_wallet 3 []) 11 =
     (Inl e, s', r') \<and> s' = demo_wallet 2 [(''a'', 10)] \<and> r' = demo_wallet 3 []"
proof -
  let ?s = "demo_wallet 2 [(''a'', 10)]" and ?r = "demo_wallet 3 []"
  have sel: "select_tokens ?s 11 = Inl (ValueError ''insufficient funds'')"
    by (simp add: select_tokens_def find_exact_token_subset_def)
  obtain e s' r' where run: "execute_cash_payment toy_ed25519 demo_stamps demo_stamps ?s ?r 11 = (Inl e, s', r')"
    using sel by (simp add: execute_cash_payment_def execute_session_def session_body_def
        initiate_payment_def)
  with session_atomic [OF run] show ?thesis by blast
qed

text \<open>
  C11: The accounts of a successful session between wallets with different tokens: the sender has
  paid tokens of its own worth at least the price, the receiver has returned tokens of its
  own worth at least the excess, both balances change by exactly these amounts, so nothing is
  created or lost and the receiver's gain never exceeds the price.
\<close>
theorem session_conserves_value:
  assumes "ed_ok C" and "wallet_inv C s" and "wallet_inv C r" and "holds_key C s" and "holds_key C r"
    and "dict_keys (cw_utr s) \<inter> dict_keys (cw_utr r) = {}"
    and "execute_cash_payment C st st' s r price = (Inr (payments, changes), s', r')"
  shows "(\<exists>paid change. payments = map token_to_json paid \<and> changes = map token_to_json change \<and>
      price \<le> value_of paid \<and> value_of paid - price \<le> value_of change \<and>
      tk_token_id ` set paid \<subseteq> dict_keys (cw_utr s) \<and>
      tk_token_id ` set change \<subseteq> dict_keys (cw_utr r) \<and>
      dict_total tk_value (cw_utr s') =
        dict_total tk_value (cw_utr s) - value_of paid + value_of change \<and>
      dict_total tk_value (cw_utr r') =
        dict_total tk_value (cw_utr r) + value_of paid - value_of change) \<and>
    dict_total tk_value (cw_utr s') + dict_total tk_value (cw_utr r') =
      dict_total tk_value (cw_utr s) + dict_total tk_value (cw_utr r) \<and>
    dict_total tk_value (cw_utr r') \<le> dict_total tk_value (cw_utr r) + price"
  using session_accounts [OF assms(1-6) assms(7) [unfolded execute_cash_payment_def]]
  by (elim exE conjE) (intro conjI exI; assumption?; simp)


lemma session_conserves_value_witness:
  "\<exists>ps cs s' r'. execute_cash_payment toy_ed25519 demo_stamps demo_stamps (demo_wallet 2 [(''a'', 10)])
      (demo_wallet 3 [(''b'', 5)]) 10 = (Inr (ps, cs), s', r') \<and>
    dict_total tk_value (cw_utr s') + dict_total tk_value (cw_utr r') = 15 \<and>
    dict_total tk_value (cw_utr r') \<le> 15"
proof -
  let ?s = "demo_wallet 2 [(''a'', 10)]" and ?r = "demo_wallet 3 [(''b'', 5)]"
  have pre: "wallet_inv toy_ed25519 ?s" "wallet_inv toy_ed25519 ?r" "holds_key toy_ed25519 ?s"
    "holds_key toy_ed25519 ?r" and disj: "dict_keys (cw_utr ?s) \<inter> dict_keys (cw_utr ?r) = {}"
    and nn: "nonneg (map snd (cw_utr ?s))"
    and disj2: "dict_keys (cw_utr ?s) \<inter> (dict_keys (cw_utr ?r) \<union> dict_keys (cw_str ?r)) = {}"
    and ex: "subseq [demo_token 2 ''a'' 10] (sort_key tk_value (map snd (cw_utr ?s)))"
      "value_of [demo_token 2 ''a'' 10] = 10" by simp_all
  from session_exact [OF toy_ed25519_ok pre nn disj2 ex, of demo_stamps demo_stamps] obtain ps s' r' where
    run: "execute_cash_payment toy_ed25519 demo_stamps demo_stamps ?s ?r 10 = (Inr (ps, []), s', r')"
    unfolding execute_cash_payment_def by blast
  from session_conserves_value [OF toy_ed25519_ok pre disj run] run show ?thesis by auto
qed

text \<open>
  C19: Exact payment: when some tokens of the sender make up the price exactly and the receiver
  has seen none of the sender's tokens, the session succeeds with no change and moves exactly the
  price.
\<close>
theorem exact_payment_succeeds:
  assumes "ed_ok C" and "wallet_inv C s" and "wallet_inv C r" and "holds_key C s" and "holds_key C r"
    and "nonneg (map snd (cw_utr s))"
    and "dict_keys (cw_utr s) \<inter> (dict_keys (cw_utr r) \<union> dict_keys (cw_str r)) = {}"
    and "subseq u (sort_key tk_value (map snd (cw_utr s)))" and "value_of u = price"
  shows "\<exists>paid s' r'. execute_cash_payment C st st' s r price =
      (Inr (map token_to_json paid, []), s', r') \<and>
    value_of paid = price \<and>
    dict_total tk_value (cw_utr s') = dict_total tk_value (cw_utr s) - price \<and>
    dict_total tk_value (cw_utr r') = dict_total tk_value (cw_utr r) + price"
  unfolding execute_cash_payment_def using assms by (rule session_exact)

lemma exact_payment_succeeds_witness:
  "\<exists>paid s' r'. execute_cash_payment toy_ed25519 demo_stamps demo_stamps (demo_wallet 2 [(''a'', 10), (''c'', 3)])
      (demo_wallet 3 [(''b'', 5)]) 3 = (Inr (map token_to_json paid, []), s', r') \<and>
    dict_total tk_value (cw_utr r') = 8"
proof -
  let ?s = "demo_wallet 2 [(''a'', 10), (''c'', 3)]" and ?r = "demo_wallet 3 [(''b'', 5)]"
  have pre: "wallet_inv toy_ed25519 ?s" "wallet_inv toy_ed25519 ?r" "holds_key toy_ed25519 ?s"
    "holds_key toy_ed25519 ?r" "nonneg (map snd (cw_utr ?s))"
    "dict_keys (cw_utr ?s) \<inter> (dict_keys (cw_utr ?r) \<union> dict_keys (cw_str ?r)) = {}"
    "subseq [demo_token 2 ''c'' 3] (sort_key tk_value (map snd (cw_utr ?s)))"
    "value_of [demo_token 2 ''c'' 3] = 3" by simp_all
  from exact_payment_succeeds [OF toy_ed25519_ok pre, of demo_stamps demo_stamps] show ?thesis by auto
qed

text \<open>
  The demo runs as its prints announce, under any Ed25519 library that behaves as documented
  and whatever keys it draws: the payment of 6 from wallet A with [10] to wallet B with [2, 2, 1]
  is one token against two of change and leaves A with [2, 2] and B with [1, 10].
\<close>
theorem demo_payment:
  assumes "ed_ok C" and "length issuer_seed = 32" and "length a_seed = 32" and "length b_seed = 32"
  shows "\<exists>ps cs a b. run_demo C issuer_seed a_seed b_seed st st' = Inr (Inr (ps, cs), a, b) \<and>
    length ps = 1 \<and> length cs = 2 \<and> wallet_values a = [2, 2] \<and> wallet_values b = [1, 10]"
  using assms by (rule run_demo_result)

lemma demo_payment_witness:
  "\<exists>ps cs a b. run_demo toy_ed25519 (replicate 32 1) (replicate 32 2) (replicate 32 3) demo_stamps demo_stamps =
      Inr (Inr (ps, cs), a, b) \<and> wallet_values a = [2, 2] \<and> wallet_values b = [1, 10]"
proof -
  have "\<exists>ps cs a b. run_demo toy_ed25519 (replicate 32 1) (replicate 32 2) (replicate 32 3) demo_stamps demo_stamps =
      Inr (Inr (ps, cs), a, b) \<and> length ps = 1 \<and> length cs = 2 \<and>
      wallet_values a = [2, 2] \<and> wallet_values b = [1, 10]"
    by (rule demo_payment) simp_all
  then show ?thesis by blast
qed

section \<open>Three gaps\<close>

text \<open>
  A transfer with a nonce that is not positive fails only after \<open>send_token\<close> has run: the token
  has left the sender's UTR and nobody has received it.
\<close>

theorem bad_nonce_strands_token:
  assumes "ed_ok C" and "wallet_inv C sender" and "holds_key C sender"
    and "cw_utr sender \<noteq> []" and "nonce \<le> 0"
  shows "\<exists>t e sender' ch'. transfer_over_channel C uuid st nonce sender receiver ch =
      (Inl e, sender', receiver, ch') \<and> map_of (cw_utr sender) (tk_token_id t) = Some t \<and>
    dict_keys (cw_utr sender') = dict_keys (cw_utr sender) - {tk_token_id t}"
proof -
  obtain t t' where one: "send_token C st (cw_owner_pk receiver) sender =
      (Inr (token_to_json t'), after_send [t] [t'] sender)"
    and t: "map_of (cw_utr sender) (tk_token_id t) = Some t"
    and len: "length (tk_transfer_chain t') = length (tk_transfer_chain t) + 1"
    by (rule send_token_least [OF assms(1-4)])
  have chain: "tk_transfer_chain t' \<noteq> []" using len by auto
  have "\<exists>e ch'. transfer_over_channel C uuid st nonce sender receiver ch =
      (Inl e, after_send [t] [t'] sender, receiver, ch')"
    using one assms(5)
    by (simp add: transfer_over_channel_def open_session_def build_payload_sent [OF chain]
        send_transfer_payload_def dict_simps Let_def)
  moreover have "dict_keys (cw_utr (after_send [t] [t'] sender)) =
      dict_keys (cw_utr sender) - {tk_token_id t}" by (simp add: dict_keys_delete)
  ultimately show ?thesis using t by blast
qed

text \<open>
  The receiver can gain less than the price: with [10] against [5] and a price of 6 it owes 4,
  has no exact change and gives back 5.
\<close>

theorem receiver_can_lose:
  "\<exists>ps cs s' r'. execute_cash_payment toy_ed25519 st st' (demo_wallet 2 [(''a'', 10)])
      (demo_wallet 3 [(''b'', 5)]) 6 = (Inr (ps, cs), s', r') \<and>
    dict_total tk_value (cw_utr r') = dict_total tk_value (cw_utr (demo_wallet 3 [(''b'', 5)])) + 5"
proof -
  let ?s = "demo_wallet 2 [(''a'', 10)]" and ?r = "demo_wallet 3 [(''b'', 5)]"
  let ?a = "demo_token 2 ''a'' 10" and ?b = "demo_token 3 ''b'' 5"
  have pre: "wallet_inv toy_ed25519 ?s" "wallet_inv toy_ed25519 ?r" "holds_key toy_ed25519 ?s"
    "holds_key toy_ed25519 ?r" and disj: "dict_keys (cw_utr ?s) \<inter> dict_keys (cw_utr ?r) = {}"
    by simp_all
  have sel: "select_tokens ?s 6 = Inr [?a]"
    by (simp add: select_tokens_def find_exact_token_subset_def)
  have change: "paid = [p] \<and> tk_value p = 10 \<and> select_tokens (after_receive paid ?r) (value_of paid - 6) = Inr [?b]"
    if "list_all2 (handed_over toy_ed25519 sk (cw_owner_pk ?r)) [?a] paid" "p = hd paid" for sk paid p
  proof -
    from that obtain p' where "paid = [p']" by (auto simp: list_all2_Cons1)
    with handed_over_list(1,2) [OF that(1)] that(2) show ?thesis
      by (simp add: select_tokens_def find_exact_token_subset_def)
  qed
  have fresh: "tk_token_id ` set [?a] \<inter> dict_keys (cw_str ?r) = {}" by simp
  obtain sk sk' paid ch given where run: "execute_session toy_ed25519 st st' 6 ?s ?r =
      (Inr (map token_to_json paid, map token_to_json given),
       after_receive given (after_send [?a] paid ?s), after_send ch given (after_receive paid ?r))"
    and ho: "list_all2 (handed_over toy_ed25519 sk (cw_owner_pk ?r)) [?a] paid"
    and ch: "select_tokens (after_receive paid ?r) (value_of paid - 6) = Inr ch"
    by (rule session_succeeds [OF toy_ed25519_ok pre sel fresh]) (use change in fastforce)+
  have paid: "paid = [hd paid]" and ids: "tk_token_id (hd paid) = ''a''" "tk_value (hd paid) = 10"
    using change [OF ho refl] handed_over_list(1) [OF ho] by auto
  have "ch = [?b]" using ch change [OF ho refl] by simp
  then have "cw_utr (after_send ch given (after_receive paid ?r)) = [(''a'', hd paid)]"
    using ids by (subst paid) simp
  then show ?thesis using run ids(2) by (auto simp: execute_cash_payment_def)
qed

end
