(* ===== verification/PyDatetime.thy ===== *)
theory PyDatetime
  imports PyNumber
begin

text \<open>
  The part of Python's \<open>datetime\<close> the program relies on: an aware or naive date and time, its
  instant, \<open>isoformat\<close> and \<open>fromisoformat\<close> (the format \<open>isoformat\<close> writes, which is all that
  Python before 3.11 reads). An offset is a number of microseconds; \<open>None\<close> is a naive value. The
  main result is the round trip of \<open>isoformat\<close>, so that a time stamp in a signed payload
  determines the time.
\<close>

record py_datetime =
  dt_year :: nat
  dt_month :: nat
  dt_day :: nat
  dt_hour :: nat
  dt_minute :: nat
  dt_second :: nat
  dt_microsecond :: nat
  dt_utcoffset :: "int option"

section \<open>The calendar\<close>

definition is_leap :: "nat \<Rightarrow> bool" where
  "is_leap y \<longleftrightarrow> y mod 4 = 0 \<and> (y mod 100 \<noteq> 0 \<or> y mod 400 = 0)"

definition days_in_month :: "nat \<Rightarrow> nat \<Rightarrow> nat" where
  "days_in_month y m =
     (if m = 2 then (if is_leap y then 29 else 28)
      else if m = 4 \<or> m = 6 \<or> m = 9 \<or> m = 11 then 30 else 31)"

definition days_before_year :: "nat \<Rightarrow> nat" where
  "days_before_year y = (let p = y - 1 in p * 365 + p div 4 - p div 100 + p div 400)"

definition days_before_month :: "nat \<Rightarrow> nat \<Rightarrow> nat" where
  "days_before_month y m = sum_list (map (days_in_month y) [1..<m])"

definition to_ordinal :: "py_datetime \<Rightarrow> nat" where
  "to_ordinal d = days_before_year (dt_year d) + days_before_month (dt_year d) (dt_month d) + dt_day d"

definition day_us :: int where "day_us = 86400000000"

definition dt_valid :: "py_datetime \<Rightarrow> bool" where
  "dt_valid d \<longleftrightarrow>
     1 \<le> dt_year d \<and> dt_year d \<le> 9999 \<and> 1 \<le> dt_month d \<and> dt_month d \<le> 12 \<and>
     1 \<le> dt_day d \<and> dt_day d \<le> days_in_month (dt_year d) (dt_month d) \<and>
     dt_hour d < 24 \<and> dt_minute d < 60 \<and> dt_second d < 60 \<and> dt_microsecond d < 1000000 \<and>
     (case dt_utcoffset d of None \<Rightarrow> True | Some off \<Rightarrow> \<bar>off\<bar> < day_us)"

text \<open>Microseconds since the Unix epoch, for a value whose offset is \<open>off\<close>.\<close>

definition local_us :: "py_datetime \<Rightarrow> int" where
  "local_us d =
     (((int (to_ordinal d) - 719163) * 24 + int (dt_hour d)) * 60 + int (dt_minute d)) * 60000000
       + int (dt_second d) * 1000000 + int (dt_microsecond d)"

definition instant :: "py_datetime \<Rightarrow> int res" where
  "instant d =
     (case dt_utcoffset d of
        None \<Rightarrow> Inl (TypeError ''offset-naive datetime'')
      | Some off \<Rightarrow> Inr (local_us d - off))"

definition replace_tz_utc :: "py_datetime \<Rightarrow> py_datetime" where
  "replace_tz_utc d = d\<lparr>dt_utcoffset := Some 0\<rparr>"

text \<open>\<open>int(d.timestamp())\<close> of an instant: truncation towards zero.\<close>

definition epoch_seconds :: "int \<Rightarrow> int" where
  "epoch_seconds us = (if 0 \<le> us then us div 1000000 else - ((- us) div 1000000))"

section \<open>isoformat\<close>

definition time_text :: "nat \<Rightarrow> nat \<Rightarrow> nat \<Rightarrow> string" where
  "time_text h m s = pad 2 h @ '':'' @ pad 2 m @ '':'' @ pad 2 s"

definition offset_text :: "int \<Rightarrow> string" where
  "offset_text off =
     (let a = nat \<bar>off\<bar>; h = a div 3600000000; m = a div 60000000 mod 60;
          s = a div 1000000 mod 60; us = a mod 1000000
      in (if off < 0 then ''-'' else ''+'') @ pad 2 h @ '':'' @ pad 2 m @
         (if s = 0 \<and> us = 0 then [] else '':'' @ pad 2 s @
           (if us = 0 then [] else ''.'' @ pad 6 us)))"

definition isoformat :: "py_datetime \<Rightarrow> string" where
  "isoformat d =
     pad 4 (dt_year d) @ ''-'' @ pad 2 (dt_month d) @ ''-'' @ pad 2 (dt_day d) @ ''T'' @
     time_text (dt_hour d) (dt_minute d) (dt_second d) @
     (if dt_microsecond d = 0 then [] else ''.'' @ pad 6 (dt_microsecond d)) @
     (case dt_utcoffset d of None \<Rightarrow> [] | Some off \<Rightarrow> offset_text off)"

section \<open>fromisoformat\<close>

text \<open>
  \<open>_parse_hh_mm_ss_ff\<close>: hours, then minutes and seconds after colons, then a fraction of three or
  six digits; the text has to be used up.
\<close>

fun read_fraction :: "string \<Rightarrow> nat option" where
  "read_fraction [] = Some 0"
| "read_fraction (c # cs) =
     (if c \<noteq> CHR ''.'' then None
      else if length cs = 3 then map_option (\<lambda>n. n * 1000) (read_digits 0 cs)
      else if length cs = 6 then read_digits 0 cs else None)"

definition read_time :: "string \<Rightarrow> (nat \<times> nat \<times> nat \<times> nat) option" where
  "read_time s =
     (case read_fixed 2 s of
        None \<Rightarrow> None
      | Some (h, s1) \<Rightarrow>
          (case s1 of
             [] \<Rightarrow> Some (h, 0, 0, 0)
           | c1 # r1 \<Rightarrow>
               if c1 \<noteq> CHR '':'' then None
               else
                 (case read_fixed 2 r1 of
                    None \<Rightarrow> None
                  | Some (m, s2) \<Rightarrow>
                      (case s2 of
                         [] \<Rightarrow> Some (h, m, 0, 0)
                       | c2 # r2 \<Rightarrow>
                           if c2 \<noteq> CHR '':'' then None
                           else
                             (case read_fixed 2 r2 of
                                None \<Rightarrow> None
                              | Some (sec, s3) \<Rightarrow>
                                  map_option (\<lambda>us. (h, m, sec, us)) (read_fraction s3))))))"

text \<open>The time zone starts at the first \<open>-\<close> or \<open>+\<close> of the time part.\<close>

definition is_sign :: "char \<Rightarrow> bool" where
  "is_sign c \<longleftrightarrow> c = CHR ''-'' \<or> c = CHR ''+''"

definition read_offset :: "string \<Rightarrow> int option option" where
  "read_offset s =
     (case s of
        [] \<Rightarrow> Some None
      | sign # tz \<Rightarrow>
          if length tz \<notin> {5, 8, 15} then None
          else
            (case read_time tz of
               None \<Rightarrow> None
             | Some (h, m, sec, us) \<Rightarrow>
                 let a = (int h * 3600 + int m * 60 + int sec) * 1000000 + int us
                 in if a < day_us then Some (Some (if sign = CHR ''-'' then - a else a)) else None))"

definition read_date :: "string \<Rightarrow> ((nat \<times> nat \<times> nat) \<times> string) option" where
  "read_date s =
     (case read_fixed 4 s of
        Some (y, c1 # s1) \<Rightarrow>
          if c1 \<noteq> CHR ''-'' then None
          else
            (case read_fixed 2 s1 of
               Some (mo, c2 # s2) \<Rightarrow>
                 if c2 \<noteq> CHR ''-'' then None
                 else map_option (\<lambda>(d, rest). ((y, mo, d), rest)) (read_fixed 2 s2)
             | _ \<Rightarrow> None)
      | _ \<Rightarrow> None)"

fun read_clock :: "string \<Rightarrow> ((nat \<times> nat \<times> nat \<times> nat) \<times> int option) option" where
  "read_clock [] = Some ((0, 0, 0, 0), None)"
| "read_clock (_ # t) =
     (case read_time (takeWhile (\<lambda>c. \<not> is_sign c) t) of
        None \<Rightarrow> None
      | Some hms \<Rightarrow> map_option (\<lambda>off. (hms, off)) (read_offset (dropWhile (\<lambda>c. \<not> is_sign c) t)))"

definition fromisoformat :: "string \<Rightarrow> py_datetime res" where
  "fromisoformat s =
     (case read_date s of
        None \<Rightarrow> Inl (ValueError ''Invalid isoformat string'')
      | Some ((y, mo, d), rest) \<Rightarrow>
          (case read_clock rest of
             None \<Rightarrow> Inl (ValueError ''Invalid isoformat string'')
           | Some ((h, mi, sec, us), off) \<Rightarrow>
               let dt = \<lparr>dt_year = y, dt_month = mo, dt_day = d, dt_hour = h, dt_minute = mi,
                     dt_second = sec, dt_microsecond = us, dt_utcoffset = off\<rparr>
               in if dt_valid dt then Inr dt else Inl (ValueError ''out of range'')))"

section \<open>Round trip\<close>

lemma read_fixed2: "n < 100 \<Longrightarrow> read_fixed 2 (pad 2 n @ s) = Some (n, s)"
  "n < 100 \<Longrightarrow> read_fixed 2 (pad 2 n) = Some (n, [])"
  using read_fixed_pad [of n 2 s] read_fixed_pad [of n 2 "[]"] by simp_all

lemma read_fixed4: "n < 10000 \<Longrightarrow> read_fixed 4 (pad 4 n @ s) = Some (n, s)"
  using read_fixed_pad [of n 4 s] by simp

lemma read_fraction_pad: "us < 1000000 \<Longrightarrow> read_fraction (CHR ''.'' # pad 6 us) = Some us"
  using read_digits_pad [of us 6 0] by simp

declare pad.simps [simp del]

lemma read_time_text:
  assumes "h < 100" and "m < 100" and "s < 100" and "us < 1000000"
  shows "read_time (pad 2 h @ '':'' @ pad 2 m) = Some (h, m, 0, 0)"
    and "read_time (time_text h m s @ (if us = 0 then [] else ''.'' @ pad 6 us)) = Some (h, m, s, us)"
  using assms read_fraction_pad [OF assms(4)]
  by (auto simp: read_time_def time_text_def read_fixed2 simp del: read_fraction.simps(2))

lemma offset_split:
  fixes a :: nat
  shows "((a div 3600000000) * 3600 + (a div 60000000 mod 60) * 60 + (a div 1000000 mod 60)) * 1000000
      + a mod 1000000 = a"
proof -
  define q where "q = a div 1000000"
  have d: "a div 60000000 = q div 60" "a div 3600000000 = q div 60 div 60"
    unfolding q_def by (simp_all flip: div_mult2_eq)
  have "q div 60 = q div 60 div 60 * 60 + q div 60 mod 60" "q = q div 60 * 60 + q mod 60"
    by (simp_all only: div_mult_mod_eq)
  then have "q div 60 div 60 * 3600 + (q div 60 mod 60) * 60 + q mod 60 = q" by linarith
  then show ?thesis unfolding d q_def [symmetric] by (simp add: q_def)
qed

lemma split_prefix:
  "\<forall>c \<in> set t. P c \<Longrightarrow> z = [] \<or> \<not> P (hd z) \<Longrightarrow>
     takeWhile P (t @ z) = t \<and> dropWhile P (t @ z) = z"
  by (induction t) (cases z; simp)+

lemma read_offset_text:
  assumes "\<bar>off\<bar> < day_us"
  shows "read_offset (offset_text off) = Some (Some off)"
proof -
  define a where "a = nat \<bar>off\<bar>"
  define h where "h = a div 3600000000"
  define m where "m = a div 60000000 mod 60"
  define s where "s = a div 1000000 mod 60"
  define us where "us = a mod 1000000"
  have a: "int a = \<bar>off\<bar>" by (simp add: a_def)
  have "a < 86400000000" using assms by (simp add: a_def day_us_def)
  then have h: "h < 100" by (simp add: h_def less_mult_imp_div_less)
  have m: "m < 100" and s: "s < 100" and us: "us < 1000000"
    by (simp_all add: m_def s_def us_def less_trans [OF mod_less_divisor])
  have sum: "(int h * 3600 + int m * 60 + int s) * 1000000 + int us = int a"
    using arg_cong [OF offset_split [of a], of int] unfolding h_def m_def s_def us_def
    by (simp only: of_nat_add of_nat_mult of_nat_numeral)
  let ?sign = "if off < 0 then CHR ''-'' else CHR ''+''"
  let ?frac = "if us = 0 then [] else ''.'' @ pad 6 us"
  have shape: "offset_text off = ?sign # (if s = 0 \<and> us = 0 then pad 2 h @ '':'' @ pad 2 m
      else time_text h m s @ ?frac)"
    by (simp add: offset_text_def time_text_def Let_def a_def [symmetric] h_def [symmetric]
        m_def [symmetric] s_def [symmetric] us_def [symmetric])
  have "length (time_text h m s @ ?frac) \<in> {8, 15}" "length (pad 2 h @ '':'' @ pad 2 m) = 5"
    by (simp_all add: time_text_def)
  moreover have "read_time (if s = 0 \<and> us = 0 then pad 2 h @ '':'' @ pad 2 m
      else time_text h m s @ ?frac) = Some (h, m, s, us)"
    using read_time_text [OF h m s us] by simp
  ultimately show ?thesis
    using assms sum a unfolding shape read_offset_def list.case by (auto simp: Let_def)
qed

lemma time_text_no_sign:
  "c \<in> set (time_text h m s @ (if us = 0 then [] else ''.'' @ pad 6 us)) \<Longrightarrow> \<not> is_sign c"
  using pad_not_special by (fastforce simp: time_text_def is_sign_def split: if_splits)

theorem isoformat_roundtrip:
  assumes "dt_valid d"
  shows "fromisoformat (isoformat d) = Inr d"
proof -
  define t where "t = time_text (dt_hour d) (dt_minute d) (dt_second d) @
      (if dt_microsecond d = 0 then [] else ''.'' @ pad 6 (dt_microsecond d))"
  define z where "z = (case dt_utcoffset d of None \<Rightarrow> [] | Some off \<Rightarrow> offset_text off)"
  have iso: "isoformat d = pad 4 (dt_year d) @ CHR ''-'' # pad 2 (dt_month d) @ CHR ''-'' #
      pad 2 (dt_day d) @ CHR ''T'' # t @ z"
    by (simp add: isoformat_def t_def z_def)
  have small: "dt_year d < 10000" "dt_month d < 100" "dt_day d < 100" "dt_hour d < 100"
    "dt_minute d < 100" "dt_second d < 100" "dt_microsecond d < 1000000"
    using assms by (auto simp: dt_valid_def days_in_month_def split: if_splits)
  have date: "read_date (isoformat d) = Some ((dt_year d, dt_month d, dt_day d), CHR ''T'' # t @ z)"
    unfolding iso read_date_def using small by (simp add: read_fixed4 read_fixed2)
  have "z = [] \<or> is_sign (hd z)"
    by (auto simp: z_def offset_text_def Let_def is_sign_def split: option.split)
  then have split: "takeWhile (\<lambda>c. \<not> is_sign c) (t @ z) = t" "dropWhile (\<lambda>c. \<not> is_sign c) (t @ z) = z"
    using split_prefix [of t "\<lambda>c. \<not> is_sign c" z] time_text_no_sign unfolding t_def by blast+
  have off: "read_offset z = Some (dt_utcoffset d)"
  proof (cases "dt_utcoffset d")
    case None
    then show ?thesis by (simp add: z_def read_offset_def)
  next
    case (Some off)
    with assms have "\<bar>off\<bar> < day_us" by (simp add: dt_valid_def)
    with Some show ?thesis by (simp add: z_def read_offset_text)
  qed
  have clock: "read_clock (CHR ''T'' # t @ z) =
      Some ((dt_hour d, dt_minute d, dt_second d, dt_microsecond d), dt_utcoffset d)"
    using read_time_text(2) [OF small(4-7)] by (simp add: split off flip: t_def)
  have "\<lparr>dt_year = dt_year d, dt_month = dt_month d, dt_day = dt_day d, dt_hour = dt_hour d,
      dt_minute = dt_minute d, dt_second = dt_second d, dt_microsecond = dt_microsecond d,
      dt_utcoffset = dt_utcoffset d\<rparr> = d" by (rule py_datetime.equality) simp_all
  with assms show ?thesis unfolding fromisoformat_def date option.case prod.case clock
    by (simp only: Let_def if_True)
qed

lemma isoformat_inject: "dt_valid d \<Longrightarrow> dt_valid e \<Longrightarrow> isoformat d = isoformat e \<longleftrightarrow> d = e"
  by (metis isoformat_roundtrip sum.inject(2))

end
