(* ===== verification/Settlement.thy ===== *)
theory Settlement
  imports Prelude
begin

text \<open>
  The interface every settlement ledger of the program implements, and the lemmas that follow from
  it once and for all: requests are submitted one after the other, each is accepted or not, and a
  key (a token identifier) that has been settled is never accepted again. The second locale adds
  that a request is accepted exactly when it is valid and its key is new, from which it follows
  that in any sequence of submissions the first valid claim on each key wins and every other
  one loses. Both are interpreted on the ledgers of the stacks in their theories.
\<close>

fun submit_all :: "('r \<Rightarrow> 's \<Rightarrow> 'o \<times> 's) \<Rightarrow> 'r list \<Rightarrow> 's \<Rightarrow> 'o list \<times> 's" where
  "submit_all submit [] s = ([], s)"
| "submit_all submit (r # rs) s =
     (let (out, s1) = submit r s; (outs, s2) = submit_all submit rs s1 in (out # outs, s2))"

lemma submit_all_Cons [simp]:
  "fst (submit_all submit (r # rs) s) =
     fst (submit r s) # fst (submit_all submit rs (snd (submit r s)))"
  "snd (submit_all submit (r # rs) s) = snd (submit_all submit rs (snd (submit r s)))"
  by (simp_all add: split_beta Let_def)

declare submit_all.simps(2) [simp del]

lemma length_submit_all [simp]: "length (fst (submit_all submit rs s)) = length rs"
  by (induction rs arbitrary: s) simp_all

text \<open>The requests of a run that were accepted, in order.\<close>

definition accepted_of :: "('o \<Rightarrow> bool) \<Rightarrow> 'r list \<Rightarrow> 'o list \<Rightarrow> 'r list" where
  "accepted_of accepted rs outs = map fst (filter (\<lambda>(r, out). accepted out) (zip rs outs))"

lemma accepted_of_simps [simp]:
  "accepted_of accepted [] outs = []"
  "accepted_of accepted (r # rs) (out # outs) =
     (if accepted out then r # accepted_of accepted rs outs else accepted_of accepted rs outs)"
  by (simp_all add: accepted_of_def)

locale settlement =
  fixes submit :: "'r \<Rightarrow> 's \<Rightarrow> 'o \<times> 's"
    and key :: "'r \<Rightarrow> 'k"
    and accepted :: "'o \<Rightarrow> bool"
    and settled :: "'s \<Rightarrow> 'k set"
    and inv :: "'s \<Rightarrow> bool"
  assumes inv_step: "inv s \<Longrightarrow> inv (snd (submit r s))"
    and accept_fresh: "inv s \<Longrightarrow> accepted (fst (submit r s)) \<Longrightarrow>
      key r \<notin> settled s \<and> settled (snd (submit r s)) = insert (key r) (settled s)"
    and reject_keeps: "inv s \<Longrightarrow> \<not> accepted (fst (submit r s)) \<Longrightarrow>
      settled (snd (submit r s)) = settled s"
begin

lemma run_inv: "inv s \<Longrightarrow> inv (snd (submit_all submit rs s))"
  by (induction rs arbitrary: s) (simp_all add: inv_step)

lemma run_settles:
  "inv s \<Longrightarrow> settled (snd (submit_all submit rs s)) =
     settled s \<union> key ` set (accepted_of accepted rs (fst (submit_all submit rs s)))"
proof (induction rs arbitrary: s)
  case (Cons r rs)
  show ?case
    using Cons.IH [OF inv_step [OF Cons.prems]] accept_fresh [OF Cons.prems, of r]
      reject_keeps [OF Cons.prems, of r]
    by auto
qed simp

text \<open>No key is accepted twice, nor one that was settled before.\<close>

lemma accepted_once:
  "inv s \<Longrightarrow> distinct (map key (accepted_of accepted rs (fst (submit_all submit rs s)))) \<and>
     key ` set (accepted_of accepted rs (fst (submit_all submit rs s))) \<inter> settled s = {}"
proof (induction rs arbitrary: s)
  case (Cons r rs)
  show ?case
    using Cons.IH [OF inv_step [OF Cons.prems]] accept_fresh [OF Cons.prems, of r]
      reject_keeps [OF Cons.prems, of r]
    by auto
qed simp

lemma settled_mono: "inv s \<Longrightarrow> settled s \<subseteq> settled (snd (submit_all submit rs s))"
  using run_settles [of s rs] by blast

end

locale first_claim = settlement +
  fixes valid :: "'b \<Rightarrow> 'a \<Rightarrow> bool"
  assumes valid_stable: "inv s \<Longrightarrow> valid (snd (submit r s)) = valid s"
    and accept_iff: "inv s \<Longrightarrow> accepted (fst (submit r s)) \<longleftrightarrow> valid s r \<and> key r \<notin> settled s"
begin

text \<open>The abstract ledger: a set of settled keys, and the first valid claim on a key wins.\<close>

lemma accepts_first_valid:
  "inv s \<Longrightarrow> i < length rs \<Longrightarrow>
     accepted (fst (submit_all submit rs s) ! i) \<longleftrightarrow>
       valid s (rs ! i) \<and> key (rs ! i) \<notin> settled s \<and>
       (\<forall>j < i. valid s (rs ! j) \<longrightarrow> key (rs ! j) \<noteq> key (rs ! i))"
proof (induction rs arbitrary: s i)
  case (Cons r rs)
  show ?case
  proof (cases i)
    case 0
    then show ?thesis by (simp add: accept_iff [OF Cons.prems(1)])
  next
    case (Suc n)
    let ?s = "snd (submit r s)"
    have "settled ?s = (if valid s r then insert (key r) (settled s) else settled s)"
      using accept_iff [OF Cons.prems(1), of r] accept_fresh [OF Cons.prems(1), of r]
        reject_keeps [OF Cons.prems(1), of r] by auto
    moreover have "n < length rs" using Cons.prems(2) Suc by simp
    ultimately show ?thesis
      unfolding Suc submit_all_Cons nth_Cons_Suc
        Cons.IH [OF inv_step [OF Cons.prems(1)] \<open>n < length rs\<close>] valid_stable [OF Cons.prems(1)]
        All_less_Suc2
      by auto
  qed
qed simp

end

text \<open>
  Ledgers that remember who a key belongs to and let its owner claim again. \<open>first_owner_of\<close> is the
  abstract ledger: what a key belongs to once \<open>rs\<close> have been submitted.
\<close>

definition first_owner_of ::
  "('s \<Rightarrow> 'k \<Rightarrow> 'p option) \<Rightarrow> ('s \<Rightarrow> 'r \<Rightarrow> bool) \<Rightarrow> ('r \<Rightarrow> 'k) \<Rightarrow> ('r \<Rightarrow> 'p) \<Rightarrow> 's \<Rightarrow> 'r list \<Rightarrow> 'k \<Rightarrow> 'p option" where
  "first_owner_of owner valid key claimer s rs k =
     (case owner s k of
        Some p \<Rightarrow> Some p
      | None \<Rightarrow> map_option claimer (List.find (\<lambda>r. valid s r \<and> key r = k) rs))"

locale first_owner =
  fixes submit :: "'r \<Rightarrow> 's \<Rightarrow> 'o \<times> 's"
    and key :: "'r \<Rightarrow> 'k"
    and claimer :: "'r \<Rightarrow> 'p"
    and ok :: "'o \<Rightarrow> bool"
    and owner :: "'s \<Rightarrow> 'k \<Rightarrow> 'p option"
    and valid :: "'s \<Rightarrow> 'r \<Rightarrow> bool"
  assumes ok_iff: "ok (fst (submit r s)) \<longleftrightarrow> valid s r \<and> owner s (key r) \<in> {None, Some (claimer r)}"
    and owner_step: "owner (snd (submit r s)) k =
      (if valid s r \<and> owner s k = None \<and> key r = k then Some (claimer r) else owner s k)"
    and valid_step: "valid (snd (submit r s)) = valid s"
begin

abbreviation belongs :: "'s \<Rightarrow> 'r list \<Rightarrow> 'k \<Rightarrow> 'p option" where
  "belongs \<equiv> first_owner_of owner valid key claimer"

lemma belongs_step: "belongs (snd (submit r s)) rs k = belongs s (r # rs) k"
  by (cases "owner s k") (auto simp: first_owner_of_def owner_step valid_step)

lemma owner_run: "owner (snd (submit_all submit rs s)) k = belongs s rs k"
proof (induction rs arbitrary: s)
  case Nil
  then show ?case by (simp add: first_owner_of_def split: option.split)
next
  case (Cons r rs)
  then show ?case by (simp add: belongs_step)
qed

lemma run_ok:
  "i < length rs \<Longrightarrow> ok (fst (submit_all submit rs s) ! i) \<longleftrightarrow>
     valid s (rs ! i) \<and> belongs s rs (key (rs ! i)) = Some (claimer (rs ! i))"
proof (induction rs arbitrary: s i)
  case (Cons r rs)
  show ?case
  proof (cases i)
    case 0
    show ?thesis
      unfolding 0 by (cases "owner s (key r)") (auto simp: ok_iff first_owner_of_def)
  next
    case (Suc n)
    with Cons show ?thesis by (simp add: belongs_step valid_step)
  qed
qed simp

end

end
