(* ===== verification/Reconciliation.thy ===== *)
theory Reconciliation
  imports TokenModel PyDatetime Settlement
begin

text \<open>
  \<open>issuer/reconciliation.py\<close>: the settlement engine of the canonical stack. It accepts a
  submitted token when its chain is valid, it has not expired at the time of submission, it has at
  most seven transfers and its identifier has not been accepted before. It is interpreted as a
  settlement ledger, so that in any sequence of submissions the first valid claim on an identifier
  wins and every other one is rejected.
\<close>

section \<open>The engine\<close>

record submission =
  sub_source :: string
  sub_token :: token
  sub_submitted_at :: py_datetime

record reconciliation_result =
  rr_source :: string
  rr_token_id :: string
  rr_status :: string
  rr_reason :: string

type_synonym engine = "(string, py_datetime) dict"

text \<open>
  \<open>expiry_dt >= at\<close> raises \<open>TypeError\<close> when \<open>at\<close> has no offset; the expiry always has one after the
  default.
\<close>

definition is_not_expired_at :: "string \<Rightarrow> py_datetime \<Rightarrow> bool res" where
  "is_not_expired_at expiry at =
     bind_res (fromisoformat expiry) (\<lambda>expiry_dt.
     let expiry_dt = (if dt_utcoffset expiry_dt = None then replace_tz_utc expiry_dt else expiry_dt)
     in bind_res (instant expiry_dt) (\<lambda>e. bind_res (instant at) (\<lambda>a. Inr (a \<le> e))))"

text \<open>\<open>getattr(token, "policy", {}).get("max_hops", 7)\<close>: a token has no attribute \<open>policy\<close>.\<close>

definition max_hops :: int where
  "max_hops = 7"

definition engine_submit ::
  "ed25519 \<Rightarrow> py_datetime \<Rightarrow> string \<Rightarrow> token \<Rightarrow> py_datetime option \<Rightarrow> engine \<Rightarrow>
     reconciliation_result res \<times> engine" where
  "engine_submit C now source t submitted_at eng =
     (let at = (case submitted_at of None \<Rightarrow> now | Some a \<Rightarrow> a);
          result = (\<lambda>status reason. \<lparr>rr_source = source, rr_token_id = tk_token_id t,
            rr_status = status, rr_reason = reason\<rparr>)
      in if \<not> validate_chain C (tk_issuer_pk t) t
         then (Inr (result ''REJECTED'' ''INVALID_CHAIN''), eng)
         else
           (case is_not_expired_at (tk_expiry t) at of
              Inl e \<Rightarrow> (Inl e, eng)
            | Inr not_expired \<Rightarrow>
                if \<not> not_expired then (Inr (result ''REJECTED'' ''EXPIRED''), eng)
                else if max_hops < int (length (tk_transfer_chain t))
                then (Inr (result ''REJECTED'' ''MAX_HOPS_EXCEEDED''), eng)
                else if map_of eng (tk_token_id t) \<noteq> None
                then (Inr (result ''REJECTED'' ''DUPLICATE_TOKEN_ID''), eng)
                else (Inr (result ''ACCEPTED'' ''OK''), AList.update (tk_token_id t) at eng)))"

section \<open>The engine as a settlement ledger\<close>

text \<open>A request is a submission with its time.\<close>

definition engine_step ::
  "ed25519 \<Rightarrow> submission \<Rightarrow> engine \<Rightarrow> reconciliation_result res \<times> engine" where
  "engine_step C sub eng =
     engine_submit C (sub_submitted_at sub) (sub_source sub) (sub_token sub)
       (Some (sub_submitted_at sub)) eng"

definition rr_accepted :: "reconciliation_result res \<Rightarrow> bool" where
  "rr_accepted r \<longleftrightarrow> (case r of Inl _ \<Rightarrow> False | Inr rec \<Rightarrow> rr_status rec = ''ACCEPTED'')"

text \<open>What makes a submission valid, the duplicate check apart.\<close>

definition sub_valid :: "ed25519 \<Rightarrow> submission \<Rightarrow> bool" where
  "sub_valid C sub \<longleftrightarrow>
     validate_chain C (tk_issuer_pk (sub_token sub)) (sub_token sub) \<and>
     is_not_expired_at (tk_expiry (sub_token sub)) (sub_submitted_at sub) = Inr True \<and>
     length (tk_transfer_chain (sub_token sub)) \<le> 7"

lemma engine_step_cases:
  "engine_step C sub eng =
     (if sub_valid C sub \<and> map_of eng (tk_token_id (sub_token sub)) = None
      then (Inr \<lparr>rr_source = sub_source sub, rr_token_id = tk_token_id (sub_token sub),
              rr_status = ''ACCEPTED'', rr_reason = ''OK''\<rparr>,
            AList.update (tk_token_id (sub_token sub)) (sub_submitted_at sub) eng)
      else (fst (engine_step C sub eng), eng))"
  by (auto simp: engine_step_def engine_submit_def sub_valid_def max_hops_def Let_def
      split: sum.splits)

lemma engine_step_accepted:
  "rr_accepted (fst (engine_step C sub eng)) \<longleftrightarrow>
     sub_valid C sub \<and> tk_token_id (sub_token sub) \<notin> dict_keys eng"
  by (auto simp: engine_step_def engine_submit_def sub_valid_def max_hops_def Let_def rr_accepted_def
      map_of_eq_None_iff simp del: set_map split: sum.splits)

lemma engine_step_keys:
  "dict_keys (snd (engine_step C sub eng)) =
     (if rr_accepted (fst (engine_step C sub eng))
      then insert (tk_token_id (sub_token sub)) (dict_keys eng) else dict_keys eng)"
  by (subst engine_step_cases)
    (simp add: engine_step_accepted map_of_eq_None_iff dict_keys_update del: set_map)

interpretation engine: first_claim "engine_step C" "\<lambda>sub. tk_token_id (sub_token sub)" rr_accepted
  dict_keys "\<lambda>_. True" "\<lambda>_. sub_valid C"
  for C
  by unfold_locales (auto simp: engine_step_accepted engine_step_keys simp del: set_map)

section \<open>Properties\<close>

text \<open>
  C2: First valid claim wins: in any sequence of submissions to an engine, a submission is
  accepted exactly when its token has a valid chain of at most seven transfers and has not expired
  at the time of submission, its identifier had not been accepted before the sequence, and no
  earlier submission of the sequence was such a valid claim on the same identifier.
\<close>
theorem engine_first_valid_claim:
  assumes "i < length subs"
  shows "rr_accepted (fst (submit_all (engine_step C) subs eng) ! i) \<longleftrightarrow>
    validate_chain C (tk_issuer_pk (sub_token (subs ! i))) (sub_token (subs ! i)) \<and>
    is_not_expired_at (tk_expiry (sub_token (subs ! i))) (sub_submitted_at (subs ! i)) = Inr True \<and>
    length (tk_transfer_chain (sub_token (subs ! i))) \<le> 7 \<and>
    tk_token_id (sub_token (subs ! i)) \<notin> dict_keys eng \<and>
    (\<forall>j < i. sub_valid C (subs ! j) \<longrightarrow>
       tk_token_id (sub_token (subs ! j)) \<noteq> tk_token_id (sub_token (subs ! i)))"
  using engine.accepts_first_valid [where C = C and s = eng and rs = subs and i = i] assms by (simp add: sub_valid_def)

definition demo_time :: py_datetime where
  "demo_time = \<lparr>dt_year = 2026, dt_month = 1, dt_day = 1, dt_hour = 0, dt_minute = 0,
     dt_second = 0, dt_microsecond = 0, dt_utcoffset = Some 0\<rparr>"

definition demo_submission :: "string \<Rightarrow> submission" where
  "demo_submission source =
     \<lparr>sub_source = source, sub_token = demo_token 2 ''t1'' 10, sub_submitted_at = demo_time\<rparr>"

lemma demo_not_expired: "is_not_expired_at ''2030-01-01T00:00:00+00:00'' demo_time = Inr True"
proof -
  let ?d = "\<lparr>dt_year = 2030, dt_month = 1, dt_day = 1, dt_hour = 0, dt_minute = 0,
     dt_second = 0, dt_microsecond = 0, dt_utcoffset = Some 0\<rparr>"
  have "dt_valid ?d" by (simp add: dt_valid_def days_in_month_def day_us_def)
  moreover have "isoformat ?d = ''2030-01-01T00:00:00+00:00''"
    by (simp add: isoformat_def time_text_def offset_text_def Let_def pad_numeral pad.simps digit_chars)
  ultimately have "fromisoformat ''2030-01-01T00:00:00+00:00'' = Inr ?d"
    using isoformat_roundtrip by metis
  then show ?thesis
    by (simp add: is_not_expired_at_def demo_time_def instant_def local_us_def to_ordinal_def
        days_before_year_def days_before_month_def days_in_month_def Let_def)
qed

lemma demo_submission_valid: "sub_valid toy_ed25519 (demo_submission source)"
  by (simp add: sub_valid_def demo_submission_def demo_not_expired)

lemma engine_first_valid_claim_witness:
  "rr_accepted (fst (submit_all (engine_step toy_ed25519) [demo_submission ''a'', demo_submission ''b''] []) ! 0) \<and>
   \<not> rr_accepted (fst (submit_all (engine_step toy_ed25519) [demo_submission ''a'', demo_submission ''b''] []) ! 1)"
proof -
  let ?subs = "[demo_submission ''a'', demo_submission ''b'']"
  have "0 < length ?subs" "1 < length ?subs" by simp_all
  note first = engine_first_valid_claim [OF this(1), of toy_ed25519 "[]"]
    and second = engine_first_valid_claim [OF this(2), of toy_ed25519 "[]"]
  show ?thesis
    unfolding first second using demo_submission_valid by (auto simp: sub_valid_def demo_submission_def)
qed

text \<open>
  Whatever is submitted, by whomever and in whatever order, with malformed expiry dates and
  naive times included: no two accepted submissions name the same token identifier, and none names
  one that was accepted earlier.
\<close>
theorem engine_accepts_once:
  "let outs = fst (submit_all (engine_step C) subs eng);
       ids = map (\<lambda>sub. tk_token_id (sub_token sub)) (accepted_of rr_accepted subs outs)
   in distinct ids \<and> set ids \<inter> dict_keys eng = {} \<and>
      dict_keys (snd (submit_all (engine_step C) subs eng)) = dict_keys eng \<union> set ids"
  using engine.accepted_once [where C = C and s = eng and rs = subs]
    engine.run_settles [where C = C and s = eng and rs = subs]
  by (simp add: Let_def image_image)

section \<open>A gap\<close>

text \<open>
  The engine checks a token against the issuer key the token itself names. Any key pair is an
  issuer: what it mints is accepted.
\<close>

theorem engine_accepts_any_mint:
  assumes "ed_ok C" and "b64_keypair C any_sk any_pk" and "tid \<notin> dict_keys eng"
  shows "\<exists>t. mint C any_sk any_pk owner_pk tid amount = Inr t \<and>
    rr_accepted (fst (engine_step C
      \<lparr>sub_source = source, sub_token = t, sub_submitted_at = demo_time\<rparr> eng))"
proof -
  obtain t where t: "mint C any_sk any_pk owner_pk tid amount = Inr t"
    using mint_returns [OF assms(1,2)] by blast
  note f = mint_Inr [OF t] and valid = mint_valid [OF assms(1,2) t]
  have "sub_valid C \<lparr>sub_source = source, sub_token = t, sub_submitted_at = demo_time\<rparr>"
    using f valid by (simp add: sub_valid_def demo_not_expired)
  with t assms(3) f(1) show ?thesis by (simp add: engine_step_accepted del: set_map)
qed

end
