(* ===== verification/PocModels.thy ===== *)
theory PocModels
  imports Signatures Json PyDatetime
begin

text \<open>
  The data of the offline proof of concept: \<open>protocol/policy.py\<close> and
  \<open>digital_token/poc_models.py\<close>. A new token or transfer takes its identifier and its clock
  readings as a stamp. The lemmas show that the canonical payloads, which are what is signed and
  hashed, determine every field they are made of.
\<close>

section \<open>Policy\<close>

record policy_config =
  pc_max_tx_value :: int
  pc_max_hops :: int
  pc_max_balance :: int
  pc_max_token_hops :: "int option"
  pc_max_wallet_balance :: "int option"
  pc_token_expiry_seconds :: int

definition policy_post_init :: "policy_config \<Rightarrow> policy_config" where
  "policy_post_init p =
     (let p1 = (case pc_max_token_hops p of None \<Rightarrow> p | Some h \<Rightarrow> p\<lparr>pc_max_hops := h\<rparr>)
      in case pc_max_wallet_balance p1 of None \<Rightarrow> p1 | Some b \<Rightarrow> p1\<lparr>pc_max_balance := b\<rparr>)"

definition default_policy :: policy_config where
  "default_policy = policy_post_init
     \<lparr>pc_max_tx_value = 1000, pc_max_hops = 7, pc_max_balance = 10000, pc_max_token_hops = None,
      pc_max_wallet_balance = None, pc_token_expiry_seconds = 7 * 24 * 60 * 60\<rparr>"

text \<open>\<open>now\<close> is the instant of \<open>datetime.now(tz=utc)\<close> in microseconds.\<close>

definition is_not_expired :: "int \<Rightarrow> py_datetime \<Rightarrow> int \<Rightarrow> bool res" where
  "is_not_expired now created_at expiry_seconds =
     bind_res (instant created_at) (\<lambda>c. Inr (now - c \<le> expiry_seconds * 1000000))"

section \<open>Tokens, transfers, bundles\<close>

record poc_token =
  pt_token_id :: string
  pt_value :: int
  pt_issuer_pk :: string
  pt_current_owner :: string
  pt_nonce :: int
  pt_issuer_signature :: string
  pt_last_transfer_id :: "string option"
  pt_last_transfer_hash :: "string option"
  pt_hop_count :: int
  pt_issue_timestamp :: int
  pt_created_at :: py_datetime
  pt_origin_token_id :: "string option"

record poc_transfer =
  pf_transfer_id :: string
  pf_token_id :: string
  pf_sender_pk :: string
  pf_receiver_pk :: string
  pf_nonce :: int
  pf_parent_transfer_id :: "string option"
  pf_parent_transfer_hash :: "string option"
  pf_prev_transfer_hash :: "string option"
  pf_hop_count :: int
  pf_signature :: string
  pf_timestamp :: py_datetime

record payment_bundle =
  pb_bundle_id :: string
  pb_transfers :: "poc_transfer list"
  pb_tokens :: "(string, poc_token) dict"

text \<open>A fresh identifier and the readings of \<open>time.time()\<close> and \<open>datetime.now(tz=utc)\<close>.\<close>

record poc_stamp =
  ps_uuid :: string
  ps_time :: int
  ps_now :: py_datetime

definition canonical_json :: "(string, json) dict \<Rightarrow> bytes" where
  "canonical_json payload = utf8_encode (dumps_sorted (JObj payload))"

definition poc_new_unsigned :: "poc_stamp \<Rightarrow> int \<Rightarrow> string \<Rightarrow> string \<Rightarrow> int \<Rightarrow> poc_token" where
  "poc_new_unsigned st val issuer_pk owner_pk nonce =
     (let tid = ps_uuid st
      in \<lparr>pt_token_id = tid, pt_value = val, pt_issuer_pk = issuer_pk, pt_current_owner = owner_pk,
          pt_nonce = nonce, pt_issuer_signature = [], pt_last_transfer_id = None,
          pt_last_transfer_hash = None, pt_hop_count = 0, pt_issue_timestamp = ps_time st,
          pt_created_at = ps_now st, pt_origin_token_id = Some tid\<rparr>)"

definition poc_token_payload :: "poc_token \<Rightarrow> bytes" where
  "poc_token_payload t = canonical_json
     [(''token_id'', JStr (pt_token_id t)),
      (''value'', JInt (pt_value t)),
      (''issuer_pk'', JStr (pt_issuer_pk t)),
      (''owner_pk'', JStr (pt_current_owner t)),
      (''nonce'', JInt (pt_nonce t)),
      (''issue_timestamp'', JInt (pt_issue_timestamp t)),
      (''origin_token_id'', opt_str_json (pt_origin_token_id t))]"

definition poc_transfer_unsigned ::
  "poc_stamp \<Rightarrow> string \<Rightarrow> string \<Rightarrow> string \<Rightarrow> int \<Rightarrow> string option \<Rightarrow> string option \<Rightarrow>
     string option \<Rightarrow> int \<Rightarrow> poc_transfer" where
  "poc_transfer_unsigned st token_id sender_pk receiver_pk nonce parent_transfer_id
     parent_transfer_hash prev_transfer_hash hop_count =
     \<lparr>pf_transfer_id = ps_uuid st, pf_token_id = token_id, pf_sender_pk = sender_pk,
      pf_receiver_pk = receiver_pk, pf_nonce = nonce, pf_parent_transfer_id = parent_transfer_id,
      pf_parent_transfer_hash = parent_transfer_hash, pf_prev_transfer_hash = prev_transfer_hash,
      pf_hop_count = hop_count, pf_signature = [], pf_timestamp = ps_now st\<rparr>"

definition poc_transfer_fields :: "poc_transfer \<Rightarrow> (string, json) dict" where
  "poc_transfer_fields r =
     [(''transfer_id'', JStr (pf_transfer_id r)),
      (''token_id'', JStr (pf_token_id r)),
      (''sender_pk'', JStr (pf_sender_pk r)),
      (''receiver_pk'', JStr (pf_receiver_pk r)),
      (''nonce'', JInt (pf_nonce r)),
      (''parent_transfer_id'', opt_str_json (pf_parent_transfer_id r)),
      (''parent_transfer_hash'', opt_str_json (pf_parent_transfer_hash r)),
      (''prev_transfer_hash'', opt_str_json (pf_prev_transfer_hash r)),
      (''hop_count'', JInt (pf_hop_count r)),
      (''timestamp'', JStr (isoformat (pf_timestamp r)))]"

definition poc_transfer_payload :: "poc_transfer \<Rightarrow> bytes" where
  "poc_transfer_payload r = canonical_json (poc_transfer_fields r)"

definition poc_payload_hash :: "poc_transfer \<Rightarrow> string" where
  "poc_payload_hash r =
     sha256_hex (canonical_json (poc_transfer_fields r @ [(''signature'', JStr (pf_signature r))]))"

definition bundle_create ::
  "string \<Rightarrow> poc_transfer list \<Rightarrow> (string, poc_token) dict \<Rightarrow> payment_bundle" where
  "bundle_create uuid transfers tokens =
     \<lparr>pb_bundle_id = uuid, pb_transfers = transfers, pb_tokens = tokens\<rparr>"

section \<open>What the payloads determine\<close>

lemma canonical_json_inject:
  assumes "canonical_json a = canonical_json b" and "map fst a = map fst b"
    and "distinct (map fst a)" and "list_all (\<lambda>(k, v). json_flat v) a"
    and "list_all (\<lambda>(k, v). json_flat v) b"
  shows "a = b"
  using assms dumps_sorted_flat_inject
  by (simp add: canonical_json_def utf8_encode_inject)

lemma poc_token_payload_eq_iff:
  "poc_token_payload t = poc_token_payload u \<longleftrightarrow>
     pt_token_id t = pt_token_id u \<and> pt_value t = pt_value u \<and> pt_issuer_pk t = pt_issuer_pk u \<and>
     pt_current_owner t = pt_current_owner u \<and> pt_nonce t = pt_nonce u \<and>
     pt_issue_timestamp t = pt_issue_timestamp u \<and> pt_origin_token_id t = pt_origin_token_id u"
  unfolding poc_token_payload_def by (auto dest: canonical_json_inject)

lemma poc_transfer_fields_flat:
  "list_all (\<lambda>(k, v). json_flat v) (poc_transfer_fields r)" "distinct (map fst (poc_transfer_fields r))"
  "map fst (poc_transfer_fields r) = map fst (poc_transfer_fields s)"
  by (simp_all add: poc_transfer_fields_def)

lemma poc_transfer_fields_inject:
  assumes "dt_valid (pf_timestamp r)" and "dt_valid (pf_timestamp s)"
  shows "poc_transfer_fields r = poc_transfer_fields s \<longleftrightarrow> r\<lparr>pf_signature := []\<rparr> = s\<lparr>pf_signature := []\<rparr>"
  using isoformat_inject [OF assms]
  by (cases r; cases s) (auto simp: poc_transfer_fields_def)

lemma poc_transfer_payload_eq_iff:
  assumes "dt_valid (pf_timestamp r)" and "dt_valid (pf_timestamp s)"
  shows "poc_transfer_payload r = poc_transfer_payload s \<longleftrightarrow>
    r\<lparr>pf_signature := []\<rparr> = s\<lparr>pf_signature := []\<rparr>"
  using canonical_json_inject [OF _ poc_transfer_fields_flat(3,2,1,1)]
  unfolding poc_transfer_payload_def poc_transfer_fields_inject [OF assms, symmetric] by metis

lemma poc_transfer_payload_signature [simp]:
  "poc_transfer_payload (r\<lparr>pf_signature := s\<rparr>) = poc_transfer_payload r"
  by (simp add: poc_transfer_payload_def poc_transfer_fields_def)

end
