(* ===== verification/Heartbeat.thy ===== *)
theory Heartbeat
  imports PocModels "HOL-Library.Multiset"
begin

text \<open>
  The signed heartbeat of \<open>protocol/proxy_sync.py\<close>. A time stamp is the float of \<open>time.time()\<close>; the
  model takes a clock that ticks in whole microseconds, so a time stamp is a number of
  microseconds and \<open>repr\<close> writes it as seconds with up to six decimals (the positional format
  Python uses for floats of this size). The lemmas show what the signed bytes determine: the
  wallet, the time and, when no identifier contains the separator, the identifiers up to order.
\<close>

fun join_csv :: "string list \<Rightarrow> string" where
  "join_csv [] = []"
| "join_csv [s] = s"
| "join_csv (s # t # ss) = s @ '','' @ join_csv (t # ss)"

section \<open>Heartbeats\<close>

record sync_heartbeat =
  hb_wallet_pk :: bytes
  hb_token_ids :: "string list"
  hb_timestamp :: int
  hb_signature :: bytes

definition heartbeat_payload :: "bytes \<Rightarrow> string list \<Rightarrow> int \<Rightarrow> bytes" where
  "heartbeat_payload wallet_pk token_ids timestamp =
     (let ordered_ids = join_csv (sort token_ids)
      in utf8_encode (to_hex wallet_pk) @ utf8_encode ''|'' @ utf8_encode ordered_ids @
           utf8_encode ''|'' @ utf8_encode (repr_time timestamp))"

text \<open>\<open>now\<close> is the reading of \<open>time.time()\<close>.\<close>

definition create_heartbeat ::
  "backend \<Rightarrow> int \<Rightarrow> bytes \<Rightarrow> bytes \<Rightarrow> string list \<Rightarrow> sync_heartbeat res" where
  "create_heartbeat B now wallet_sk wallet_pk token_ids =
     (let payload = heartbeat_payload wallet_pk token_ids now
      in bind_res (crypto_sign B payload (to_hex wallet_sk)) (\<lambda>s.
         bind_res (of_option (ValueError ''fromhex'') (from_hex s)) (\<lambda>signature.
           Inr \<lparr>hb_wallet_pk = wallet_pk, hb_token_ids = token_ids, hb_timestamp = now,
                hb_signature = signature\<rparr>)))"

definition verify_heartbeat :: "backend \<Rightarrow> sync_heartbeat \<Rightarrow> bool" where
  "verify_heartbeat B hb =
     (let payload = heartbeat_payload (hb_wallet_pk hb) (hb_token_ids hb) (hb_timestamp hb)
      in crypto_verify B payload (to_hex (hb_signature hb)) (to_hex (hb_wallet_pk hb)))"

section \<open>A heartbeat of the wallet verifies\<close>

lemma crypto_sign_hex:
  assumes "backend_ok B" and "hex_keypair B (to_hex sk) pk"
  shows "\<exists>s. crypto_sign B m (to_hex sk) = Inr (to_hex s) \<and> crypto_verify B m (to_hex s) pk"
proof -
  from hexsig.sign_verifies [OF assms, of m] obtain t
    where t: "crypto_sign B m (to_hex sk) = Inr t" "crypto_verify B m t pk" by blast
  moreover from assms(1) obtain C where "cryptography B = Some C"
    by (auto simp: backend_ok_def split: option.splits)
  with t(1) obtain s where "t = to_hex s"
    by (auto simp: crypto_sign_def split: option.splits)
  ultimately show ?thesis by blast
qed

lemma create_heartbeat_verifies:
  assumes "backend_ok B" and "hex_keypair B (to_hex sk) (to_hex pk)"
  shows "\<exists>hb. create_heartbeat B now sk pk ids = Inr hb \<and> verify_heartbeat B hb \<and>
    hb_wallet_pk hb = pk \<and> hb_token_ids hb = ids \<and> hb_timestamp hb = now"
proof -
  from crypto_sign_hex [OF assms, of "heartbeat_payload pk ids now"] obtain s where
    "crypto_sign B (heartbeat_payload pk ids now) (to_hex sk) = Inr (to_hex s)"
    "crypto_verify B (heartbeat_payload pk ids now) (to_hex s) (to_hex pk)" by blast
  then show ?thesis by (simp add: create_heartbeat_def verify_heartbeat_def)
qed

section \<open>What the signed bytes determine\<close>

lemma to_hex_char: "set (to_hex bs) \<subseteq> set ''0123456789abcdef''"
proof (induction bs)
  case (Cons b bs)
  have "byte_val b div 16 < 16" "byte_val b mod 16 < 16"
    using byte_val_less [of b] by (simp_all add: less_mult_imp_div_less)
  then have "hex_digit (byte_val b div 16) \<in> set ''0123456789abcdef''"
    "hex_digit (byte_val b mod 16) \<in> set ''0123456789abcdef''"
    unfolding hex_digit_def by (intro nth_mem; simp)+
  with Cons show ?case
    unfolding to_hex_Cons hex_byte_def set_append by (simp only: list.set Un_subset_iff insert_subset) simp
qed simp

lemma join_csv_inject:
  "\<forall>s \<in> set xs. s \<noteq> [] \<and> CHR '','' \<notin> set s \<Longrightarrow> \<forall>s \<in> set ys. s \<noteq> [] \<and> CHR '','' \<notin> set s \<Longrightarrow>
     join_csv xs = join_csv ys \<Longrightarrow> xs = ys"
proof (induction xs arbitrary: ys rule: join_csv.induct)
  case 1
  then show ?case by (cases ys rule: join_csv.cases) auto
next
  case (2 s)
  show ?case
  proof (cases ys rule: join_csv.cases)
    case (3 u v us)
    with 2 have "CHR '','' \<in> set s" by auto
    with 2 show ?thesis by simp
  qed (use 2 in auto)
next
  case (3 s t ss)
  show ?case
  proof (cases ys rule: join_csv.cases)
    case (2 u)
    with 3 have "CHR '','' \<in> set u" by auto
    with 2 3 show ?thesis by simp
  next
    case ys: (3 u v us)
    from "3.prems"(3) ys have "s @ CHR '','' # join_csv (t # ss) = u @ CHR '','' # join_csv (v # us)" by simp
    then have "s = u \<and> join_csv (t # ss) = join_csv (v # us)"
      using "3.prems"(1,2) ys by (intro split_at_first) auto
    moreover have "t # ss = v # us" if "join_csv (t # ss) = join_csv (v # us)"
      using "3.prems"(1,2) ys that by (intro "3.IH") auto
    ultimately show ?thesis using ys by simp
  qed (use 3 in auto)
qed

text \<open>
  What the owner of a wallet signs with a heartbeat: two heartbeats whose token identifiers are
  non-empty and contain no comma have the same signed bytes exactly when they name the same wallet
  key, the same time and the same identifiers, in whatever order.
\<close>
theorem heartbeat_payload_binds:
  assumes "\<forall>s \<in> set ids \<union> set ids'. s \<noteq> [] \<and> CHR '','' \<notin> set s"
  shows "heartbeat_payload pk ids ts = heartbeat_payload pk' ids' ts' \<longleftrightarrow>
    pk = pk' \<and> mset ids = mset ids' \<and> ts = ts'"
proof
  assume "heartbeat_payload pk ids ts = heartbeat_payload pk' ids' ts'"
  then have eq: "to_hex pk @ CHR ''|'' # join_csv (sort ids) @ CHR ''|'' # repr_time ts =
      to_hex pk' @ CHR ''|'' # join_csv (sort ids') @ CHR ''|'' # repr_time ts'"
    unfolding heartbeat_payload_def Let_def utf8_encode_append [symmetric] utf8_encode_inject by simp
  have "CHR ''|'' \<notin> set (to_hex k)" for k using to_hex_char [of k] by auto
  from split_at_first [OF this this eq] have "pk = pk'"
    and eq2: "join_csv (sort ids) @ CHR ''|'' # repr_time ts = join_csv (sort ids') @ CHR ''|'' # repr_time ts'"
    by simp_all
  from split_at_last [OF repr_time_no_bar repr_time_no_bar eq2]
  have "join_csv (sort ids) = join_csv (sort ids')" "ts = ts'" by (simp_all add: repr_time_inject)
  moreover from this(1) have "sort ids = sort ids'"
    using assms by (intro join_csv_inject) auto
  ultimately show "pk = pk' \<and> mset ids = mset ids' \<and> ts = ts'"
    using \<open>pk = pk'\<close> by (metis mset_sort)
next
  assume "pk = pk' \<and> mset ids = mset ids' \<and> ts = ts'"
  moreover from this have "sort ids = sort ids'" by (metis properties_for_sort mset_sort sorted_sort)
  ultimately show "heartbeat_payload pk ids ts = heartbeat_payload pk' ids' ts'"
    by (simp add: heartbeat_payload_def)
qed

lemma heartbeat_payload_binds_witness:
  "heartbeat_payload [1] [''a'', ''b''] 5 = heartbeat_payload [1] [''b'', ''a''] 5 \<and>
   heartbeat_payload [1] [''a'', ''b''] 5 \<noteq> heartbeat_payload [1] [''a''] 5"
  using heartbeat_payload_binds [of "[''a'', ''b'']" "[''b'', ''a'']" "[1]" 5 "[1]" 5]
    heartbeat_payload_binds [of "[''a'', ''b'']" "[''a'']" "[1]" 5 "[1]" 5]
  by simp

text \<open>Without that, identifiers run together: a comma inside one is the separator between two.\<close>

lemma heartbeat_ids_ambiguous: "heartbeat_payload pk [''a,b''] ts = heartbeat_payload pk [''a'', ''b''] ts"
  by (simp add: heartbeat_payload_def less_eq_list_code less_list_code)

end
