(* ===== verification/OfflineWallet.thy ===== *)
theory OfflineWallet
  imports PocModels Settlement
begin

text \<open>
  \<open>wallet/offline_wallet.py\<close>: the policy-enforcing wallet of the offline proof of concept. Clock
  readings are instants in microseconds; every transfer of a payment draws its own stamp. An
  operation that can raise after a change returns the changed wallet beside the error. The
  lemmas give the condition under which a transfer is accepted, interpret acceptance as a
  settlement ledger keyed by transfer identifier (replay protection), and show what a payment
  does to the registers.
\<close>

section \<open>State\<close>

record offline_wallet =
  ow_owner_name :: string
  ow_private_key_hex :: string
  ow_public_key_hex :: string
  ow_policy :: policy_config
  ow_utr :: "(string, poc_token) dict"
  ow_str :: "(string, poc_token) dict"
  ow_transfer_history :: "(string, string option) dict"
  ow_transfer_hashes :: "(string, string) dict"
  ow_processed_transfer_ids :: "string set"
  ow_sync_required :: "string set"

definition new_offline_wallet :: "string \<Rightarrow> string \<Rightarrow> string \<Rightarrow> policy_config \<Rightarrow> offline_wallet" where
  "new_offline_wallet owner_name private_key_hex public_key_hex policy =
     \<lparr>ow_owner_name = owner_name, ow_private_key_hex = private_key_hex,
      ow_public_key_hex = public_key_hex, ow_policy = policy, ow_utr = [], ow_str = [],
      ow_transfer_history = [], ow_transfer_hashes = [], ow_processed_transfer_ids = {},
      ow_sync_required = {}\<rparr>"

definition ow_balance :: "offline_wallet \<Rightarrow> int" where
  "ow_balance w = dict_total pt_value (ow_utr w)"

definition ow_receive_token :: "poc_token \<Rightarrow> offline_wallet \<Rightarrow> offline_wallet res" where
  "ow_receive_token t w =
     (if pt_current_owner t \<noteq> ow_public_key_hex w then Inl (ValueError ''token owner mismatch'')
      else if pc_max_balance (ow_policy w) < ow_balance w + pt_value t
      then Inl (ValueError ''MAX_BALANCE exceeded'')
      else Inr (w\<lparr>ow_utr := AList.update (pt_token_id t) t (ow_utr w)\<rparr>))"

section \<open>Spending\<close>

definition ow_select_tokens :: "int \<Rightarrow> offline_wallet \<Rightarrow> poc_token list res" where
  "ow_select_tokens amount w =
     of_option (ValueError ''Insufficient funds'')
       (greedy_loop pt_value amount [] 0 (sort_key pt_value (map snd (ow_utr w))))"

definition ow_select_from_pool :: "poc_token list \<Rightarrow> int \<Rightarrow> poc_token list res" where
  "ow_select_from_pool pool amount =
     of_option (ValueError ''Insufficient spendable funds'')
       (greedy_loop pt_value amount [] 0 (sort_key pt_value pool))"

definition ow_is_token_spendable ::
  "poc_token \<Rightarrow> int \<Rightarrow> offline_wallet \<Rightarrow> bool \<times> offline_wallet" where
  "ow_is_token_spendable t now_epoch w =
     (let expired = pc_token_expiry_seconds (ow_policy w) < now_epoch - pt_issue_timestamp t;
          maxed_hops = pc_max_hops (ow_policy w) \<le> pt_nonce t
      in if expired \<or> maxed_hops
         then (False, w\<lparr>ow_sync_required := insert (pt_token_id t) (ow_sync_required w)\<rparr>)
         else (True, w))"

text \<open>The list comprehension over the UTR, with its side effect on \<open>sync_required\<close>.\<close>

fun ow_spendable :: "int \<Rightarrow> poc_token list \<Rightarrow> offline_wallet \<Rightarrow> poc_token list \<times> offline_wallet" where
  "ow_spendable now_epoch [] w = ([], w)"
| "ow_spendable now_epoch (t # ts) w =
     (let (ok, w1) = ow_is_token_spendable t now_epoch w;
          (rest, w2) = ow_spendable now_epoch ts w1
      in (if ok then t # rest else rest, w2))"

fun ow_spend_loop ::
  "backend \<Rightarrow> (nat \<Rightarrow> poc_stamp) \<Rightarrow> string \<Rightarrow> nat \<Rightarrow> poc_token list \<Rightarrow> poc_transfer list \<Rightarrow>
     (string, poc_token) dict \<Rightarrow> offline_wallet \<Rightarrow>
     (poc_transfer list \<times> (string, poc_token) dict) res \<times> offline_wallet" where
  "ow_spend_loop B st receiver_pk i [] transfers outbound w = (Inr (transfers, outbound), w)"
| "ow_spend_loop B st receiver_pk i (t # ts) transfers outbound w =
     (case map_of (ow_utr w) (pt_token_id t) of
        None \<Rightarrow> (Inl (KeyError (pt_token_id t)), w)
      | Some _ \<Rightarrow>
          let w1 = w\<lparr>ow_utr := AList.delete (pt_token_id t) (ow_utr w),
                ow_str := AList.update (pt_token_id t) t (ow_str w)\<rparr>;
              spend_token = t\<lparr>pt_current_owner := receiver_pk, pt_nonce := pt_nonce t + 1\<rparr>;
              transfer = poc_transfer_unsigned (st i) (pt_token_id spend_token)
                (ow_public_key_hex w1) receiver_pk (pt_nonce spend_token) (pt_last_transfer_id t)
                (pt_last_transfer_hash t) (pt_last_transfer_hash t) (pt_hop_count t + 1)
          in case crypto_sign B (poc_transfer_payload transfer) (ow_private_key_hex w1) of
               Inl e \<Rightarrow> (Inl e, w1)
             | Inr s \<Rightarrow>
                 ow_spend_loop B st receiver_pk (i + 1) ts
                   (transfers @ [transfer\<lparr>pf_signature := s\<rparr>])
                   (AList.update (pt_token_id spend_token) spend_token outbound) w1)"

definition ow_create_payment ::
  "backend \<Rightarrow> (nat \<Rightarrow> poc_stamp) \<Rightarrow> string \<Rightarrow> int \<Rightarrow> string \<Rightarrow> int \<Rightarrow> offline_wallet \<Rightarrow>
     payment_bundle res \<times> offline_wallet" where
  "ow_create_payment B st bundle_uuid now receiver_pk amount w =
     (if amount \<le> 0 then (Inl (ValueError ''Amount must be positive''), w)
      else if pc_max_tx_value (ow_policy w) < amount
      then (Inl (PolicyError ''MAX_TX_VALUE exceeded''), w)
      else
        let now_epoch = epoch_seconds now;
            (spendable, w1) = ow_spendable now_epoch (map snd (ow_utr w)) w
        in case ow_select_from_pool spendable amount of
             Inl e \<Rightarrow> (Inl e, w1)
           | Inr selected \<Rightarrow>
               (case ow_spend_loop B st receiver_pk 0 selected [] [] w1 of
                  (Inl e, w2) \<Rightarrow> (Inl e, w2)
                | (Inr (transfers, outbound), w2) \<Rightarrow>
                    (Inr (bundle_create bundle_uuid transfers outbound), w2)))"

section \<open>Receiving\<close>

text \<open>\<open>now1\<close> is the clock reading of \<open>is_not_expired\<close>, \<open>now2\<close> the one after it.\<close>

definition ow_verify_transfer_with_reason ::
  "backend \<Rightarrow> int \<Rightarrow> int \<Rightarrow> poc_transfer \<Rightarrow> poc_token \<Rightarrow> offline_wallet \<Rightarrow> (bool \<times> string) res" where
  "ow_verify_transfer_with_reason B now1 now2 transfer t w =
     (let policy = ow_policy w; expected_prev_hash = pt_last_transfer_hash t
      in if pf_transfer_id transfer \<in> ow_processed_transfer_ids w
         then Inr (False, ''REPLAY_TRANSFER_ID'')
         else if pf_receiver_pk transfer \<noteq> ow_public_key_hex w then Inr (False, ''WRONG_RECEIVER'')
         else if pc_max_hops policy < pf_hop_count transfer then Inr (False, ''MAX_HOPS_EXCEEDED'')
         else if pc_max_hops policy < pf_nonce transfer then Inr (False, ''MAX_HOPS_EXCEEDED'')
         else if pf_parent_transfer_id transfer \<noteq> pt_last_transfer_id t
         then Inr (False, ''BROKEN_PARENT_LINK'')
         else if pf_parent_transfer_hash transfer \<noteq> pt_last_transfer_hash t
         then Inr (False, ''BROKEN_PARENT_HASH_LINK'')
         else if pf_prev_transfer_hash transfer \<noteq> expected_prev_hash
         then Inr (False, ''BROKEN_HASH_LINK'')
         else
           bind_res (is_not_expired now1 (pt_created_at t) (pc_token_expiry_seconds policy))
             (\<lambda>fresh.
             if \<not> fresh then Inr (False, ''TOKEN_EXPIRED'')
             else if pc_token_expiry_seconds policy < epoch_seconds now2 - pt_issue_timestamp t
             then Inr (False, ''TOKEN_EXPIRED'')
             else if \<not> crypto_verify B (poc_transfer_payload transfer) (pf_signature transfer)
                       (pf_sender_pk transfer)
             then Inr (False, ''BAD_TRANSFER_SIG'')
             else Inr (True, ''OK'')))"

definition ow_verify_transfer ::
  "backend \<Rightarrow> int \<Rightarrow> int \<Rightarrow> poc_transfer \<Rightarrow> poc_token \<Rightarrow> offline_wallet \<Rightarrow> bool res" where
  "ow_verify_transfer B now1 now2 transfer t w =
     map_sum (\<lambda>e. e) fst (ow_verify_transfer_with_reason B now1 now2 transfer t w)"

definition ow_apply_transfer_with_reason ::
  "backend \<Rightarrow> int \<Rightarrow> int \<Rightarrow> poc_transfer \<Rightarrow> poc_token \<Rightarrow> offline_wallet \<Rightarrow>
     (bool \<times> string) res \<times> offline_wallet" where
  "ow_apply_transfer_with_reason B now1 now2 transfer t w =
     (case ow_verify_transfer_with_reason B now1 now2 transfer t w of
        Inl e \<Rightarrow> (Inl e, w)
      | Inr (ok, reason) \<Rightarrow>
          if \<not> ok then (Inr (False, reason), w)
          else if pc_max_balance (ow_policy w) < ow_balance w + pt_value t
          then (Inr (False, ''MAX_BALANCE_EXCEEDED''), w)
          else
            let received = t\<lparr>pt_current_owner := ow_public_key_hex w,
                  pt_last_transfer_id := Some (pf_transfer_id transfer),
                  pt_last_transfer_hash := Some (poc_payload_hash transfer),
                  pt_hop_count := pt_hop_count t + 1\<rparr>
            in (Inr (True, ''ACCEPTED''),
                w\<lparr>ow_utr := AList.update (pt_token_id t) received (ow_utr w),
                  ow_transfer_history := AList.update (pt_token_id t)
                    (Some (pf_transfer_id transfer)) (ow_transfer_history w),
                  ow_transfer_hashes := AList.update (pf_transfer_id transfer)
                    (poc_payload_hash transfer) (ow_transfer_hashes w),
                  ow_processed_transfer_ids :=
                    insert (pf_transfer_id transfer) (ow_processed_transfer_ids w)\<rparr>))"

definition ow_apply_transfer ::
  "backend \<Rightarrow> int \<Rightarrow> int \<Rightarrow> poc_transfer \<Rightarrow> poc_token \<Rightarrow> offline_wallet \<Rightarrow>
     bool res \<times> offline_wallet" where
  "ow_apply_transfer B now1 now2 transfer t w =
     (let (r, w') = ow_apply_transfer_with_reason B now1 now2 transfer t w
      in (map_sum (\<lambda>e. e) fst r, w'))"

text \<open>
  The loop of the two bundle methods: \<open>clk i\<close> are the two clock readings of round \<open>i\<close>. A transfer
  whose token is not in the bundle raises \<open>KeyError\<close>; what was applied before stays applied.
\<close>

fun ow_receive_loop ::
  "backend \<Rightarrow> (nat \<Rightarrow> int \<times> int) \<Rightarrow> nat \<Rightarrow> (string, poc_token) dict \<Rightarrow> poc_transfer list \<Rightarrow>
     (string \<times> bool \<times> string) list \<Rightarrow> offline_wallet \<Rightarrow>
     (string \<times> bool \<times> string) list res \<times> offline_wallet" where
  "ow_receive_loop B clk i tokens [] results w = (Inr results, w)"
| "ow_receive_loop B clk i tokens (transfer # rest) results w =
     (case map_of tokens (pf_token_id transfer) of
        None \<Rightarrow> (Inl (KeyError (pf_token_id transfer)), w)
      | Some t \<Rightarrow>
          (case ow_apply_transfer_with_reason B (fst (clk i)) (snd (clk i)) transfer t w of
             (Inl e, w1) \<Rightarrow> (Inl e, w1)
           | (Inr (ok, reason), w1) \<Rightarrow>
               ow_receive_loop B clk (i + 1) tokens rest
                 (results @ [(pf_transfer_id transfer, ok, reason)]) w1))"

definition ow_receive_bundle_with_reasons ::
  "backend \<Rightarrow> (nat \<Rightarrow> int \<times> int) \<Rightarrow> payment_bundle \<Rightarrow> offline_wallet \<Rightarrow>
     (string \<times> bool \<times> string) list res \<times> offline_wallet" where
  "ow_receive_bundle_with_reasons B clk bundle w =
     ow_receive_loop B clk 0 (pb_tokens bundle) (pb_transfers bundle) [] w"

definition ow_receive_payment ::
  "backend \<Rightarrow> (nat \<Rightarrow> int \<times> int) \<Rightarrow> payment_bundle \<Rightarrow> offline_wallet \<Rightarrow>
     (string \<times> bool \<times> string) list res \<times> offline_wallet" where
  "ow_receive_payment B clk bundle w = ow_receive_bundle_with_reasons B clk bundle w"

definition ow_receive_bundle ::
  "backend \<Rightarrow> (nat \<Rightarrow> int \<times> int) \<Rightarrow> payment_bundle \<Rightarrow> offline_wallet \<Rightarrow>
     (string \<times> bool) list res \<times> offline_wallet" where
  "ow_receive_bundle B clk bundle w =
     (let (r, w') = ow_receive_loop B clk 0 (pb_tokens bundle) (pb_transfers bundle) [] w
      in (map_sum (\<lambda>e. e) (map (\<lambda>(tid, ok, _). (tid, ok))) r, w'))"

definition ow_snapshot_tokens :: "offline_wallet \<Rightarrow> poc_token list" where
  "ow_snapshot_tokens w = map snd (ow_utr w)"

section \<open>When a transfer is accepted\<close>

abbreviation ow_hops_ok :: "policy_config \<Rightarrow> poc_transfer \<Rightarrow> bool" where
  "ow_hops_ok policy r \<equiv> pf_hop_count r \<le> pc_max_hops policy \<and> pf_nonce r \<le> pc_max_hops policy"

abbreviation ow_links_ok :: "poc_transfer \<Rightarrow> poc_token \<Rightarrow> bool" where
  "ow_links_ok r t \<equiv>
     pf_parent_transfer_id r = pt_last_transfer_id t \<and>
     pf_parent_transfer_hash r = pt_last_transfer_hash t \<and>
     pf_prev_transfer_hash r = pt_last_transfer_hash t"

text \<open>Everything the receiver checks, the balance cap and the replay set apart.\<close>

definition ow_transfer_ok ::
  "backend \<Rightarrow> policy_config \<Rightarrow> string \<Rightarrow> int \<Rightarrow> int \<Rightarrow> poc_transfer \<Rightarrow> poc_token \<Rightarrow> bool" where
  "ow_transfer_ok B policy pk now1 now2 r t \<longleftrightarrow>
     pf_receiver_pk r = pk \<and> ow_hops_ok policy r \<and> ow_links_ok r t \<and>
     is_not_expired now1 (pt_created_at t) (pc_token_expiry_seconds policy) = Inr True \<and>
     epoch_seconds now2 - pt_issue_timestamp t \<le> pc_token_expiry_seconds policy \<and>
     crypto_verify B (poc_transfer_payload r) (pf_signature r) (pf_sender_pk r)"

lemma ow_verify_ok_iff:
  "ow_verify_transfer_with_reason B now1 now2 r t w = Inr (True, reason) \<longleftrightarrow>
     reason = ''OK'' \<and> pf_transfer_id r \<notin> ow_processed_transfer_ids w \<and>
     ow_transfer_ok B (ow_policy w) (ow_public_key_hex w) now1 now2 r t"
  unfolding ow_verify_transfer_with_reason_def ow_transfer_ok_def Let_def
  by (cases "is_not_expired now1 (pt_created_at t) (pc_token_expiry_seconds (ow_policy w))")
    (auto split: if_splits)

definition ow_received :: "offline_wallet \<Rightarrow> poc_transfer \<Rightarrow> poc_token \<Rightarrow> poc_token" where
  "ow_received w r t =
     t\<lparr>pt_current_owner := ow_public_key_hex w, pt_last_transfer_id := Some (pf_transfer_id r),
       pt_last_transfer_hash := Some (poc_payload_hash r), pt_hop_count := pt_hop_count t + 1\<rparr>"

lemma ow_received_sel [simp]:
  "pt_token_id (ow_received w r t) = pt_token_id t" "pt_value (ow_received w r t) = pt_value t"
  "pt_current_owner (ow_received w r t) = ow_public_key_hex w"
  "pt_nonce (ow_received w r t) = pt_nonce t"
  "pt_hop_count (ow_received w r t) = pt_hop_count t + 1"
  "pt_origin_token_id (ow_received w r t) = pt_origin_token_id t"
  by (simp_all add: ow_received_def)

definition ow_accepted :: "(bool \<times> string) res \<Rightarrow> bool" where
  "ow_accepted out \<longleftrightarrow> (case out of Inl _ \<Rightarrow> False | Inr (ok, _) \<Rightarrow> ok)"

text \<open>The two outcomes of a transfer: nothing changes, or the token is filed and remembered.\<close>

lemma ow_apply_cases:
  obtains (rejected) out where
    "ow_apply_transfer_with_reason B now1 now2 r t w = (out, w)" "\<not> ow_accepted out"
    "pf_transfer_id r \<in> ow_processed_transfer_ids w \<or>
     \<not> ow_transfer_ok B (ow_policy w) (ow_public_key_hex w) now1 now2 r t \<or>
     pc_max_balance (ow_policy w) < ow_balance w + pt_value t"
  | (accepted) w' where
    "ow_apply_transfer_with_reason B now1 now2 r t w = (Inr (True, ''ACCEPTED''), w')"
    "pf_transfer_id r \<notin> ow_processed_transfer_ids w"
    "ow_transfer_ok B (ow_policy w) (ow_public_key_hex w) now1 now2 r t"
    "ow_balance w + pt_value t \<le> pc_max_balance (ow_policy w)"
    "ow_utr w' = AList.update (pt_token_id t) (ow_received w r t) (ow_utr w)"
    "ow_processed_transfer_ids w' = insert (pf_transfer_id r) (ow_processed_transfer_ids w)"
    "ow_str w' = ow_str w" "ow_policy w' = ow_policy w" "ow_public_key_hex w' = ow_public_key_hex w"
    "ow_private_key_hex w' = ow_private_key_hex w"
    "map_of (ow_transfer_hashes w') (pf_transfer_id r) = Some (poc_payload_hash r)"
proof (cases "ow_verify_transfer_with_reason B now1 now2 r t w")
  case (Inl e)
  then have "ow_apply_transfer_with_reason B now1 now2 r t w = (Inl e, w)"
    by (simp add: ow_apply_transfer_with_reason_def)
  moreover from Inl have "pf_transfer_id r \<in> ow_processed_transfer_ids w \<or>
     \<not> ow_transfer_ok B (ow_policy w) (ow_public_key_hex w) now1 now2 r t"
    using ow_verify_ok_iff [of B now1 now2 r t w "''OK''"] by auto
  ultimately show ?thesis using rejected by (auto simp: ow_accepted_def)
next
  case (Inr p)
  obtain ok reason where p: "p = (ok, reason)" by fastforce
  show ?thesis
  proof (cases "ok \<and> ow_balance w + pt_value t \<le> pc_max_balance (ow_policy w)")
    case True
    with Inr p ow_verify_ok_iff [of B now1 now2 r t w reason] show ?thesis
      by (intro accepted [of "snd (ow_apply_transfer_with_reason B now1 now2 r t w)"])
        (simp_all add: ow_apply_transfer_with_reason_def ow_received_def Let_def dict_get_update)
  next
    case False
    then have "\<exists>msg. ow_apply_transfer_with_reason B now1 now2 r t w = (Inr (False, msg), w)"
      using Inr p by (cases ok) (auto simp: ow_apply_transfer_with_reason_def)
    then obtain msg where "ow_apply_transfer_with_reason B now1 now2 r t w = (Inr (False, msg), w)" ..
    moreover have "\<not> ok \<Longrightarrow> pf_transfer_id r \<in> ow_processed_transfer_ids w \<or>
        \<not> ow_transfer_ok B (ow_policy w) (ow_public_key_hex w) now1 now2 r t"
      using Inr p ow_verify_ok_iff [of B now1 now2 r t w "''OK''"] by auto
    ultimately show ?thesis
      using False by (intro rejected) (auto simp: ow_accepted_def)
  qed
qed

section \<open>Replay protection\<close>

text \<open>A request: the two clock readings, the transfer and the token presented with it.\<close>

type_synonym ow_request = "(int \<times> int) \<times> poc_transfer \<times> poc_token"

definition ow_step_apply ::
  "backend \<Rightarrow> ow_request \<Rightarrow> offline_wallet \<Rightarrow> (bool \<times> string) res \<times> offline_wallet" where
  "ow_step_apply B req w =
     (case req of ((now1, now2), r, t) \<Rightarrow> ow_apply_transfer_with_reason B now1 now2 r t w)"

abbreviation req_transfer_id :: "ow_request \<Rightarrow> string" where
  "req_transfer_id req \<equiv> pf_transfer_id (fst (snd req))"

interpretation ow_replay: settlement "ow_step_apply B" req_transfer_id ow_accepted
  ow_processed_transfer_ids "\<lambda>_. True"
  for B
proof unfold_locales
  fix w :: offline_wallet and req :: ow_request
  obtain now1 now2 r t where req: "req = ((now1, now2), r, t)" by (metis prod.collapse)
  { assume "ow_accepted (fst (ow_step_apply B req w))"
    then show "req_transfer_id req \<notin> ow_processed_transfer_ids w \<and>
        ow_processed_transfer_ids (snd (ow_step_apply B req w)) =
          insert (req_transfer_id req) (ow_processed_transfer_ids w)"
      by (cases rule: ow_apply_cases [of B now1 now2 r t w]) (auto simp: req ow_step_apply_def) }
  { assume "\<not> ow_accepted (fst (ow_step_apply B req w))"
    then show "ow_processed_transfer_ids (snd (ow_step_apply B req w)) = ow_processed_transfer_ids w"
      by (cases rule: ow_apply_cases [of B now1 now2 r t w])
        (auto simp: req ow_step_apply_def ow_accepted_def) }
qed simp

section \<open>The balance cap\<close>

text \<open>
  The invariant of a wallet that is given no token of negative value: tokens are filed under their
  identifiers and owned by the wallet, and their total is within the cap.
\<close>

definition ow_inv :: "offline_wallet \<Rightarrow> bool" where
  "ow_inv w \<longleftrightarrow>
     dict_wf (ow_utr w) \<and>
     (\<forall>(k, t) \<in> set (ow_utr w). pt_token_id t = k \<and> pt_current_owner t = ow_public_key_hex w \<and>
        0 \<le> pt_value t) \<and>
     ow_balance w \<le> pc_max_balance (ow_policy w)"

lemma ow_inv_keyed:
  assumes "ow_inv w"
  shows "dict_wf (ow_utr w)" and "\<forall>(k, t) \<in> set (ow_utr w). pt_token_id t = k"
    and "t \<in> snd ` set (ow_utr w) \<Longrightarrow> 0 \<le> pt_value t \<and> pt_current_owner t = ow_public_key_hex w"
  using assms by (auto simp: ow_inv_def)

lemma ow_inv_file:
  assumes "ow_inv w" and "pt_current_owner t = ow_public_key_hex w" and "0 \<le> pt_value t"
    and "ow_balance w + pt_value t \<le> pc_max_balance (ow_policy w)"
    and "ow_utr w' = AList.update (pt_token_id t) t (ow_utr w)"
    and "ow_public_key_hex w' = ow_public_key_hex w" and "ow_policy w' = ow_policy w"
  shows "ow_inv w'"
proof -
  have "ow_balance w' \<le> ow_balance w + pt_value t"
    unfolding ow_balance_def assms(5)
    using assms(1) by (intro dict_total_update_le) (auto simp: ow_inv_def)
  with assms show ?thesis
    by (fastforce simp: ow_inv_def dict_wf_update dest: dict_in_update)
qed

lemma ow_inv_remove:
  assumes "ow_inv w" and "ow_utr w' = AList.delete k (ow_utr w)"
    and "ow_public_key_hex w' = ow_public_key_hex w" and "ow_policy w' = ow_policy w"
  shows "ow_inv w'"
proof -
  have "0 \<le> (case map_of (ow_utr w) k of None \<Rightarrow> 0 | Some v \<Rightarrow> pt_value v)"
    using assms(1) by (auto simp: ow_inv_def split: option.splits dest!: map_of_SomeD)
  then have "ow_balance w' \<le> ow_balance w"
    using dict_total_delete [of "ow_utr w" pt_value k] assms(1,2)
    by (simp add: ow_balance_def ow_inv_def)
  with assms show ?thesis
    by (fastforce simp: ow_inv_def dict_wf_delete dest: dict_in_delete)
qed

lemma ow_inv_cong:
  "ow_utr w' = ow_utr w \<Longrightarrow> ow_public_key_hex w' = ow_public_key_hex w \<Longrightarrow>
     ow_policy w' = ow_policy w \<Longrightarrow> ow_inv w' = ow_inv w"
  by (simp add: ow_inv_def ow_balance_def)

section \<open>What a payment does\<close>

abbreviation ow_spendable_token :: "policy_config \<Rightarrow> int \<Rightarrow> poc_token \<Rightarrow> bool" where
  "ow_spendable_token policy now_epoch t \<equiv>
     now_epoch - pt_issue_timestamp t \<le> pc_token_expiry_seconds policy \<and>
     pt_nonce t < pc_max_hops policy"

lemma ow_spendable_eq:
  "ow_spendable now_epoch ts w =
     (filter (ow_spendable_token (ow_policy w) now_epoch) ts,
      w\<lparr>ow_sync_required := ow_sync_required w \<union>
        pt_token_id ` {t \<in> set ts. \<not> ow_spendable_token (ow_policy w) now_epoch t}\<rparr>)"
proof (induction ts arbitrary: w)
  case Nil
  then show ?case by simp
next
  case (Cons t ts)
  show ?case
  proof (cases "ow_spendable_token (ow_policy w) now_epoch t")
    case True
    then have "ow_is_token_spendable t now_epoch w = (True, w)"
      by (simp add: ow_is_token_spendable_def)
    moreover from True have "{u \<in> set (t # ts). \<not> ow_spendable_token (ow_policy w) now_epoch u} =
        {u \<in> set ts. \<not> ow_spendable_token (ow_policy w) now_epoch u}" by auto
    ultimately show ?thesis using True by (simp only: ow_spendable.simps Cons.IH) simp
  next
    case False
    then have "ow_is_token_spendable t now_epoch w =
        (False, w\<lparr>ow_sync_required := insert (pt_token_id t) (ow_sync_required w)\<rparr>)"
      by (auto simp: ow_is_token_spendable_def)
    moreover from False have "{u \<in> set (t # ts). \<not> ow_spendable_token (ow_policy w) now_epoch u} =
        insert t {u \<in> set ts. \<not> ow_spendable_token (ow_policy w) now_epoch u}" by auto
    ultimately show ?thesis using False by (simp only: ow_spendable.simps Cons.IH) auto
  qed
qed

definition ow_outbound :: "string \<Rightarrow> poc_token \<Rightarrow> poc_token" where
  "ow_outbound receiver_pk t = t\<lparr>pt_current_owner := receiver_pk, pt_nonce := pt_nonce t + 1\<rparr>"

lemma ow_outbound_sel [simp]:
  "pt_token_id (ow_outbound rpk t) = pt_token_id t" "pt_value (ow_outbound rpk t) = pt_value t"
  "pt_current_owner (ow_outbound rpk t) = rpk" "pt_nonce (ow_outbound rpk t) = pt_nonce t + 1"
  "pt_hop_count (ow_outbound rpk t) = pt_hop_count t"
  "pt_last_transfer_id (ow_outbound rpk t) = pt_last_transfer_id t"
  "pt_last_transfer_hash (ow_outbound rpk t) = pt_last_transfer_hash t"
  "pt_issue_timestamp (ow_outbound rpk t) = pt_issue_timestamp t"
  "pt_created_at (ow_outbound rpk t) = pt_created_at t"
  "pt_origin_token_id (ow_outbound rpk t) = pt_origin_token_id t"
  by (simp_all add: ow_outbound_def)

text \<open>The transfer \<open>r\<close> pays the token \<open>t\<close> from the wallet with key \<open>pk\<close> to \<open>rpk\<close>.\<close>

definition ow_pays :: "backend \<Rightarrow> string \<Rightarrow> string \<Rightarrow> poc_token \<Rightarrow> poc_transfer \<Rightarrow> bool" where
  "ow_pays B pk rpk t r \<longleftrightarrow>
     pf_token_id r = pt_token_id t \<and> pf_sender_pk r = pk \<and> pf_receiver_pk r = rpk \<and>
     pf_nonce r = pt_nonce t + 1 \<and> pf_hop_count r = pt_hop_count t + 1 \<and> ow_links_ok r t \<and>
     crypto_verify B (poc_transfer_payload r) (pf_signature r) pk"

lemma ow_spend_loop_succeeds:
  assumes "backend_ok B" and "hex_keypair B (ow_private_key_hex w) (ow_public_key_hex w)"
    and "distinct (map pt_token_id ts)"
    and "\<forall>t \<in> set ts. map_of (ow_utr w) (pt_token_id t) = Some t"
  shows "\<exists>rs. list_all2 (ow_pays B (ow_public_key_hex w) rpk) ts rs \<and>
    map pf_transfer_id rs = map (\<lambda>j. ps_uuid (st (i + j))) [0..<length ts] \<and>
    ow_spend_loop B st rpk i ts transfers outbound w =
      (Inr (transfers @ rs,
            fold (\<lambda>t. AList.update (pt_token_id t) (ow_outbound rpk t)) ts outbound),
       w\<lparr>ow_utr := fold (\<lambda>t. AList.delete (pt_token_id t)) ts (ow_utr w),
         ow_str := fold (\<lambda>t. AList.update (pt_token_id t) t) ts (ow_str w)\<rparr>)"
  using assms(2-4)
proof (induction ts arbitrary: w i transfers outbound)
  case Nil
  then show ?case by simp
next
  case (Cons t ts)
  let ?w = "w\<lparr>ow_utr := AList.delete (pt_token_id t) (ow_utr w),
              ow_str := AList.update (pt_token_id t) t (ow_str w)\<rparr>"
  let ?r = "poc_transfer_unsigned (st i) (pt_token_id t) (ow_public_key_hex w) rpk (pt_nonce t + 1)
      (pt_last_transfer_id t) (pt_last_transfer_hash t) (pt_last_transfer_hash t) (pt_hop_count t + 1)"
  obtain s where sig: "crypto_sign B (poc_transfer_payload ?r) (ow_private_key_hex w) = Inr s"
    and ver: "crypto_verify B (poc_transfer_payload ?r) s (ow_public_key_hex w)"
    using hexsig.sign_verifies [OF assms(1) Cons.prems(1), of "poc_transfer_payload ?r"] by blast
  have "\<forall>u \<in> set ts. map_of (ow_utr ?w) (pt_token_id u) = Some u"
  proof
    fix u assume u: "u \<in> set ts"
    with Cons.prems(2) have "pt_token_id u \<noteq> pt_token_id t"
      by (metis (no_types) distinct.simps(2) image_eqI list.set_map list.simps(9))
    with u Cons.prems(3) show "map_of (ow_utr ?w) (pt_token_id u) = Some u"
      by (simp add: dict_simps)
  qed
  moreover have "hex_keypair B (ow_private_key_hex ?w) (ow_public_key_hex ?w)"
    "distinct (map pt_token_id ts)" using Cons.prems by simp_all
  ultimately obtain rs where rs: "list_all2 (ow_pays B (ow_public_key_hex ?w) rpk) ts rs"
    "map pf_transfer_id rs = map (\<lambda>j. ps_uuid (st (i + 1 + j))) [0..<length ts]"
    and loop: "ow_spend_loop B st rpk (i + 1) ts (transfers @ [?r\<lparr>pf_signature := s\<rparr>])
        (AList.update (pt_token_id t) (ow_outbound rpk t) outbound) ?w =
      (Inr ((transfers @ [?r\<lparr>pf_signature := s\<rparr>]) @ rs,
            fold (\<lambda>t. AList.update (pt_token_id t) (ow_outbound rpk t)) ts
              (AList.update (pt_token_id t) (ow_outbound rpk t) outbound)),
       ?w\<lparr>ow_utr := fold (\<lambda>t. AList.delete (pt_token_id t)) ts (ow_utr ?w),
         ow_str := fold (\<lambda>t. AList.update (pt_token_id t) t) ts (ow_str ?w)\<rparr>)"
    using Cons.IH [of ?w "i + 1" "transfers @ [?r\<lparr>pf_signature := s\<rparr>]"
        "AList.update (pt_token_id t) (ow_outbound rpk t) outbound"] by blast
  have "crypto_verify B (poc_transfer_payload (?r\<lparr>pf_signature := s\<rparr>)) s (ow_public_key_hex w)"
    using ver by (simp only: poc_transfer_payload_signature)
  then have "ow_pays B (ow_public_key_hex w) rpk t (?r\<lparr>pf_signature := s\<rparr>)"
    by (simp add: ow_pays_def poc_transfer_unsigned_def)
  moreover have "map (\<lambda>j. ps_uuid (st (i + j))) [0..<length (t # ts)] =
      ps_uuid (st i) # map (\<lambda>j. ps_uuid (st (i + 1 + j))) [0..<length ts]"
    by (simp add: upt_conv_Cons map_Suc_upt [symmetric] comp_def del: upt_Suc)
  moreover have "pf_transfer_id (?r\<lparr>pf_signature := s\<rparr>) = ps_uuid (st i)"
    by (simp add: poc_transfer_unsigned_def)
  moreover have "ow_spend_loop B st rpk i (t # ts) transfers outbound w =
      ow_spend_loop B st rpk (i + 1) ts (transfers @ [?r\<lparr>pf_signature := s\<rparr>])
        (AList.update (pt_token_id t) (ow_outbound rpk t) outbound) ?w"
    using Cons.prems(3) sig by (simp add: ow_outbound_def Let_def)
  ultimately show ?case using rs loop
    by (intro exI [of _ "?r\<lparr>pf_signature := s\<rparr> # rs"]) simp
qed

text \<open>The pool a payment is taken from.\<close>

abbreviation ow_pool :: "int \<Rightarrow> offline_wallet \<Rightarrow> poc_token list" where
  "ow_pool now w \<equiv> filter (ow_spendable_token (ow_policy w) (epoch_seconds now)) (map snd (ow_utr w))"

abbreviation ow_value_of :: "poc_token list \<Rightarrow> int" where
  "ow_value_of ts \<equiv> sum_list (map pt_value ts)"

lemma ow_pool_facts:
  assumes "ow_inv w" and "subseq sel (sort_key pt_value (ow_pool now w))"
  shows "distinct (map pt_token_id sel)"
    and "\<forall>t \<in> set sel. map_of (ow_utr w) (pt_token_id t) = Some t \<and> 0 \<le> pt_value t \<and>
      ow_spendable_token (ow_policy w) (epoch_seconds now) t"
proof -
  note keyed = dict_self_keyed [OF ow_inv_keyed(1) [OF assms(1)] ow_inv_keyed(2) [OF assms(1)]]
  have "distinct (map pt_token_id (ow_pool now w))"
    using keyed(1) by (simp add: distinct_map_filter del: map_map)
  then have "distinct (map pt_token_id (sort_key pt_value (ow_pool now w)))"
    by (simp only: distinct_map distinct_sort set_sort)
  with subseq_map [OF assms(2)] show "distinct (map pt_token_id sel)" by (rule subseq_distinct)
  show "\<forall>t \<in> set sel. map_of (ow_utr w) (pt_token_id t) = Some t \<and> 0 \<le> pt_value t \<and>
      ow_spendable_token (ow_policy w) (epoch_seconds now) t"
  proof
    fix t assume "t \<in> set sel"
    with subseq_subset [OF assms(2)] have "t \<in> set (ow_pool now w)" by auto
    then have "t \<in> snd ` set (ow_utr w)" "ow_spendable_token (ow_policy w) (epoch_seconds now) t"
      by simp_all
    with keyed(2) ow_inv_keyed(3) [OF assms(1)] show "map_of (ow_utr w) (pt_token_id t) = Some t \<and>
        0 \<le> pt_value t \<and> ow_spendable_token (ow_policy w) (epoch_seconds now) t" by blast
  qed
qed

lemma ow_create_payment_cases:
  assumes "backend_ok B" and "hex_keypair B (ow_private_key_hex w) (ow_public_key_hex w)"
    and inv: "ow_inv w"
  obtains (refused) e w' where "ow_create_payment B st uuid now rpk amount w = (Inl e, w')"
    "ow_utr w' = ow_utr w" "ow_str w' = ow_str w"
    "amount \<le> 0 \<or> pc_max_tx_value (ow_policy w) < amount \<or> ow_value_of (ow_pool now w) < amount"
  | (paid) sel rs w' where
    "ow_create_payment B st uuid now rpk amount w =
      (Inr (bundle_create uuid rs (fold (\<lambda>t. AList.update (pt_token_id t) (ow_outbound rpk t)) sel [])), w')"
    "0 < amount" "amount \<le> pc_max_tx_value (ow_policy w)" "amount \<le> ow_value_of sel"
    "subseq sel (sort_key pt_value (ow_pool now w))"
    "list_all2 (ow_pays B (ow_public_key_hex w) rpk) sel rs"
    "map pf_transfer_id rs = map (\<lambda>j. ps_uuid (st j)) [0..<length sel]"
    "ow_utr w' = fold (\<lambda>t. AList.delete (pt_token_id t)) sel (ow_utr w)"
    "ow_str w' = fold (\<lambda>t. AList.update (pt_token_id t) t) sel (ow_str w)"
    "ow_policy w' = ow_policy w" "ow_public_key_hex w' = ow_public_key_hex w"
    "ow_private_key_hex w' = ow_private_key_hex w"
proof -
  let ?w = "w\<lparr>ow_sync_required := ow_sync_required w \<union> pt_token_id `
      {t \<in> set (map snd (ow_utr w)). \<not> ow_spendable_token (ow_policy w) (epoch_seconds now) t}\<rparr>"
  let ?pool = "sort_key pt_value (ow_pool now w)"
  note spendable = ow_spendable_eq [of "epoch_seconds now" "map snd (ow_utr w)" w]
  show ?thesis
  proof (cases "amount \<le> 0 \<or> pc_max_tx_value (ow_policy w) < amount")
    case True
    then show ?thesis
      by (intro refused [of "if amount \<le> 0 then ValueError ''Amount must be positive''
          else PolicyError ''MAX_TX_VALUE exceeded''" w]) (auto simp: ow_create_payment_def)
  next
    case False
    then have amount: "0 < amount" "amount \<le> pc_max_tx_value (ow_policy w)" by simp_all
    have nonneg: "\<forall>t \<in> set ?pool. 0 \<le> pt_value t" using ow_inv_keyed(3) [OF inv] by auto
    show ?thesis
    proof (cases "greedy_loop pt_value amount [] 0 ?pool")
      case None
      with greedy_loop_None_nonneg [OF nonneg amount(1)] have "ow_value_of (ow_pool now w) < amount"
        by simp
      moreover from None amount have "ow_create_payment B st uuid now rpk amount w =
          (Inl (ValueError ''Insufficient spendable funds''), ?w)"
        by (simp add: ow_create_payment_def spendable ow_select_from_pool_def)
      ultimately show ?thesis
        by (intro refused [of "ValueError ''Insufficient spendable funds''" ?w]) simp_all
    next
      case (Some sel)
      from greedy_loop_Some [OF Some] subseq_take have sub: "subseq sel ?pool"
        and cover: "amount \<le> ow_value_of sel" by auto
      note pool = ow_pool_facts [OF inv sub]
      have "hex_keypair B (ow_private_key_hex ?w) (ow_public_key_hex ?w)"
        "\<forall>t \<in> set sel. map_of (ow_utr ?w) (pt_token_id t) = Some t" using assms(2) pool(2) by simp_all
      from ow_spend_loop_succeeds [OF assms(1) this(1) pool(1) this(2), of rpk st 0 "[]" "[]"]
      obtain rs where rs: "list_all2 (ow_pays B (ow_public_key_hex w) rpk) sel rs"
        "map pf_transfer_id rs = map (\<lambda>j. ps_uuid (st j)) [0..<length sel]"
        and loop: "ow_spend_loop B st rpk 0 sel [] [] ?w =
          (Inr (rs, fold (\<lambda>t. AList.update (pt_token_id t) (ow_outbound rpk t)) sel []),
           ?w\<lparr>ow_utr := fold (\<lambda>t. AList.delete (pt_token_id t)) sel (ow_utr ?w),
             ow_str := fold (\<lambda>t. AList.update (pt_token_id t) t) sel (ow_str ?w)\<rparr>)" (is "_ = (_, ?w')")
        by auto
      have "ow_create_payment B st uuid now rpk amount w =
          (Inr (bundle_create uuid rs (fold (\<lambda>t. AList.update (pt_token_id t) (ow_outbound rpk t)) sel [])), ?w')"
        using amount Some loop by (simp add: ow_create_payment_def spendable ow_select_from_pool_def)
      from paid [OF this amount cover sub rs] show ?thesis by simp
    qed
  qed
qed

section \<open>Receiving an honest bundle\<close>

lemma ow_receive_loop_accepts:
  assumes "list_all2 (ow_pays B pk rpk) sel rs"
    and "ow_public_key_hex w = rpk" and "ow_inv w"
    and "distinct (map pf_transfer_id rs)"
    and "\<forall>r \<in> set rs. pf_transfer_id r \<notin> ow_processed_transfer_ids w"
    and "\<forall>t \<in> set sel. map_of tokens (pt_token_id t) = Some (ow_outbound rpk t) \<and> 0 \<le> pt_value t \<and>
      pt_nonce t < pc_max_hops (ow_policy w) \<and> pt_hop_count t < pc_max_hops (ow_policy w) \<and>
      (\<forall>j. is_not_expired (fst (clk j)) (pt_created_at t) (pc_token_expiry_seconds (ow_policy w)) = Inr True \<and>
        epoch_seconds (snd (clk j)) - pt_issue_timestamp t \<le> pc_token_expiry_seconds (ow_policy w))"
    and "ow_balance w + ow_value_of sel \<le> pc_max_balance (ow_policy w)"
    and "distinct (map pt_token_id sel)" and "pt_token_id ` set sel \<inter> dict_keys (ow_utr w) = {}"
  shows "\<exists>w'. ow_receive_loop B clk i tokens rs results w =
      (Inr (results @ map (\<lambda>r. (pf_transfer_id r, True, ''ACCEPTED'')) rs), w') \<and>
    ow_inv w' \<and> ow_balance w' = ow_balance w + ow_value_of sel \<and>
    dict_keys (ow_utr w') = dict_keys (ow_utr w) \<union> pt_token_id ` set sel"
  using assms
proof (induction arbitrary: w i results rule: list_all2_induct)
  case Nil
  then show ?case by simp
next
  case (Cons t sel r rs)
  let ?t = "ow_outbound rpk t"
  have pays: "ow_pays B pk rpk t r" by (rule Cons.hyps(1))
  have ok: "ow_transfer_ok B (ow_policy w) (ow_public_key_hex w) (fst (clk i)) (snd (clk i)) r ?t"
    using pays Cons.prems(1,5) by (auto simp: ow_transfer_ok_def ow_pays_def)
  have nn: "0 \<le> ow_value_of sel" using Cons.prems(5) by (intro sum_list_nonneg) auto
  obtain w1 where step: "ow_apply_transfer_with_reason B (fst (clk i)) (snd (clk i)) r ?t w =
      (Inr (True, ''ACCEPTED''), w1)"
    and utr: "ow_utr w1 = AList.update (pt_token_id ?t) (ow_received w r ?t) (ow_utr w)"
    and ids: "ow_processed_transfer_ids w1 = insert (pf_transfer_id r) (ow_processed_transfer_ids w)"
    and same: "ow_policy w1 = ow_policy w" "ow_public_key_hex w1 = ow_public_key_hex w"
    using ok Cons.prems(4,6) nn
    by (cases rule: ow_apply_cases [of B "fst (clk i)" "snd (clk i)" r ?t w]) auto
  have new: "map_of (ow_utr w) (pt_token_id t) = None"
    using Cons.prems(8) by (auto simp: map_of_eq_None_iff)
  have bal: "ow_balance w1 = ow_balance w + pt_value t"
    using dict_total_update [of "ow_utr w" pt_value "pt_token_id t" "ow_received w r ?t"]
      Cons.prems(2) new by (simp add: ow_balance_def utr ow_inv_def)
  have inv1: "ow_inv w1"
  proof (rule ow_inv_file [OF Cons.prems(2), of "ow_received w r ?t"])
    show "0 \<le> pt_value (ow_received w r ?t)" using Cons.prems(5) by simp
    show "ow_balance w + pt_value (ow_received w r ?t) \<le> pc_max_balance (ow_policy w)"
      using Cons.prems(6) nn by simp
  qed (use utr same in simp_all)
  have keys: "dict_keys (ow_utr w1) = insert (pt_token_id t) (dict_keys (ow_utr w))"
    by (simp add: utr dict_keys_update)
  have "pf_token_id r = pt_token_id t" using pays by (simp add: ow_pays_def)
  then have "ow_receive_loop B clk i tokens (r # rs) results w =
      ow_receive_loop B clk (i + 1) tokens rs (results @ [(pf_transfer_id r, True, ''ACCEPTED'')]) w1"
    using step Cons.prems(5) by simp
  moreover have "\<exists>w'. ow_receive_loop B clk (i + 1) tokens rs
        (results @ [(pf_transfer_id r, True, ''ACCEPTED'')]) w1 =
      (Inr ((results @ [(pf_transfer_id r, True, ''ACCEPTED'')]) @
        map (\<lambda>r. (pf_transfer_id r, True, ''ACCEPTED'')) rs), w') \<and>
    ow_inv w' \<and> ow_balance w' = ow_balance w1 + ow_value_of sel \<and>
    dict_keys (ow_utr w') = dict_keys (ow_utr w1) \<union> pt_token_id ` set sel"
  proof (rule Cons.IH)
    show "ow_public_key_hex w1 = rpk" "ow_inv w1" "distinct (map pf_transfer_id rs)"
      "distinct (map pt_token_id sel)" using same Cons.prems(1,3,7) inv1 by simp_all
    show "\<forall>r \<in> set rs. pf_transfer_id r \<notin> ow_processed_transfer_ids w1"
      using Cons.prems(3,4) ids by (auto simp: image_iff)
    show "ow_balance w1 + ow_value_of sel \<le> pc_max_balance (ow_policy w1)"
      using Cons.prems(6) bal same by simp
    show "pt_token_id ` set sel \<inter> dict_keys (ow_utr w1) = {}"
      unfolding keys using Cons.prems(7,8) by auto
  qed (use Cons.prems(5) same in simp)
  ultimately show ?case using bal keys by auto
qed

section \<open>Runs of an offline wallet\<close>

text \<open>Any operation of a wallet that is given no token of negative value.\<close>

inductive ow_step :: "backend \<Rightarrow> offline_wallet \<Rightarrow> offline_wallet \<Rightarrow> bool" for B where
  Receive_token: "0 \<le> pt_value t \<Longrightarrow> ow_receive_token t w = Inr w' \<Longrightarrow> ow_step B w w'"
| Create_payment: "ow_create_payment B st uuid now rpk amount w = (r, w') \<Longrightarrow> ow_step B w w'"
| Apply_transfer: "0 \<le> pt_value t \<Longrightarrow> ow_apply_transfer_with_reason B now1 now2 tr t w = (out, w') \<Longrightarrow>
    ow_step B w w'"
| Receive_bundle: "\<forall>(k, t) \<in> set (pb_tokens bundle). 0 \<le> pt_value t \<Longrightarrow>
    ow_receive_bundle_with_reasons B clk bundle w = (res, w') \<Longrightarrow> ow_step B w w'"

inductive_cases ow_step_cases: "ow_step B w w'"

lemma ow_apply_inv:
  assumes "ow_inv w" and "0 \<le> pt_value t"
    and "ow_apply_transfer_with_reason B now1 now2 r t w = (out, w')"
  shows "ow_inv w' \<and> ow_policy w' = ow_policy w \<and> ow_public_key_hex w' = ow_public_key_hex w"
proof (cases rule: ow_apply_cases [of B now1 now2 r t w])
  case (accepted w1)
  with assms(3) have "w' = w1" by simp
  with accepted assms(1,2) ow_inv_file [of w "ow_received w r t" w1] show ?thesis by simp
qed (use assms in simp)

lemma ow_receive_loop_inv:
  "\<forall>(k, t) \<in> set tokens. 0 \<le> pt_value t \<Longrightarrow> ow_inv w \<Longrightarrow>
     ow_receive_loop B clk i tokens rs results w = (out, w') \<Longrightarrow>
     ow_inv w' \<and> ow_policy w' = ow_policy w \<and> ow_public_key_hex w' = ow_public_key_hex w"
proof (induction rs arbitrary: w i results)
  case (Cons r rs)
  show ?case
  proof (cases "map_of tokens (pf_token_id r)")
    case None
    with Cons.prems show ?thesis by simp
  next
    case (Some t)
    with Cons.prems(1) have "0 \<le> pt_value t" by (auto dest: map_of_SomeD)
    obtain o1 w1 where step: "ow_apply_transfer_with_reason B (fst (clk i)) (snd (clk i)) r t w = (o1, w1)"
      by fastforce
    note inv1 = ow_apply_inv [OF Cons.prems(2) \<open>0 \<le> pt_value t\<close> step]
    show ?thesis
    proof (cases o1)
      case (Inl e)
      with Cons.prems(3) Some step inv1 show ?thesis by simp
    next
      case (Inr p)
      with Cons.prems(3) Some step have "ow_receive_loop B clk (i + 1) tokens rs
          (results @ [(pf_transfer_id r, fst p, snd p)]) w1 = (out, w')" by (cases p) simp
      from Cons.IH [OF Cons.prems(1) _ this] inv1 show ?thesis by simp
    qed
  qed
qed simp

lemma ow_spend_loop_inv:
  "ow_inv w \<Longrightarrow> ow_spend_loop B st rpk i ts trs outb w = (r, w') \<Longrightarrow>
     ow_inv w' \<and> ow_policy w' = ow_policy w \<and> ow_public_key_hex w' = ow_public_key_hex w"
proof (induction ts arbitrary: w i trs outb)
  case (Cons t ts)
  let ?w = "w\<lparr>ow_utr := AList.delete (pt_token_id t) (ow_utr w),
              ow_str := AList.update (pt_token_id t) t (ow_str w)\<rparr>"
  have "ow_inv ?w" by (rule ow_inv_remove [OF Cons.prems(1)]) simp_all
  with Cons.prems Cons.IH [of ?w] show ?case
    by (auto simp: Let_def split: option.splits sum.splits)
qed simp

lemma ow_create_payment_inv:
  assumes "ow_inv w" and "ow_create_payment B st uuid now rpk amount w = (r, w')"
  shows "ow_inv w' \<and> ow_policy w' = ow_policy w \<and> ow_public_key_hex w' = ow_public_key_hex w"
proof -
  obtain pool w1 where pool: "ow_spendable (epoch_seconds now) (map snd (ow_utr w)) w = (pool, w1)"
    by fastforce
  then have w1: "ow_inv w1" "ow_policy w1 = ow_policy w" "ow_public_key_hex w1 = ow_public_key_hex w"
    using assms(1) ow_inv_cong [of w1 w] by (auto simp: ow_spendable_eq)
  with assms pool ow_spend_loop_inv [OF w1(1)] show ?thesis
    by (fastforce simp: ow_create_payment_def Let_def split: if_splits sum.splits prod.splits)
qed

lemma ow_step_inv:
  assumes "ow_step B w w'" and "ow_inv w"
  shows "ow_inv w' \<and> ow_policy w' = ow_policy w \<and> ow_public_key_hex w' = ow_public_key_hex w"
  using assms(1)
proof cases
  case (Receive_token t)
  then have "w' = w\<lparr>ow_utr := AList.update (pt_token_id t) t (ow_utr w)\<rparr>"
    "pt_current_owner t = ow_public_key_hex w"
    "ow_balance w + pt_value t \<le> pc_max_balance (ow_policy w)"
    by (auto simp: ow_receive_token_def split: if_splits)
  with Receive_token(1) assms(2) ow_inv_file [of w t w'] show ?thesis by simp
next
  case (Create_payment st uuid now rpk amount r)
  with ow_create_payment_inv [OF assms(2)] show ?thesis by blast
next
  case (Apply_transfer t now1 now2 tr out)
  with ow_apply_inv [OF assms(2)] show ?thesis by blast
next
  case (Receive_bundle pb clk res)
  with ow_receive_loop_inv [OF _ assms(2)] show ?thesis
    unfolding ow_receive_bundle_with_reasons_def by blast
qed

lemma ow_run_inv:
  assumes "(ow_step B)\<^sup>*\<^sup>* w w'" and "ow_inv w"
  shows "ow_inv w' \<and> ow_policy w' = ow_policy w"
  using assms by (induction rule: rtranclp_induct) (auto dest: ow_step_inv)

section \<open>Concrete wallets\<close>

text \<open>
  For the witnesses: the hexadecimal key number \<open>k\<close>, tokens issued at the Unix epoch, and the
  wallet of key \<open>k\<close> with given tokens under the default policy.
\<close>

definition epoch_dt :: py_datetime where
  "epoch_dt = \<lparr>dt_year = 1970, dt_month = 1, dt_day = 1, dt_hour = 0, dt_minute = 0,
     dt_second = 0, dt_microsecond = 0, dt_utcoffset = Some 0\<rparr>"

lemma instant_epoch [simp]: "instant epoch_dt = Inr 0"
  by (simp add: epoch_dt_def instant_def local_us_def to_ordinal_def days_before_year_def
      days_before_month_def Let_def)

lemma epoch_seconds_0 [simp]: "epoch_seconds 0 = 0"
  by (simp add: epoch_seconds_def)

definition demo_hex :: "8 word \<Rightarrow> string" where
  "demo_hex k = to_hex (replicate 32 k)"

lemma demo_hex_keypair [simp]: "hex_keypair toy_backend (demo_hex k) (demo_hex k)"
  by (simp add: demo_hex_def hex_keypair_def generate_keypair_def)

definition demo_poc_token :: "8 word \<Rightarrow> string \<Rightarrow> int \<Rightarrow> poc_token" where
  "demo_poc_token k tid val =
     \<lparr>pt_token_id = tid, pt_value = val, pt_issuer_pk = demo_hex 1, pt_current_owner = demo_hex k,
      pt_nonce = 0, pt_issuer_signature = [], pt_last_transfer_id = None,
      pt_last_transfer_hash = None, pt_hop_count = 0, pt_issue_timestamp = 0,
      pt_created_at = epoch_dt, pt_origin_token_id = Some tid\<rparr>"

definition demo_ow :: "8 word \<Rightarrow> (string \<times> int) list \<Rightarrow> offline_wallet" where
  "demo_ow k tokens =
     (new_offline_wallet ''demo'' (demo_hex k) (demo_hex k) default_policy)
       \<lparr>ow_utr := map (\<lambda>(tid, v). (tid, demo_poc_token k tid v)) tokens\<rparr>"

definition demo_poc_stamps :: "nat \<Rightarrow> poc_stamp" where
  "demo_poc_stamps i = \<lparr>ps_uuid = replicate (i + 1) (CHR ''u''), ps_time = 0, ps_now = epoch_dt\<rparr>"

lemma demo_poc_token_sel [simp]:
  "pt_token_id (demo_poc_token k tid v) = tid" "pt_value (demo_poc_token k tid v) = v"
  "pt_current_owner (demo_poc_token k tid v) = demo_hex k" "pt_nonce (demo_poc_token k tid v) = 0"
  "pt_hop_count (demo_poc_token k tid v) = 0" "pt_issue_timestamp (demo_poc_token k tid v) = 0"
  "pt_created_at (demo_poc_token k tid v) = epoch_dt"
  "pt_last_transfer_id (demo_poc_token k tid v) = None"
  "pt_last_transfer_hash (demo_poc_token k tid v) = None"
  by (simp_all add: demo_poc_token_def)

lemma default_policy_sel [simp]:
  "pc_max_tx_value default_policy = 1000" "pc_max_hops default_policy = 7"
  "pc_max_balance default_policy = 10000" "pc_token_expiry_seconds default_policy = 604800"
  by (simp_all add: default_policy_def policy_post_init_def)

lemma demo_ow_sel [simp]:
  "ow_public_key_hex (demo_ow k ts) = demo_hex k" "ow_private_key_hex (demo_ow k ts) = demo_hex k"
  "ow_policy (demo_ow k ts) = default_policy" "ow_processed_transfer_ids (demo_ow k ts) = {}"
  "ow_utr (demo_ow k ts) = map (\<lambda>(tid, v). (tid, demo_poc_token k tid v)) ts"
  "ow_balance (demo_ow k ts) = sum_list (map snd ts)"
  by (simp_all add: demo_ow_def new_offline_wallet_def ow_balance_def)
    (induction ts; auto)

lemma demo_ow_inv [simp]:
  "distinct (map fst ts) \<Longrightarrow> \<forall>(tid, v) \<in> set ts. 0 \<le> v \<Longrightarrow> sum_list (map snd ts) \<le> 10000 \<Longrightarrow>
     ow_inv (demo_ow k ts)"
  by (auto simp: ow_inv_def comp_def split_beta)

lemma ow_selected_le_pool:
  assumes "ow_inv w" and "subseq sel (sort_key pt_value (ow_pool now w))"
  shows "ow_value_of sel \<le> ow_value_of (ow_pool now w)"
proof -
  have "\<forall>t \<in> set (sort_key pt_value (ow_pool now w)). 0 \<le> pt_value t"
    using ow_pool_facts(2) [OF assms(1) subseq_order.order_refl] by blast
  from subseq_sum_le [OF assms(2) this] show ?thesis by (simp add: sum_list_sort_key)
qed

lemma ow_pays_nonces:
  assumes "list_all2 (ow_pays B pk rpk) sel rs"
    and "\<forall>t \<in> set sel. map_of (ow_utr w) (pt_token_id t) = Some t \<and> 0 \<le> pt_value t \<and> ow_spendable_token (ow_policy w) now t"
  shows "\<forall>r \<in> set rs. pf_nonce r \<le> pc_max_hops (ow_policy w)"
  using assms by (induction rule: list_all2_induct) (auto simp: ow_pays_def)

section \<open>Properties\<close>

text \<open>
  C20: A payment request on a wallet within its invariant and with matching keys is refused exactly when the amount is not
  positive, above the transaction cap, or above the value of the spendable tokens, and then
  leaves both registers alone. Otherwise it returns a bundle: spendable tokens covering the amount
  move from UTR to STR, the balance falls by their value, and for each the bundle holds a
  transfer that verifies under the wallet's key, continues the token's history, carries the next
  nonce and hop count, the nonce within the hop limit (the hop count is not checked when
  sending), and the token readdressed to the receiver.
\<close>
theorem create_payment_spec:
  assumes "backend_ok B" and "hex_keypair B (ow_private_key_hex w) (ow_public_key_hex w)" and "ow_inv w"
  shows "case ow_create_payment B st uuid now receiver_pk amount w of
      (Inl _, w') \<Rightarrow>
        (amount \<le> 0 \<or> pc_max_tx_value (ow_policy w) < amount \<or> ow_value_of (ow_pool now w) < amount) \<and>
        ow_utr w' = ow_utr w \<and> ow_str w' = ow_str w
    | (Inr pb, w') \<Rightarrow>
        0 < amount \<and> amount \<le> pc_max_tx_value (ow_policy w) \<and> amount \<le> ow_value_of (ow_pool now w) \<and>
        (\<forall>r \<in> set (pb_transfers pb). pf_nonce r \<le> pc_max_hops (ow_policy w)) \<and>
        (\<exists>sel. amount \<le> ow_value_of sel \<and> list_all2 (ow_pays B (ow_public_key_hex w) receiver_pk) sel (pb_transfers pb) \<and>
           (\<forall>t \<in> set sel. map_of (ow_utr w) (pt_token_id t) = Some t \<and>
              ow_spendable_token (ow_policy w) (epoch_seconds now) t \<and>
              map_of (pb_tokens pb) (pt_token_id t) = Some (ow_outbound receiver_pk t)) \<and>
           ow_balance w' = ow_balance w - ow_value_of sel \<and>
           dict_keys (ow_utr w') = dict_keys (ow_utr w) - pt_token_id ` set sel \<and>
           dict_keys (ow_str w') = dict_keys (ow_str w) \<union> pt_token_id ` set sel)"
proof (rule ow_create_payment_cases [OF assms, of st uuid now receiver_pk amount],
    goal_cases refused paid)
  case (refused e w')
  then show ?thesis by simp
next
  case (paid sel rs w')
  note pool = ow_pool_facts [OF assms(3) paid(5)]
  have utr: "\<forall>t \<in> set sel. map_of (ow_utr w) (pt_token_id t) = Some t" using pool(2) by blast
  have "ow_balance w' = ow_balance w - ow_value_of sel"
    unfolding ow_balance_def paid(8)
    by (rule fold_delete_total [OF ow_inv_keyed(1) [OF assms(3)] pool(1) utr])
  moreover have "dict_keys (ow_utr w') = dict_keys (ow_utr w) - pt_token_id ` set sel"
    "dict_keys (ow_str w') = dict_keys (ow_str w) \<union> pt_token_id ` set sel"
    unfolding paid(8,9) by (simp_all add: fold_delete_keys fold_update_keys)
  moreover have "\<forall>t \<in> set sel. map_of (pb_tokens (bundle_create uuid rs
      (fold (\<lambda>t. AList.update (pt_token_id t) (ow_outbound receiver_pk t)) sel []))) (pt_token_id t) =
      Some (ow_outbound receiver_pk t)"
    using fold_update_lookup [OF pool(1), where g = "ow_outbound receiver_pk"]
    by (simp add: bundle_create_def)
  moreover have rs: "pb_transfers (bundle_create uuid rs d) = rs" for d by (simp add: bundle_create_def)
  moreover have "amount \<le> ow_value_of (ow_pool now w)"
    using paid(4) ow_selected_le_pool [OF assms(3) paid(5)] by simp
  moreover have "\<forall>r \<in> set (pb_transfers (bundle_create uuid rs
      (fold (\<lambda>t. AList.update (pt_token_id t) (ow_outbound receiver_pk t)) sel []))). pf_nonce r \<le> pc_max_hops (ow_policy w)"
    unfolding rs using paid(6) pool(2) by (rule ow_pays_nonces)
  ultimately show ?thesis
    unfolding paid(1) prod.case sum.case using paid(2,3,4,6) pool(2)
    by (intro conjI exI [of _ sel]) (assumption | simp)+
qed

lemma create_payment_spec_witness:
  "\<exists>pb w'. ow_create_payment toy_backend demo_poc_stamps ''b1'' 0 (demo_hex 3) 25
      (demo_ow 2 [(''a'', 10), (''b'', 20)]) = (Inr pb, w') \<and> ow_balance w' \<le> 5"
proof -
  let ?w = "demo_ow 2 [(''a'', 10), (''b'', 20)]"
  have pre: "hex_keypair toy_backend (ow_private_key_hex ?w) (ow_public_key_hex ?w)" "ow_inv ?w"
    by simp_all
  note spec = create_payment_spec [OF toy_backend_ok pre, where st = demo_poc_stamps and uuid = "''b1''"
      and now = 0 and receiver_pk = "demo_hex 3" and amount = 25]
  show ?thesis
  proof (cases "ow_create_payment toy_backend demo_poc_stamps ''b1'' 0 (demo_hex 3) 25 ?w")
    case (Pair out w')
    show ?thesis
    proof (cases out)
      case (Inl e)
      with Pair spec have "ow_value_of (ow_pool 0 ?w) < 25" unfolding Pair Inl prod.case sum.case by simp
      then show ?thesis by simp
    next
      case (Inr pb)
      from spec have "\<exists>sel. 25 \<le> ow_value_of sel \<and> ow_balance w' = ow_balance ?w - ow_value_of sel"
        unfolding Pair Inr prod.case sum.case by (elim conjE exE) (rule exI, rule conjI)
      then have "ow_balance w' \<le> 5" by auto
      with Pair Inr show ?thesis by blast
    qed
  qed
qed

text \<open>
  C21: The balance cap: under a policy whose cap is not negative, however a wallet is used, as long
  as no token of negative value is presented to it, its balance never exceeds the cap, and every
  token in its UTR is filed under its own identifier and names the wallet as its owner.
\<close>
theorem balance_never_exceeds_cap:
  assumes "0 \<le> pc_max_balance policy"
    and "(ow_step B)\<^sup>*\<^sup>* (new_offline_wallet name sk pk policy) w"
  shows "ow_balance w \<le> pc_max_balance policy \<and>
    (\<forall>(k, t) \<in> set (ow_utr w). pt_token_id t = k \<and> pt_current_owner t = ow_public_key_hex w \<and> 0 \<le> pt_value t)"
proof -
  let ?w = "new_offline_wallet name sk pk policy"
  have "ow_inv ?w" using assms(1) by (simp add: ow_inv_def ow_balance_def new_offline_wallet_def)
  from ow_run_inv [OF assms(2) this] show ?thesis by (auto simp: ow_inv_def new_offline_wallet_def)
qed

lemma balance_never_exceeds_cap_witness:
  "\<exists>w. (ow_step toy_backend)\<^sup>*\<^sup>* (new_offline_wallet ''demo'' (demo_hex 2) (demo_hex 2) default_policy) w \<and>
     ow_utr w \<noteq> [] \<and> ow_balance w \<le> 10000 \<and>
     (\<forall>(k, t) \<in> set (ow_utr w). pt_token_id t = k \<and> pt_current_owner t = ow_public_key_hex w \<and> 0 \<le> pt_value t)"
proof -
  let ?w0 = "new_offline_wallet ''demo'' (demo_hex 2) (demo_hex 2) default_policy"
  let ?t = "demo_poc_token 2 ''a'' 10"
  obtain w where w: "ow_receive_token ?t ?w0 = Inr w" "ow_utr w \<noteq> []"
    by (simp add: ow_receive_token_def new_offline_wallet_def ow_balance_def)
  have "ow_step toy_backend ?w0 w" by (rule ow_step.Receive_token [OF _ w(1)]) simp
  then have run: "(ow_step toy_backend)\<^sup>*\<^sup>* ?w0 w" by (rule r_into_rtranclp)
  have "0 \<le> pc_max_balance default_policy" by simp
  from balance_never_exceeds_cap [OF this run] run w(2) show ?thesis
    by (intro exI [of _ w]) simp
qed

text \<open>
  C22: Replay protection: in any sequence of transfers presented to a wallet, whatever tokens and
  times come with them, the accepted ones have different transfer identifiers, none of them an
  identifier the wallet has processed before, and all of them are remembered.
\<close>
theorem transfers_applied_once:
  "let outs = fst (submit_all (ow_step_apply B) reqs w);
       ids = map req_transfer_id (accepted_of ow_accepted reqs outs)
   in distinct ids \<and> set ids \<inter> ow_processed_transfer_ids w = {} \<and>
      ow_processed_transfer_ids (snd (submit_all (ow_step_apply B) reqs w)) =
        ow_processed_transfer_ids w \<union> set ids"
  using ow_replay.accepted_once [where B = B and s = w and rs = reqs]
    ow_replay.run_settles [where B = B and s = w and rs = reqs]
  by (simp add: Let_def image_image)

text \<open>
  C23: An honest payment goes through: between two wallets within their invariants and under the
  same policy that share no token identifier, when the receiver has room under the balance cap for
  all the sender holds, the sender's tokens are fresh at the receiver's clock with hop counts not
  ahead of their nonces, and the transfer identifiers drawn are different and new to the receiver, a
  covered amount within the transaction cap is turned into a bundle, the receiver accepts every
  transfer of it, and the value that leaves the sender, at least the amount, arrives there.
\<close>
theorem honest_payment_accepted:
  assumes "backend_ok B" and "hex_keypair B (ow_private_key_hex s) (ow_public_key_hex s)"
    and "ow_inv s" and "ow_inv r" and "ow_policy r = ow_policy s"
    and "0 < amount" and "amount \<le> pc_max_tx_value (ow_policy s)" and "amount \<le> ow_value_of (ow_pool now s)"
    and "ow_balance r + ow_balance s \<le> pc_max_balance (ow_policy r)"
    and "dict_keys (ow_utr s) \<inter> dict_keys (ow_utr r) = {}"
    and "inj (\<lambda>i. ps_uuid (st i))" and "\<And>i. ps_uuid (st i) \<notin> ow_processed_transfer_ids r"
    and "\<And>k t. (k, t) \<in> set (ow_utr s) \<Longrightarrow> pt_hop_count t \<le> pt_nonce t \<and>
      (\<forall>j. is_not_expired (fst (clk j)) (pt_created_at t) (pc_token_expiry_seconds (ow_policy r)) = Inr True \<and>
        epoch_seconds (snd (clk j)) - pt_issue_timestamp t \<le> pc_token_expiry_seconds (ow_policy r))"
  shows "\<exists>pb s' r' paid. ow_create_payment B st uuid now (ow_public_key_hex r) amount s = (Inr pb, s') \<and>
    ow_receive_bundle_with_reasons B clk pb r =
      (Inr (map (\<lambda>tr. (pf_transfer_id tr, True, ''ACCEPTED'')) (pb_transfers pb)), r') \<and>
    amount \<le> paid \<and> ow_balance s' = ow_balance s - paid \<and> ow_balance r' = ow_balance r + paid"
proof (rule ow_create_payment_cases [OF assms(1-3), of st uuid now "ow_public_key_hex r" amount],
    goal_cases refused paid)
  case (refused e s')
  with assms(6-8) show ?case by simp
next
  case (paid sel rs s')
  note pool = ow_pool_facts [OF assms(3) paid(5)]
  let ?tokens = "fold (\<lambda>t. AList.update (pt_token_id t) (ow_outbound (ow_public_key_hex r) t)) sel []"
  have utr: "\<forall>t \<in> set sel. map_of (ow_utr s) (pt_token_id t) = Some t" using pool(2) by blast
  have bal: "ow_balance s' = ow_balance s - ow_value_of sel"
    unfolding ow_balance_def paid(8)
    by (rule fold_delete_total [OF ow_inv_keyed(1) [OF assms(3)] pool(1) utr])
  have le: "ow_value_of sel \<le> ow_balance s"
  proof -
    have "ow_inv s'"
      using ow_create_payment_inv [OF assms(3) paid(1)] by simp
    then have "0 \<le> ow_balance s'"
      unfolding ow_balance_def by (intro dict_total_nonneg) (auto simp: ow_inv_def)
    with bal show ?thesis by simp
  qed
  have loop: "\<exists>r'. ow_receive_loop B clk 0 ?tokens rs [] r =
      (Inr ([] @ map (\<lambda>tr. (pf_transfer_id tr, True, ''ACCEPTED'')) rs), r') \<and>
    ow_inv r' \<and> ow_balance r' = ow_balance r + ow_value_of sel \<and>
    dict_keys (ow_utr r') = dict_keys (ow_utr r) \<union> pt_token_id ` set sel"
  proof (rule ow_receive_loop_accepts [OF paid(6) refl assms(4)])
    show "distinct (map pf_transfer_id rs)" unfolding paid(7)
      using assms(11) by (auto simp: distinct_map inj_on_def)
    have "set (map pf_transfer_id rs) \<subseteq> range (\<lambda>i. ps_uuid (st i))" unfolding paid(7) by auto
    then have "pf_transfer_id tr \<in> range (\<lambda>i. ps_uuid (st i))" if "tr \<in> set rs" for tr
      using that by auto
    with assms(12) show "\<forall>tr \<in> set rs. pf_transfer_id tr \<notin> ow_processed_transfer_ids r"
      by (metis rangeE)
    show "ow_balance r + ow_value_of sel \<le> pc_max_balance (ow_policy r)" using le assms(9) by simp
    show "pt_token_id ` set sel \<inter> dict_keys (ow_utr r) = {}"
      using utr assms(10) by (force dest: map_of_SomeD)
    show "distinct (map pt_token_id sel)" by (rule pool(1))
    show "\<forall>t \<in> set sel. map_of ?tokens (pt_token_id t) = Some (ow_outbound (ow_public_key_hex r) t) \<and>
      0 \<le> pt_value t \<and> pt_nonce t < pc_max_hops (ow_policy r) \<and> pt_hop_count t < pc_max_hops (ow_policy r) \<and>
      (\<forall>j. is_not_expired (fst (clk j)) (pt_created_at t) (pc_token_expiry_seconds (ow_policy r)) = Inr True \<and>
        epoch_seconds (snd (clk j)) - pt_issue_timestamp t \<le> pc_token_expiry_seconds (ow_policy r))"
    proof
      fix t assume t: "t \<in> set sel"
      with utr have "map_of (ow_utr s) (pt_token_id t) = Some t" by blast
      then have "(pt_token_id t, t) \<in> set (ow_utr s)" by (rule map_of_SomeD)
      note fresh = assms(13) [OF this]
      from fold_update_lookup [OF pool(1) t, where g = "ow_outbound (ow_public_key_hex r)"]
      have "map_of ?tokens (pt_token_id t) = Some (ow_outbound (ow_public_key_hex r) t)" .
      moreover from pool(2) t assms(5) have "0 \<le> pt_value t" "pt_nonce t < pc_max_hops (ow_policy r)"
        by auto
      ultimately show "map_of ?tokens (pt_token_id t) = Some (ow_outbound (ow_public_key_hex r) t) \<and>
        0 \<le> pt_value t \<and> pt_nonce t < pc_max_hops (ow_policy r) \<and> pt_hop_count t < pc_max_hops (ow_policy r) \<and>
        (\<forall>j. is_not_expired (fst (clk j)) (pt_created_at t) (pc_token_expiry_seconds (ow_policy r)) = Inr True \<and>
          epoch_seconds (snd (clk j)) - pt_issue_timestamp t \<le> pc_token_expiry_seconds (ow_policy r))"
        using fresh by simp
    qed
  qed
  then obtain r' where "ow_receive_bundle_with_reasons B clk (bundle_create uuid rs ?tokens) r =
      (Inr (map (\<lambda>tr. (pf_transfer_id tr, True, ''ACCEPTED'')) rs), r')"
    "ow_balance r' = ow_balance r + ow_value_of sel"
    by (auto simp: ow_receive_bundle_with_reasons_def bundle_create_def)
  with paid(1,4) bal show ?case
    by (intro exI [of _ "bundle_create uuid rs ?tokens"] exI [of _ s'] exI [of _ r']
        exI [of _ "ow_value_of sel"]) (simp add: bundle_create_def)
qed

lemma honest_payment_accepted_witness:
  "\<exists>pb s' r' paid. ow_create_payment toy_backend demo_poc_stamps ''b1'' 0 (demo_hex 3) 25
      (demo_ow 2 [(''a'', 10), (''b'', 20)]) = (Inr pb, s') \<and>
    ow_receive_bundle_with_reasons toy_backend (\<lambda>_. (0, 0)) pb (demo_ow 3 [(''c'', 5)]) =
      (Inr (map (\<lambda>tr. (pf_transfer_id tr, True, ''ACCEPTED'')) (pb_transfers pb)), r') \<and>
    25 \<le> paid \<and> ow_balance s' = 30 - paid \<and> ow_balance r' = 5 + paid"
proof -
  let ?s = "demo_ow 2 [(''a'', 10), (''b'', 20)]" and ?r = "demo_ow 3 [(''c'', 5)]"
  have "\<exists>pb s' r' paid. ow_create_payment toy_backend demo_poc_stamps ''b1'' 0 (ow_public_key_hex ?r) 25 ?s = (Inr pb, s') \<and>
    ow_receive_bundle_with_reasons toy_backend (\<lambda>_. (0, 0)) pb ?r =
      (Inr (map (\<lambda>tr. (pf_transfer_id tr, True, ''ACCEPTED'')) (pb_transfers pb)), r') \<and>
    25 \<le> paid \<and> ow_balance s' = ow_balance ?s - paid \<and> ow_balance r' = ow_balance ?r + paid"
  proof (rule honest_payment_accepted)
    show "inj (\<lambda>i. ps_uuid (demo_poc_stamps i))"
      by (rule injI) (auto simp: demo_poc_stamps_def dest: replicate_eq_replicate [THEN iffD1])
    show "(k, t) \<in> set (ow_utr ?s) \<Longrightarrow> pt_hop_count t \<le> pt_nonce t \<and>
      (\<forall>j. is_not_expired (fst (0, 0 :: int)) (pt_created_at t) (pc_token_expiry_seconds (ow_policy ?r)) = Inr True \<and>
        epoch_seconds (snd (0 :: int, 0)) - pt_issue_timestamp t \<le> pc_token_expiry_seconds (ow_policy ?r))"
      for k t by (auto simp: is_not_expired_def)
  qed simp_all
  then show ?thesis by simp
qed

section \<open>A gap\<close>

text \<open>
  The receiver checks the transfer, whose signature does not cover the value, and neither the
  issuer's signature nor the ownership of the token that comes with it: a transfer accepted with a
  token is accepted just as well with the same token at any other value within the cap, and the
  wallet then holds that value.
\<close>

theorem forged_value_accepted:
  assumes "fst (ow_apply_transfer_with_reason B now1 now2 r t w) = Inr (True, ''ACCEPTED'')"
    and "ow_balance w + v \<le> pc_max_balance (ow_policy w)"
  shows "\<exists>w'. ow_apply_transfer_with_reason B now1 now2 r (t\<lparr>pt_value := v\<rparr>) w =
      (Inr (True, ''ACCEPTED''), w') \<and>
    map_option pt_value (map_of (ow_utr w') (pt_token_id t)) = Some v"
proof -
  let ?t = "t\<lparr>pt_value := v\<rparr>"
  have ok: "pf_transfer_id r \<notin> ow_processed_transfer_ids w"
    "ow_transfer_ok B (ow_policy w) (ow_public_key_hex w) now1 now2 r t"
    using assms(1)
    by (cases rule: ow_apply_cases [of B now1 now2 r t w]; auto simp: ow_accepted_def)+
  then have "ow_transfer_ok B (ow_policy w) (ow_public_key_hex w) now1 now2 r ?t"
    by (simp add: ow_transfer_ok_def)
  with ok(1) assms(2) show ?thesis
    by (cases rule: ow_apply_cases [of B now1 now2 r ?t w]) (auto simp: dict_get_update)
qed

end
