(* ===== verification/ReconServer.thy ===== *)
theory ReconServer
  imports Heartbeat OfflineWallet
begin

text \<open>
  \<open>issuer/issuer.py\<close> and \<open>issuer/reconciliation_server.py\<close>: the issuer of the offline proof of
  concept and the server that settles payment bundles, refreshes tokens through heartbeats and
  re-issues the balance of a revoked wallet. Times of the server are instants in microseconds; each
  clock reading is an argument. Settlement is interpreted as a settlement ledger keyed by token
  identifier, and the lemmas on recovery say which tokens count as claimed and what is re-issued.
\<close>

section \<open>The issuer\<close>

record issuer =
  is_private_key_hex :: string
  is_public_key_hex :: string
  is_issued_tokens :: "(string, poc_token) dict"

definition new_issuer :: "string \<Rightarrow> string \<Rightarrow> issuer" where
  "new_issuer private_key_hex public_key_hex =
     \<lparr>is_private_key_hex = private_key_hex, is_public_key_hex = public_key_hex,
      is_issued_tokens = []\<rparr>"

definition mint_token ::
  "backend \<Rightarrow> poc_stamp \<Rightarrow> string \<Rightarrow> int \<Rightarrow> issuer \<Rightarrow> poc_token res \<times> issuer" where
  "mint_token B st owner_pk val iss =
     (let t = poc_new_unsigned st val (is_public_key_hex iss) owner_pk 0
      in case crypto_sign B (poc_token_payload t) (is_private_key_hex iss) of
           Inl e \<Rightarrow> (Inl e, iss)
         | Inr s \<Rightarrow>
             let t' = t\<lparr>pt_issuer_signature := s\<rparr>
             in (Inr t', iss\<lparr>is_issued_tokens :=
                   AList.update (pt_token_id t') t' (is_issued_tokens iss)\<rparr>))"

section \<open>The server\<close>

record settlement_record =
  sr_token_id :: string
  sr_transfer_id :: string
  sr_status :: string
  sr_reason :: string

record recovery_engine =
  re_policy :: policy_config
  re_revoked_wallets :: "(string, int) dict"
  re_recovery_reissued :: "(string \<times> string) set"

definition re_revoke_wallet :: "int \<Rightarrow> string \<Rightarrow> recovery_engine \<Rightarrow> recovery_engine" where
  "re_revoke_wallet now public_key re =
     re\<lparr>re_revoked_wallets := AList.update public_key now (re_revoked_wallets re)\<rparr>"

definition wait_elapsed :: "int \<Rightarrow> string \<Rightarrow> int option \<Rightarrow> recovery_engine \<Rightarrow> bool" where
  "wait_elapsed clock public_key at_time re =
     (case map_of (re_revoked_wallets re) public_key of
        None \<Rightarrow> False
      | Some revoked_at \<Rightarrow>
          let now = (case at_time of None \<Rightarrow> clock | Some t \<Rightarrow> t)
          in pc_token_expiry_seconds (re_policy re) * 1000000 < now - revoked_at)"

type_synonym chain_key = "string option \<times> string option \<times> int"

record recon_server =
  sv_issuer :: issuer
  sv_policy :: policy_config
  sv_ledger :: "(string, settlement_record) dict"
  sv_accepted_chains :: "(string, chain_key) dict"
  sv_transfer_hashes :: "(string, string) dict"
  sv_accepted_transfers :: "(poc_transfer \<times> poc_token) list"
  sv_accepted_transfer_times :: "(string, int) dict"
  sv_last_sync :: "(string, int) dict"
  sv_recovery_engine :: recovery_engine

definition new_recon_server :: "issuer \<Rightarrow> policy_config option \<Rightarrow> recon_server" where
  "new_recon_server iss policy =
     (let p = (case policy of None \<Rightarrow> default_policy | Some p \<Rightarrow> p)
      in \<lparr>sv_issuer = iss, sv_policy = p, sv_ledger = [], sv_accepted_chains = [],
          sv_transfer_hashes = [], sv_accepted_transfers = [], sv_accepted_transfer_times = [],
          sv_last_sync = [],
          sv_recovery_engine =
            \<lparr>re_policy = p, re_revoked_wallets = [], re_recovery_reissued = {}\<rparr>\<rparr>)"

text \<open>\<open>token.origin_token_id or token.token_id\<close>\<close>

definition origin_of :: "poc_token \<Rightarrow> string" where
  "origin_of t =
     (case pt_origin_token_id t of
        None \<Rightarrow> pt_token_id t
      | Some origin \<Rightarrow> if origin = [] then pt_token_id t else origin)"

definition verify_issuer_root :: "backend \<Rightarrow> poc_token \<Rightarrow> recon_server \<Rightarrow> bool" where
  "verify_issuer_root B t sv =
     (case map_of (is_issued_tokens (sv_issuer sv)) (origin_of t) of
        None \<Rightarrow> False
      | Some root \<Rightarrow>
          crypto_verify B (poc_token_payload root) (pt_issuer_signature root)
            (is_public_key_hex (sv_issuer sv)))"

definition sv_verify_transfer :: "backend \<Rightarrow> poc_transfer \<Rightarrow> bool" where
  "sv_verify_transfer B r =
     crypto_verify B (poc_transfer_payload r) (pf_signature r) (pf_sender_pk r)"

section \<open>Settlement\<close>

text \<open>\<open>revoked_at is not None and transfer.timestamp >= revoked_at\<close>\<close>

definition sent_after_revocation :: "poc_transfer \<Rightarrow> int option \<Rightarrow> bool res" where
  "sent_after_revocation r revoked_at =
     (case revoked_at of
        None \<Rightarrow> Inr False
      | Some at \<Rightarrow> bind_res (instant (pf_timestamp r)) (\<lambda>i. Inr (at \<le> i)))"

text \<open>One round of the loop: \<open>settled_at\<close> and \<open>now\<close> are its two clock readings.\<close>

definition settle_transfer ::
  "backend \<Rightarrow> int \<Rightarrow> int \<Rightarrow> poc_transfer \<Rightarrow> poc_token \<Rightarrow> recon_server \<Rightarrow>
     settlement_record res \<times> recon_server" where
  "settle_transfer B settled_at now r t sv =
     (let expected_prev_hash = pt_last_transfer_hash t;
          chain_key = (pf_parent_transfer_id r, pf_prev_transfer_hash r, pf_hop_count r);
          revoked_at = map_of (re_revoked_wallets (sv_recovery_engine sv)) (pf_sender_pk r);
          rec = (\<lambda>status reason. \<lparr>sr_token_id = pt_token_id t, sr_transfer_id = pf_transfer_id r,
            sr_status = status, sr_reason = reason\<rparr>);
          violation = (\<lambda>reason. (Inr (rec ''POLICY_VIOLATION'' reason), sv));
          max_hops = pc_max_hops (sv_policy sv)
      in if \<not> sv_verify_transfer B r then violation ''BAD_TRANSFER_SIG''
         else if \<not> verify_issuer_root B t sv then violation ''BAD_ISSUER_SIG''
         else if max_hops < pf_hop_count r then violation ''MAX_HOPS_EXCEEDED''
         else if max_hops < pf_nonce r then violation ''MAX_HOPS_EXCEEDED''
         else if pf_parent_transfer_id r \<noteq> pt_last_transfer_id t then violation ''BROKEN_PARENT_LINK''
         else if pf_parent_transfer_hash r \<noteq> expected_prev_hash
         then violation ''BROKEN_PARENT_HASH_LINK''
         else if pf_prev_transfer_hash r \<noteq> expected_prev_hash then violation ''BROKEN_HASH_LINK''
         else if map_of (sv_accepted_chains sv) (pt_token_id t) \<notin> {None, Some chain_key}
         then (Inr (rec ''DOUBLE_SPEND'' ''CONFLICTING_CHAIN''), sv)
         else if map_of (sv_ledger sv) (pt_token_id t) \<noteq> None
         then (Inr (rec ''DOUBLE_SPEND'' ''TOKEN_ALREADY_SETTLED''), sv)
         else
           (case sent_after_revocation r revoked_at of
              Inl e \<Rightarrow> (Inl e, sv)
            | Inr revoked \<Rightarrow>
                if revoked then violation ''REVOKED_SENDER''
                else if pc_token_expiry_seconds (sv_policy sv) < epoch_seconds now - pt_issue_timestamp t
                then violation ''TOKEN_EXPIRED''
                else
                  let accepted = rec ''ACCEPTED'' ''OK''
                  in (Inr accepted, sv\<lparr>
                    sv_ledger := AList.update (pt_token_id t) accepted (sv_ledger sv),
                    sv_accepted_chains :=
                      AList.update (pt_token_id t) chain_key (sv_accepted_chains sv),
                    sv_transfer_hashes :=
                      AList.update (pf_transfer_id r) (poc_payload_hash r) (sv_transfer_hashes sv),
                    sv_accepted_transfers := sv_accepted_transfers sv @ [(r, t)],
                    sv_accepted_transfer_times :=
                      AList.update (pf_transfer_id r) settled_at (sv_accepted_transfer_times sv)\<rparr>)))"

text \<open>The loop; \<open>clk i\<close> are the readings of round \<open>i\<close>. What it settled before an exception stays.\<close>

fun settle_loop ::
  "backend \<Rightarrow> (nat \<Rightarrow> int \<times> int) \<Rightarrow> nat \<Rightarrow> (string, poc_token) dict \<Rightarrow> poc_transfer list \<Rightarrow>
     settlement_record list \<Rightarrow> recon_server \<Rightarrow> settlement_record list res \<times> recon_server" where
  "settle_loop B clk i tokens [] results sv = (Inr results, sv)"
| "settle_loop B clk i tokens (r # rs) results sv =
     (case map_of tokens (pf_token_id r) of
        None \<Rightarrow> (Inl (KeyError (pf_token_id r)), sv)
      | Some t \<Rightarrow>
          (case settle_transfer B (fst (clk i)) (snd (clk i)) r t sv of
             (Inl e, sv1) \<Rightarrow> (Inl e, sv1)
           | (Inr rec, sv1) \<Rightarrow> settle_loop B clk (i + 1) tokens rs (results @ [rec]) sv1))"

definition process_bundle ::
  "backend \<Rightarrow> (nat \<Rightarrow> int \<times> int) \<Rightarrow> payment_bundle \<Rightarrow> recon_server \<Rightarrow>
     settlement_record list res \<times> recon_server" where
  "process_bundle B clk bundle sv =
     settle_loop B clk 0 (pb_tokens bundle) (pb_transfers bundle) [] sv"

section \<open>Heartbeats and expiry\<close>

fun refresh_loop ::
  "string \<Rightarrow> int \<Rightarrow> string list \<Rightarrow> string list \<Rightarrow> recon_server \<Rightarrow> string list \<times> recon_server" where
  "refresh_loop wallet_pk now [] refreshed sv = (refreshed, sv)"
| "refresh_loop wallet_pk now (tid # tids) refreshed sv =
     (case map_of (is_issued_tokens (sv_issuer sv)) tid of
        None \<Rightarrow> refresh_loop wallet_pk now tids refreshed sv
      | Some t \<Rightarrow>
          if pt_current_owner t \<noteq> wallet_pk then refresh_loop wallet_pk now tids refreshed sv
          else refresh_loop wallet_pk now tids (refreshed @ [tid])
            (sv\<lparr>sv_last_sync := AList.update tid now (sv_last_sync sv)\<rparr>))"

definition apply_sync_heartbeat ::
  "backend \<Rightarrow> int \<Rightarrow> sync_heartbeat \<Rightarrow> recon_server \<Rightarrow> string list \<times> recon_server" where
  "apply_sync_heartbeat B now hb sv =
     (if \<not> verify_heartbeat B hb then ([], sv)
      else if pc_token_expiry_seconds (sv_policy sv) * 1000000 < now - hb_timestamp hb then ([], sv)
      else refresh_loop (to_hex (hb_wallet_pk hb)) now (hb_token_ids hb) [] sv)"

definition is_token_expired :: "int \<Rightarrow> string \<Rightarrow> int option \<Rightarrow> recon_server \<Rightarrow> bool" where
  "is_token_expired clock tid at_time sv =
     (case map_of (is_issued_tokens (sv_issuer sv)) tid of
        None \<Rightarrow> True
      | Some t \<Rightarrow>
          let reference_time = (case at_time of None \<Rightarrow> clock | Some a \<Rightarrow> a);
              last_sync_ts = (case map_of (sv_last_sync sv) tid of
                None \<Rightarrow> pt_issue_timestamp t | Some s \<Rightarrow> epoch_seconds s)
          in pc_token_expiry_seconds (sv_policy sv) < epoch_seconds reference_time - last_sync_ts)"

section \<open>Recovery\<close>

definition revoke_wallet :: "int \<Rightarrow> string \<Rightarrow> recon_server \<Rightarrow> recon_server" where
  "revoke_wallet now public_key sv =
     sv\<lparr>sv_recovery_engine := re_revoke_wallet now public_key (sv_recovery_engine sv)\<rparr>"

definition recovery_wait_elapsed :: "int \<Rightarrow> string \<Rightarrow> int option \<Rightarrow> recon_server \<Rightarrow> bool" where
  "recovery_wait_elapsed clock public_key at_time sv =
     wait_elapsed clock public_key at_time (sv_recovery_engine sv)"

record recovery_report =
  rp_issued_total :: int
  rp_claimed_total :: int
  rp_safe_balance :: int
  rp_safe_token_ids :: "string list"

definition issued_for :: "string \<Rightarrow> recon_server \<Rightarrow> poc_token list" where
  "issued_for pk sv =
     filter (\<lambda>t. pt_current_owner t = pk) (map snd (is_issued_tokens (sv_issuer sv)))"

definition claim_cutoff :: "int \<Rightarrow> string \<Rightarrow> recon_server \<Rightarrow> int" where
  "claim_cutoff now pk sv =
     (case map_of (re_revoked_wallets (sv_recovery_engine sv)) pk of
        None \<Rightarrow> now
      | Some revoked_at \<Rightarrow> min now (revoked_at + pc_token_expiry_seconds (sv_policy sv) * 1000000))"

definition externally_deposited :: "int \<Rightarrow> string \<Rightarrow> recon_server \<Rightarrow> string set" where
  "externally_deposited now pk sv =
     (let revoked_origin_ids = pt_token_id ` set (issued_for pk sv)
      in (\<lambda>(r, t). origin_of t) ` set (filter (\<lambda>(r, t).
            origin_of t \<in> revoked_origin_ids \<and> pf_receiver_pk r \<noteq> pk \<and>
            (case map_of (sv_accepted_transfer_times sv) (pf_transfer_id r) of
               None \<Rightarrow> now | Some a \<Rightarrow> a) \<le> claim_cutoff now pk sv)
          (sv_accepted_transfers sv)))"

definition reconstruct_recovery :: "int \<Rightarrow> string \<Rightarrow> int option \<Rightarrow> recon_server \<Rightarrow> recovery_report" where
  "reconstruct_recovery clock pk at_time sv =
     (let now = (case at_time of None \<Rightarrow> clock | Some a \<Rightarrow> a);
          issued_for_wallet = issued_for pk sv;
          issued_total = sum_list (map pt_value issued_for_wallet);
          safe_tokens = filter (\<lambda>t. pt_token_id t \<notin> externally_deposited now pk sv) issued_for_wallet;
          safe_balance = sum_list (map pt_value safe_tokens)
      in \<lparr>rp_issued_total = issued_total, rp_claimed_total = issued_total - safe_balance,
          rp_safe_balance = safe_balance, rp_safe_token_ids = map pt_token_id safe_tokens\<rparr>)"

definition reconstruct_safe_balance :: "int \<Rightarrow> string \<Rightarrow> recon_server \<Rightarrow> int" where
  "reconstruct_safe_balance clock pk sv = rp_safe_balance (reconstruct_recovery clock pk None sv)"

fun mint_all ::
  "backend \<Rightarrow> (nat \<Rightarrow> poc_stamp) \<Rightarrow> nat \<Rightarrow> string \<Rightarrow> poc_token list \<Rightarrow> poc_token list \<Rightarrow> issuer \<Rightarrow>
     poc_token list res \<times> issuer" where
  "mint_all B st i owner_pk [] reissued iss = (Inr reissued, iss)"
| "mint_all B st i owner_pk (t # ts) reissued iss =
     (case mint_token B (st i) owner_pk (pt_value t) iss of
        (Inl e, iss1) \<Rightarrow> (Inl e, iss1)
      | (Inr t', iss1) \<Rightarrow> mint_all B st (i + 1) owner_pk ts (reissued @ [t']) iss1)"

text \<open>\<open>clock1\<close> and \<open>clock2\<close> are the readings of the wait check and of the reconstruction.\<close>

definition reissue_recovered_balance ::
  "backend \<Rightarrow> (nat \<Rightarrow> poc_stamp) \<Rightarrow> int \<Rightarrow> int \<Rightarrow> string \<Rightarrow> string \<Rightarrow> int option \<Rightarrow> recon_server \<Rightarrow>
     poc_token list res \<times> recon_server" where
  "reissue_recovered_balance B st clock1 clock2 revoked_pk new_pk at_time sv =
     (let re = sv_recovery_engine sv
      in if \<not> recovery_wait_elapsed clock1 revoked_pk at_time sv
         then (Inl (ValueError ''RECOVERY_WAIT_NOT_ELAPSED''), sv)
         else if (revoked_pk, new_pk) \<in> re_recovery_reissued re then (Inr [], sv)
         else
           let issued_for_wallet = issued_for revoked_pk sv;
               safe_token_ids = set (rp_safe_token_ids (reconstruct_recovery clock2 revoked_pk at_time sv));
               safe_tokens = filter (\<lambda>t. pt_token_id t \<in> safe_token_ids) issued_for_wallet
           in case mint_all B st 0 new_pk safe_tokens [] (sv_issuer sv) of
                (Inl e, iss1) \<Rightarrow> (Inl e, sv\<lparr>sv_issuer := iss1\<rparr>)
              | (Inr reissued, iss1) \<Rightarrow>
                  (Inr reissued, sv\<lparr>sv_issuer := iss1,
                     sv_recovery_engine := re\<lparr>re_recovery_reissued :=
                       insert (revoked_pk, new_pk) (re_recovery_reissued re)\<rparr>\<rparr>))"

section \<open>The server as a settlement ledger\<close>

text \<open>Everything a transfer must satisfy, the duplicate checks apart.\<close>

definition sv_transfer_ok :: "backend \<Rightarrow> int \<Rightarrow> poc_transfer \<Rightarrow> poc_token \<Rightarrow> recon_server \<Rightarrow> bool" where
  "sv_transfer_ok B now r t sv \<longleftrightarrow>
     sv_verify_transfer B r \<and> verify_issuer_root B t sv \<and> ow_hops_ok (sv_policy sv) r \<and>
     ow_links_ok r t \<and>
     sent_after_revocation r (map_of (re_revoked_wallets (sv_recovery_engine sv)) (pf_sender_pk r)) =
       Inr False \<and>
     epoch_seconds now - pt_issue_timestamp t \<le> pc_token_expiry_seconds (sv_policy sv)"

definition sr_accepted :: "settlement_record res \<Rightarrow> bool" where
  "sr_accepted out \<longleftrightarrow> (case out of Inl _ \<Rightarrow> False | Inr rec \<Rightarrow> sr_status rec = ''ACCEPTED'')"

definition sr_ok :: "poc_transfer \<Rightarrow> poc_token \<Rightarrow> settlement_record" where
  "sr_ok r t = \<lparr>sr_token_id = pt_token_id t, sr_transfer_id = pf_transfer_id r,
     sr_status = ''ACCEPTED'', sr_reason = ''OK''\<rparr>"

lemma sr_ok_sel [simp]:
  "sr_token_id (sr_ok r t) = pt_token_id t" "sr_transfer_id (sr_ok r t) = pf_transfer_id r"
  "sr_status (sr_ok r t) = ''ACCEPTED''" "sr_accepted (Inr (sr_ok r t))"
  by (simp_all add: sr_ok_def sr_accepted_def)

text \<open>The state after a settlement.\<close>

definition sv_settled :: "int \<Rightarrow> poc_transfer \<Rightarrow> poc_token \<Rightarrow> recon_server \<Rightarrow> recon_server" where
  "sv_settled settled_at r t sv = sv\<lparr>
     sv_ledger := AList.update (pt_token_id t) (sr_ok r t) (sv_ledger sv),
     sv_accepted_chains := AList.update (pt_token_id t)
       (pf_parent_transfer_id r, pf_prev_transfer_hash r, pf_hop_count r) (sv_accepted_chains sv),
     sv_transfer_hashes := AList.update (pf_transfer_id r) (poc_payload_hash r) (sv_transfer_hashes sv),
     sv_accepted_transfers := sv_accepted_transfers sv @ [(r, t)],
     sv_accepted_transfer_times :=
       AList.update (pf_transfer_id r) settled_at (sv_accepted_transfer_times sv)\<rparr>"

lemma sv_settled_sel [simp]:
  "sv_issuer (sv_settled at r t sv) = sv_issuer sv" "sv_policy (sv_settled at r t sv) = sv_policy sv"
  "sv_recovery_engine (sv_settled at r t sv) = sv_recovery_engine sv"
  "sv_last_sync (sv_settled at r t sv) = sv_last_sync sv"
  "sv_accepted_transfers (sv_settled at r t sv) = sv_accepted_transfers sv @ [(r, t)]"
  "sv_ledger (sv_settled at r t sv) = AList.update (pt_token_id t) (sr_ok r t) (sv_ledger sv)"
  by (simp_all add: sv_settled_def)

definition sv_chains_agree :: "recon_server \<Rightarrow> bool" where
  "sv_chains_agree sv \<longleftrightarrow> dict_keys (sv_accepted_chains sv) = dict_keys (sv_ledger sv)"

lemma sv_chains_agree_settled [simp]:
  "sv_chains_agree sv \<Longrightarrow> sv_chains_agree (sv_settled at r t sv)"
  by (simp add: sv_chains_agree_def sv_settled_def dict_keys_update del: set_map)

text \<open>The two outcomes of a transfer.\<close>

lemma settle_transfer_cases:
  assumes "sv_chains_agree sv"
  obtains (rejected) out where
    "settle_transfer B settled_at now r t sv = (out, sv)" "\<not> sr_accepted out"
    "pt_token_id t \<in> dict_keys (sv_ledger sv) \<or> \<not> sv_transfer_ok B now r t sv"
  | (accepted)
    "settle_transfer B settled_at now r t sv = (Inr (sr_ok r t), sv_settled settled_at r t sv)"
    "pt_token_id t \<notin> dict_keys (sv_ledger sv)" "sv_transfer_ok B now r t sv"
proof (cases "pt_token_id t \<notin> dict_keys (sv_ledger sv) \<and> sv_transfer_ok B now r t sv")
  case True
  then have "map_of (sv_accepted_chains sv) (pt_token_id t) = None" "map_of (sv_ledger sv) (pt_token_id t) = None"
    using assms by (simp_all add: map_of_eq_None_iff sv_chains_agree_def)
  with True show ?thesis
    by (intro accepted)
      (simp_all add: settle_transfer_def Let_def sv_transfer_ok_def sv_settled_def sr_ok_def)
next
  case False
  have "\<exists>out. settle_transfer B settled_at now r t sv = (out, sv) \<and> \<not> sr_accepted out"
    using False
    by (cases "sent_after_revocation r (map_of (re_revoked_wallets (sv_recovery_engine sv)) (pf_sender_pk r))")
      (auto simp: settle_transfer_def Let_def sv_transfer_ok_def sr_accepted_def map_of_eq_None_iff
        simp del: set_map)
  with False show ?thesis using rejected by blast
qed

text \<open>A claim: the two clock readings, the transfer and the token presented with it.\<close>

type_synonym claim = "(int \<times> int) \<times> poc_transfer \<times> poc_token"

definition settle_step :: "backend \<Rightarrow> claim \<Rightarrow> recon_server \<Rightarrow> settlement_record res \<times> recon_server" where
  "settle_step B c sv = (case c of ((settled_at, now), r, t) \<Rightarrow> settle_transfer B settled_at now r t sv)"

definition claim_valid :: "backend \<Rightarrow> recon_server \<Rightarrow> claim \<Rightarrow> bool" where
  "claim_valid B sv c = (case c of ((settled_at, now), r, t) \<Rightarrow> sv_transfer_ok B now r t sv)"

abbreviation claim_id :: "claim \<Rightarrow> string" where
  "claim_id c \<equiv> pt_token_id (snd (snd c))"

lemma settle_step_cases:
  assumes "sv_chains_agree sv"
  obtains (rejected) out where "settle_step B c sv = (out, sv)" "\<not> sr_accepted out"
    "claim_id c \<in> dict_keys (sv_ledger sv) \<or> \<not> claim_valid B sv c"
  | (accepted) settled_at r t where "settle_step B c sv = (Inr (sr_ok r t), sv_settled settled_at r t sv)"
    "claim_id c = pt_token_id t" "claim_id c \<notin> dict_keys (sv_ledger sv)" "claim_valid B sv c"
proof -
  obtain settled_at now r t where c: "c = ((settled_at, now), r, t)" by (metis prod.collapse)
  show ?thesis
    by (rule settle_transfer_cases [OF assms, of B settled_at now r t])
      (use c rejected accepted in \<open>simp_all add: settle_step_def claim_valid_def del: set_map\<close>)
qed

lemma claim_valid_settled [simp]: "claim_valid B (sv_settled at r t sv) = claim_valid B sv"
  by (rule ext) (auto simp: claim_valid_def sv_transfer_ok_def verify_issuer_root_def split: option.splits)

interpretation server: first_claim "settle_step B" claim_id sr_accepted
  "\<lambda>sv. dict_keys (sv_ledger sv)" sv_chains_agree "claim_valid B"
  for B
proof unfold_locales
  fix sv and c :: claim
  assume inv: "sv_chains_agree sv"
  note cs = settle_step_cases [OF inv, of B c]
  show "sv_chains_agree (snd (settle_step B c sv))"
    by (rule cs) (simp_all add: inv)
  { assume "sr_accepted (fst (settle_step B c sv))"
    then show "claim_id c \<notin> dict_keys (sv_ledger sv) \<and>
        dict_keys (sv_ledger (snd (settle_step B c sv))) = insert (claim_id c) (dict_keys (sv_ledger sv))"
      by (cases rule: cs) (simp_all add: dict_keys_update del: set_map) }
  { assume "\<not> sr_accepted (fst (settle_step B c sv))"
    then show "dict_keys (sv_ledger (snd (settle_step B c sv))) = dict_keys (sv_ledger sv)"
      by (cases rule: cs) simp_all }
  show "claim_valid B (snd (settle_step B c sv)) = claim_valid B sv"
    by (rule cs) simp_all
  show "sr_accepted (fst (settle_step B c sv)) \<longleftrightarrow>
      claim_valid B sv c \<and> claim_id c \<notin> dict_keys (sv_ledger sv)"
    by (rule cs) auto
qed

section \<open>Issued tokens\<close>

text \<open>The registry of an issuer: tokens under their identifiers, signed, each its own origin.\<close>

definition issuer_ok :: "backend \<Rightarrow> issuer \<Rightarrow> bool" where
  "issuer_ok B iss \<longleftrightarrow>
     hex_keypair B (is_private_key_hex iss) (is_public_key_hex iss) \<and> dict_wf (is_issued_tokens iss) \<and>
     (\<forall>(k, t) \<in> set (is_issued_tokens iss). pt_token_id t = k \<and> pt_origin_token_id t = Some k \<and>
        crypto_verify B (poc_token_payload t) (pt_issuer_signature t) (is_public_key_hex iss))"

lemma poc_token_payload_signature [simp]:
  "poc_token_payload (t\<lparr>pt_issuer_signature := s\<rparr>) = poc_token_payload t"
  by (simp add: poc_token_payload_def)

text \<open>The token that is minted from a stamp, and its registration.\<close>

lemma mint_token_returns:
  assumes "backend_ok B" and "issuer_ok B iss"
  obtains t where "mint_token B st owner_pk v iss =
      (Inr t, iss\<lparr>is_issued_tokens := AList.update (ps_uuid st) t (is_issued_tokens iss)\<rparr>)"
    "pt_token_id t = ps_uuid st" "pt_value t = v" "pt_current_owner t = owner_pk"
    "pt_origin_token_id t = Some (ps_uuid st)" "pt_issue_timestamp t = ps_time st"
    "pt_hop_count t = 0" "pt_last_transfer_id t = None" "pt_last_transfer_hash t = None"
    "crypto_verify B (poc_token_payload t) (pt_issuer_signature t) (is_public_key_hex iss)"
    "pt_nonce t = 0" "pt_created_at t = ps_now st"
proof -
  let ?t = "poc_new_unsigned st v (is_public_key_hex iss) owner_pk 0"
  have "hex_keypair B (is_private_key_hex iss) (is_public_key_hex iss)"
    using assms(2) by (simp add: issuer_ok_def)
  from hexsig.sign_verifies [OF assms(1) this, of "poc_token_payload ?t"] obtain s where
    "crypto_sign B (poc_token_payload ?t) (is_private_key_hex iss) = Inr s"
    "crypto_verify B (poc_token_payload ?t) s (is_public_key_hex iss)" by blast
  then show thesis
    by (intro that [of "?t\<lparr>pt_issuer_signature := s\<rparr>"])
      (simp_all add: mint_token_def poc_new_unsigned_def Let_def poc_token_payload_def)
qed

lemma issuer_ok_register:
  assumes "issuer_ok B iss" and "pt_token_id t = k" and "pt_origin_token_id t = Some k"
    and "crypto_verify B (poc_token_payload t) (pt_issuer_signature t) (is_public_key_hex iss)"
  shows "issuer_ok B (iss\<lparr>is_issued_tokens := AList.update k t (is_issued_tokens iss)\<rparr>)"
  using assms by (auto simp: issuer_ok_def dict_wf_update dest!: dict_in_update)

lemma mint_token_keeps:
  assumes "backend_ok B" and "issuer_ok B iss" and "mint_token B st owner_pk v iss = (out, iss')"
  shows "issuer_ok B iss'" and "is_public_key_hex iss' = is_public_key_hex iss"
    and "dict_keys (is_issued_tokens iss) \<subseteq> dict_keys (is_issued_tokens iss')"
proof -
  obtain t where t: "mint_token B st owner_pk v iss =
      (Inr t, iss\<lparr>is_issued_tokens := AList.update (ps_uuid st) t (is_issued_tokens iss)\<rparr>)"
    "pt_token_id t = ps_uuid st" "pt_origin_token_id t = Some (ps_uuid st)"
    "crypto_verify B (poc_token_payload t) (pt_issuer_signature t) (is_public_key_hex iss)"
    using mint_token_returns [OF assms(1,2), of st owner_pk v] by metis
  then have iss': "iss' = iss\<lparr>is_issued_tokens := AList.update (ps_uuid st) t (is_issued_tokens iss)\<rparr>"
    using assms(3) by simp
  show "issuer_ok B iss'" unfolding iss' by (rule issuer_ok_register [OF assms(2) t(2-4)])
  show "is_public_key_hex iss' = is_public_key_hex iss" unfolding iss' by simp
  show "dict_keys (is_issued_tokens iss) \<subseteq> dict_keys (is_issued_tokens iss')"
    unfolding iss' by (simp add: dict_keys_update del: set_map) blast
qed

lemma mint_all_keeps:
  "backend_ok B \<Longrightarrow> issuer_ok B iss \<Longrightarrow> mint_all B st i owner_pk ts reissued iss = (out, iss') \<Longrightarrow>
     issuer_ok B iss' \<and> is_public_key_hex iss' = is_public_key_hex iss \<and>
     dict_keys (is_issued_tokens iss) \<subseteq> dict_keys (is_issued_tokens iss')"
proof (induction B st i owner_pk ts reissued iss arbitrary: out rule: mint_all.induct)
  case (2 B st i owner_pk t ts reissued iss)
  obtain out1 iss1 where m: "mint_token B (st i) owner_pk (pt_value t) iss = (out1, iss1)" by fastforce
  note k = mint_token_keeps [OF "2.prems"(1,2) m]
  show ?case
  proof (cases out1)
    case (Inl e)
    with "2.prems"(3) m k show ?thesis by simp
  next
    case (Inr t')
    with "2.prems"(3) m have "mint_all B st (i + 1) owner_pk ts (reissued @ [t']) iss1 = (out, iss')"
      by simp
    with "2.IH" [OF m [symmetric] Inr "2.prems"(1) k(1)] k show ?thesis by auto
  qed
qed simp

text \<open>Minting a list of values with new identifiers.\<close>

lemma mint_all_returns:
  assumes "backend_ok B" and "issuer_ok B iss" and "inj (\<lambda>i. ps_uuid (st i))"
    and "\<And>j. i \<le> j \<Longrightarrow> ps_uuid (st j) \<notin> dict_keys (is_issued_tokens iss)"
  shows "\<exists>ts'. mint_all B st i owner_pk ts reissued iss =
      (Inr (reissued @ ts'), iss\<lparr>is_issued_tokens := is_issued_tokens iss @ map (\<lambda>t. (pt_token_id t, t)) ts'\<rparr>) \<and>
    map pt_value ts' = map pt_value ts \<and> (\<forall>t \<in> set ts'. pt_current_owner t = owner_pk)"
  using assms
proof (induction ts arbitrary: i reissued iss)
  case Nil
  then show ?case by simp
next
  case (Cons t ts)
  obtain u where u: "mint_token B (st i) owner_pk (pt_value t) iss =
      (Inr u, iss\<lparr>is_issued_tokens := AList.update (ps_uuid (st i)) u (is_issued_tokens iss)\<rparr>)"
    "pt_token_id u = ps_uuid (st i)" "pt_value u = pt_value t" "pt_current_owner u = owner_pk"
    using mint_token_returns [OF Cons.prems(1,2), of "st i" owner_pk "pt_value t"] by metis
  let ?iss = "iss\<lparr>is_issued_tokens := is_issued_tokens iss @ [(pt_token_id u, u)]\<rparr>"
  have upd: "AList.update (ps_uuid (st i)) u (is_issued_tokens iss) =
      is_issued_tokens iss @ [(pt_token_id u, u)]"
    using Cons.prems(4) [OF order_refl] u(2) by (simp add: dict_update_new)
  note ok = mint_token_keeps(1) [OF Cons.prems(1,2) u(1), unfolded upd]
  have new: "ps_uuid (st j) \<notin> dict_keys (is_issued_tokens ?iss)" if "i + 1 \<le> j" for j
    using Cons.prems(4) [of j] injD [OF Cons.prems(3), of i j] that u(2) by auto
  from Cons.IH [OF Cons.prems(1) ok Cons.prems(3) new, where reissued = "reissued @ [u]"] obtain ts' where
    "mint_all B st (i + 1) owner_pk ts (reissued @ [u]) ?iss =
      (Inr ((reissued @ [u]) @ ts'), ?iss\<lparr>is_issued_tokens := is_issued_tokens ?iss @ map (\<lambda>t. (pt_token_id t, t)) ts'\<rparr>)"
    "map pt_value ts' = map pt_value ts" "\<forall>t \<in> set ts'. pt_current_owner t = owner_pk" by blast
  then show ?case using u upd by (intro exI [of _ "u # ts'"]) simp
qed

section \<open>Runs of the server\<close>

inductive sv_step :: "backend \<Rightarrow> recon_server \<Rightarrow> recon_server \<Rightarrow> bool" for B where
  Mint: "mint_token B st owner_pk v (sv_issuer sv) = (out, iss) \<Longrightarrow> sv_step B sv (sv\<lparr>sv_issuer := iss\<rparr>)"
| Process: "process_bundle B clk b sv = (out, sv') \<Longrightarrow> sv_step B sv sv'"
| Heartbeat: "apply_sync_heartbeat B now hb sv = (out, sv') \<Longrightarrow> sv_step B sv sv'"
| Revoke: "sv_step B sv (revoke_wallet now pk sv)"
| Reissue: "reissue_recovered_balance B st clock1 clock2 revoked_pk new_pk at_time sv = (out, sv') \<Longrightarrow>
    sv_step B sv sv'"

text \<open>
  Everything that has been settled: one record and one transfer for each identifier, in order,
  each with a verified signature and an origin in the registry of the issuer.
\<close>

definition sv_settlements_ok :: "backend \<Rightarrow> recon_server \<Rightarrow> bool" where
  "sv_settlements_ok B sv \<longleftrightarrow>
     map (\<lambda>(r, t). pt_token_id t) (sv_accepted_transfers sv) = map fst (sv_ledger sv) \<and>
     dict_wf (sv_ledger sv) \<and>
     list_all2 (\<lambda>(k, rec) (r, t). rec = sr_ok r t) (sv_ledger sv) (sv_accepted_transfers sv) \<and>
     (\<forall>(r, t) \<in> set (sv_accepted_transfers sv). sv_verify_transfer B r \<and>
        origin_of t \<in> dict_keys (is_issued_tokens (sv_issuer sv)) \<and> ow_hops_ok (sv_policy sv) r)"

definition sv_inv :: "backend \<Rightarrow> recon_server \<Rightarrow> bool" where
  "sv_inv B sv \<longleftrightarrow>
     issuer_ok B (sv_issuer sv) \<and> sv_chains_agree sv \<and>
     re_policy (sv_recovery_engine sv) = sv_policy sv \<and> sv_settlements_ok B sv"

lemma sv_inv_chains: "sv_inv B sv \<Longrightarrow> sv_chains_agree sv"
  by (simp add: sv_inv_def)

lemma verify_issuer_root_iff:
  assumes "issuer_ok B (sv_issuer sv)"
  shows "verify_issuer_root B t sv \<longleftrightarrow> origin_of t \<in> dict_keys (is_issued_tokens (sv_issuer sv))"
proof (cases "map_of (is_issued_tokens (sv_issuer sv)) (origin_of t)")
  case None
  moreover from this have "origin_of t \<notin> dict_keys (is_issued_tokens (sv_issuer sv))"
    by (simp add: map_of_eq_None_iff del: set_map)
  ultimately show ?thesis by (simp add: verify_issuer_root_def)
next
  case (Some root)
  then have "(origin_of t, root) \<in> set (is_issued_tokens (sv_issuer sv))" by (rule map_of_SomeD)
  moreover from this have "origin_of t \<in> dict_keys (is_issued_tokens (sv_issuer sv))"
    by (metis fst_conv image_eqI)
  ultimately show ?thesis using assms Some by (auto simp: verify_issuer_root_def issuer_ok_def)
qed

lemma settle_loop_induct:
  assumes "settle_loop B clk i tokens rs results sv = (out, sv')" and "P sv"
    and "\<And>sv. P sv \<Longrightarrow> sv_chains_agree sv"
    and "\<And>at now r t sv. P sv \<Longrightarrow> pt_token_id t \<notin> dict_keys (sv_ledger sv) \<Longrightarrow>
      sv_transfer_ok B now r t sv \<Longrightarrow> P (sv_settled at r t sv)"
  shows "P sv'"
  using assms(1,2,4)
proof (induction B clk i tokens rs results sv arbitrary: out rule: settle_loop.induct)
  case (2 B clk i tokens r rs results sv)
  show ?case
  proof (cases "map_of tokens (pf_token_id r)")
    case None
    with "2.prems" show ?thesis by simp
  next
    case (Some t)
    show ?thesis
    proof (rule settle_transfer_cases [OF assms(3) [OF "2.prems"(2)], of B "fst (clk i)" "snd (clk i)" r t])
      fix out1 assume r: "settle_transfer B (fst (clk i)) (snd (clk i)) r t sv = (out1, sv)"
      then show ?thesis
      proof (cases out1)
        case (Inr rec)
        with "2.prems"(1) Some r have "settle_loop B clk (i + 1) tokens rs (results @ [rec]) sv = (out, sv')"
          by simp
        from "2.IH" [OF Some r [symmetric] Inr this "2.prems"(2)] "2.prems"(3)
        show ?thesis by simp
      qed (use "2.prems"(1,2) Some in simp)
    next
      assume r: "settle_transfer B (fst (clk i)) (snd (clk i)) r t sv =
          (Inr (sr_ok r t), sv_settled (fst (clk i)) r t sv)"
        and new: "pt_token_id t \<notin> dict_keys (sv_ledger sv)" "sv_transfer_ok B (snd (clk i)) r t sv"
      from "2.prems" Some r have "settle_loop B clk (i + 1) tokens rs (results @ [sr_ok r t])
          (sv_settled (fst (clk i)) r t sv) = (out, sv')" by simp
      from "2.IH" [OF Some r [symmetric] refl this "2.prems"(3) [OF "2.prems"(2) new]] "2.prems"(3)
      show ?thesis by simp
    qed
  qed
qed simp

lemma sv_inv_settled:
  assumes "sv_inv B sv" and "pt_token_id t \<notin> dict_keys (sv_ledger sv)" and "sv_transfer_ok B now r t sv"
  shows "sv_inv B (sv_settled at r t sv)"
proof -
  have "sv_ledger (sv_settled at r t sv) = sv_ledger sv @ [(pt_token_id t, sr_ok r t)]"
    using dict_update_new [OF assms(2)] by simp
  moreover have "list_all2 (\<lambda>(k, rec) (r, t). rec = sr_ok r t)
      (sv_ledger sv @ [(pt_token_id t, sr_ok r t)]) (sv_accepted_transfers sv @ [(r, t)])"
    using assms(1) by (intro list_all2_appendI) (simp_all add: sv_inv_def sv_settlements_ok_def)
  ultimately show ?thesis
    using assms by (simp add: sv_inv_def sv_settlements_ok_def sv_transfer_ok_def verify_issuer_root_iff
      del: sv_settled_sel(6))
qed

text \<open>Operations that leave the settlements alone and only add to the registry.\<close>

lemma sv_inv_cong:
  assumes "sv_inv B sv" and "issuer_ok B (sv_issuer sv')"
    and "dict_keys (is_issued_tokens (sv_issuer sv)) \<subseteq> dict_keys (is_issued_tokens (sv_issuer sv'))"
    and "sv_ledger sv' = sv_ledger sv" and "sv_accepted_chains sv' = sv_accepted_chains sv"
    and "sv_accepted_transfers sv' = sv_accepted_transfers sv" and "sv_policy sv' = sv_policy sv"
    and "re_policy (sv_recovery_engine sv') = re_policy (sv_recovery_engine sv)"
  shows "sv_inv B sv'"
  using assms by (auto simp: sv_inv_def sv_settlements_ok_def sv_chains_agree_def)

lemma refresh_loop_keeps:
  "refresh_loop pk now tids refreshed sv = (out, sv') \<Longrightarrow>
     \<exists>sync. sv' = sv\<lparr>sv_last_sync := sync\<rparr>"
proof (induction pk now tids refreshed sv rule: refresh_loop.induct)
  case (1 pk now refreshed sv)
  then show ?case by (intro exI [of _ "sv_last_sync sv"]) simp
next
  case (2 pk now tid tids refreshed sv)
  then show ?case by (fastforce split: option.splits if_splits)
qed

lemma sv_step_inv:
  assumes "sv_step B sv sv'" and "backend_ok B" and "sv_inv B sv"
  shows "sv_inv B sv'"
  using assms(1)
proof cases
  case (Mint st owner_pk v out iss)
  have "issuer_ok B (sv_issuer sv)" using assms(3) by (simp add: sv_inv_def)
  note k = mint_token_keeps [OF assms(2) this Mint(2)]
  show ?thesis unfolding Mint(1) using k by (intro sv_inv_cong [OF assms(3)]) simp_all
next
  case (Process clk b out)
  show ?thesis
    by (rule settle_loop_induct [OF Process [unfolded process_bundle_def]])
      (use assms(3) in \<open>blast intro: sv_inv_settled dest: sv_inv_chains\<close>)+
next
  case (Heartbeat now hb out)
  then have "sv' = sv \<or> (\<exists>sync. sv' = sv\<lparr>sv_last_sync := sync\<rparr>)"
    using refresh_loop_keeps by (fastforce simp: apply_sync_heartbeat_def split: if_splits)
  moreover have "sv_inv B (sv\<lparr>sv_last_sync := sync\<rparr>)" for sync
    using assms(3) by (intro sv_inv_cong [OF assms(3)]) (simp_all add: sv_inv_def)
  ultimately show ?thesis using assms(3) by blast
next
  case (Revoke now pk)
  show ?thesis unfolding Revoke
    by (rule sv_inv_cong [OF assms(3)])
      (use assms(3) in \<open>simp_all add: revoke_wallet_def re_revoke_wallet_def sv_inv_def\<close>)
next
  case (Reissue st clock1 clock2 revoked_pk new_pk at_time out)
  have iss: "issuer_ok B (sv_issuer sv)" using assms(3) by (simp add: sv_inv_def)
  show ?thesis
  proof (cases "sv' = sv")
    case False
    define ts where "ts = filter (\<lambda>t. pt_token_id t \<in>
      set (rp_safe_token_ids (reconstruct_recovery clock2 revoked_pk at_time sv))) (issued_for revoked_pk sv)"
    obtain out1 iss1 where m: "mint_all B st 0 new_pk ts [] (sv_issuer sv) = (out1, iss1)" by fastforce
    note k = mint_all_keeps [OF assms(2) iss m]
    have "sv_issuer sv' = iss1 \<and> sv_ledger sv' = sv_ledger sv \<and>
        sv_accepted_chains sv' = sv_accepted_chains sv \<and> sv_accepted_transfers sv' = sv_accepted_transfers sv \<and>
        sv_policy sv' = sv_policy sv \<and> re_policy (sv_recovery_engine sv') = re_policy (sv_recovery_engine sv)"
      using Reissue m False unfolding reissue_recovered_balance_def Let_def ts_def [symmetric]
      by (auto split: if_splits sum.splits)
    with k show ?thesis by (intro sv_inv_cong [OF assms(3)]) simp_all
  qed (use assms(3) in simp)
qed

lemma sv_run_inv:
  "(sv_step B)\<^sup>*\<^sup>* sv sv' \<Longrightarrow> backend_ok B \<Longrightarrow> sv_inv B sv \<Longrightarrow> sv_inv B sv'"
  by (induction rule: rtranclp_induct) (auto intro: sv_step_inv)

lemma sv_inv_new:
  "hex_keypair B sk pk \<Longrightarrow> sv_inv B (new_recon_server (new_issuer sk pk) policy)"
  by (simp add: sv_inv_def issuer_ok_def new_issuer_def new_recon_server_def sv_chains_agree_def
      sv_settlements_ok_def Let_def)

section \<open>Recovery\<close>

lemma issued_for_facts:
  assumes "issuer_ok B (sv_issuer sv)"
  shows "distinct (map pt_token_id (issued_for pk sv))"
    and "t \<in> set (issued_for pk sv) \<longleftrightarrow>
      map_of (is_issued_tokens (sv_issuer sv)) (pt_token_id t) = Some t \<and> pt_current_owner t = pk"
proof -
  have keyed: "dict_wf (is_issued_tokens (sv_issuer sv))"
    "\<forall>(k, t) \<in> set (is_issued_tokens (sv_issuer sv)). pt_token_id t = k"
    using assms by (auto simp: issuer_ok_def)
  from dict_self_keyed(1) [OF this] show "distinct (map pt_token_id (issued_for pk sv))"
    by (simp add: issued_for_def distinct_map_filter)
  have "map_of (is_issued_tokens (sv_issuer sv)) (pt_token_id t) = Some t \<longleftrightarrow>
      t \<in> snd ` set (is_issued_tokens (sv_issuer sv))"
    using dict_self_keyed(2) [OF keyed] by (force dest: map_of_SomeD)
  then show "t \<in> set (issued_for pk sv) \<longleftrightarrow>
      map_of (is_issued_tokens (sv_issuer sv)) (pt_token_id t) = Some t \<and> pt_current_owner t = pk"
    by (auto simp: issued_for_def)
qed

text \<open>The token with identifier \<open>tid\<close> was claimed by someone else in time.\<close>

definition claimed_by :: "int \<Rightarrow> string \<Rightarrow> string \<Rightarrow> recon_server \<Rightarrow> bool" where
  "claimed_by now pk tid sv \<longleftrightarrow>
     (\<exists>(r, t) \<in> set (sv_accepted_transfers sv). origin_of t = tid \<and> pf_receiver_pk r \<noteq> pk \<and>
        (case map_of (sv_accepted_transfer_times sv) (pf_transfer_id r) of None \<Rightarrow> now | Some a \<Rightarrow> a)
          \<le> claim_cutoff now pk sv)"

definition safe_tokens_for :: "int \<Rightarrow> string \<Rightarrow> recon_server \<Rightarrow> poc_token list" where
  "safe_tokens_for now pk sv =
     filter (\<lambda>t. \<not> claimed_by now pk (pt_token_id t) sv) (issued_for pk sv)"

lemma reconstruct_recovery_eq:
  fixes clock at_time
  defines "now \<equiv> (case at_time of None \<Rightarrow> clock | Some a \<Rightarrow> a)"
  shows "reconstruct_recovery clock pk at_time sv =
    (let total = sum_list (map pt_value (issued_for pk sv));
         safe = sum_list (map pt_value (safe_tokens_for now pk sv))
     in \<lparr>rp_issued_total = total, rp_claimed_total = total - safe, rp_safe_balance = safe,
         rp_safe_token_ids = map pt_token_id (safe_tokens_for now pk sv)\<rparr>)"
proof -
  have "pt_token_id t \<in> externally_deposited now pk sv \<longleftrightarrow> claimed_by now pk (pt_token_id t) sv"
    if "t \<in> set (issued_for pk sv)" for t
    using that by (force simp: externally_deposited_def claimed_by_def Let_def image_iff)
  then have "filter (\<lambda>t. pt_token_id t \<notin> externally_deposited now pk sv) (issued_for pk sv) =
      safe_tokens_for now pk sv"
    unfolding safe_tokens_for_def by (intro filter_cong) auto
  then show ?thesis by (simp add: reconstruct_recovery_def Let_def now_def)
qed

lemma reissue_cases:
  assumes "issuer_ok B (sv_issuer sv)"
  shows "reissue_recovered_balance B st clock1 clock2 revoked_pk new_pk at_time sv =
    (if \<not> recovery_wait_elapsed clock1 revoked_pk at_time sv
     then (Inl (ValueError ''RECOVERY_WAIT_NOT_ELAPSED''), sv)
     else if (revoked_pk, new_pk) \<in> re_recovery_reissued (sv_recovery_engine sv) then (Inr [], sv)
     else case mint_all B st 0 new_pk
            (safe_tokens_for (case at_time of None \<Rightarrow> clock2 | Some a \<Rightarrow> a) revoked_pk sv) [] (sv_issuer sv) of
          (Inl e, iss) \<Rightarrow> (Inl e, sv\<lparr>sv_issuer := iss\<rparr>)
        | (Inr ts, iss) \<Rightarrow> (Inr ts, sv\<lparr>sv_issuer := iss, sv_recovery_engine :=
            sv_recovery_engine sv\<lparr>re_recovery_reissued :=
              insert (revoked_pk, new_pk) (re_recovery_reissued (sv_recovery_engine sv))\<rparr>\<rparr>))"
proof -
  define now where "now = (case at_time of None \<Rightarrow> clock2 | Some a \<Rightarrow> a)"
  have safe_eq: "pt_token_id t \<in> pt_token_id ` set (safe_tokens_for now revoked_pk sv) \<longleftrightarrow>
      \<not> claimed_by now revoked_pk (pt_token_id t) sv"
    if "t \<in> set (issued_for revoked_pk sv)" for t
    using that by (auto simp: safe_tokens_for_def)
  have "filter (\<lambda>t. pt_token_id t \<in> set (map pt_token_id (safe_tokens_for now revoked_pk sv)))
      (issued_for revoked_pk sv) = safe_tokens_for now revoked_pk sv"
    using safe_eq unfolding set_map by (subst (2) safe_tokens_for_def) (intro filter_cong refl)
  then show ?thesis
    unfolding reissue_recovered_balance_def reconstruct_recovery_eq Let_def now_def [symmetric]
    by simp
qed

lemma reissue_again:
  "recovery_wait_elapsed clock1 revoked_pk at_time sv \<Longrightarrow>
     (revoked_pk, new_pk) \<in> re_recovery_reissued (sv_recovery_engine sv) \<Longrightarrow>
     reissue_recovered_balance B st clock1 clock2 revoked_pk new_pk at_time sv = (Inr [], sv)"
  by (simp add: reissue_recovered_balance_def)

section \<open>A server for the witnesses\<close>

text \<open>What the toy scheme signs with key \<open>k\<close>.\<close>

definition demo_sign :: "8 word \<Rightarrow> bytes \<Rightarrow> string" where
  "demo_sign k m = to_hex (replicate 32 k @ m)"

lemma toy_verifies [simp]: "crypto_verify toy_backend m (demo_sign k m) (demo_hex k)"
  by (simp add: crypto_verify_def demo_sign_def demo_hex_def)

definition demo_root :: poc_token where
  "demo_root = (let t = poc_new_unsigned (demo_poc_stamps 0) 10 (demo_hex 1) (demo_hex 2) 0
     in t\<lparr>pt_issuer_signature := demo_sign 1 (poc_token_payload t)\<rparr>)"

lemma demo_root_sel [simp]:
  "pt_token_id demo_root = ''u''" "pt_value demo_root = 10" "pt_current_owner demo_root = demo_hex 2"
  "pt_origin_token_id demo_root = Some ''u''" "pt_issue_timestamp demo_root = 0"
  "pt_last_transfer_id demo_root = None" "pt_last_transfer_hash demo_root = None"
  by (simp_all add: demo_root_def poc_new_unsigned_def demo_poc_stamps_def Let_def)

lemma demo_root_signed [simp]:
  "crypto_verify toy_backend (poc_token_payload demo_root) (pt_issuer_signature demo_root) (demo_hex 1)"
  by (simp add: demo_root_def Let_def)

definition demo_server :: recon_server where
  "demo_server = new_recon_server \<lparr>is_private_key_hex = demo_hex 1, is_public_key_hex = demo_hex 1,
     is_issued_tokens = [(''u'', demo_root)]\<rparr> None"

lemma demo_server_inv [simp]: "sv_inv toy_backend demo_server"
  by (simp add: demo_server_def sv_inv_def issuer_ok_def new_recon_server_def sv_chains_agree_def
      sv_settlements_ok_def Let_def)

lemma demo_server_sel [simp]:
  "sv_ledger demo_server = []" "sv_policy demo_server = default_policy" "sv_last_sync demo_server = []"
  "is_issued_tokens (sv_issuer demo_server) = [(''u'', demo_root)]"
  "is_public_key_hex (sv_issuer demo_server) = demo_hex 1"
  "re_revoked_wallets (sv_recovery_engine demo_server) = []"
  "re_recovery_reissued (sv_recovery_engine demo_server) = {}"
  "re_policy (sv_recovery_engine demo_server) = default_policy"
  "sv_accepted_transfers demo_server = []"
  by (simp_all add: demo_server_def new_recon_server_def Let_def)

text \<open>The first transfer of \<open>demo_root\<close>, from key 2 to key \<open>k\<close>, as a claim at the epoch.\<close>

definition demo_claim :: "8 word \<Rightarrow> claim" where
  "demo_claim k = (let r = poc_transfer_unsigned (demo_poc_stamps (unat k)) ''u'' (demo_hex 2) (demo_hex k) 1
       None None None 1
     in ((0, 0), r\<lparr>pf_signature := demo_sign 2 (poc_transfer_payload r)\<rparr>, demo_root))"

lemma poc_transfer_unsigned_sel [simp]:
  "pf_sender_pk (poc_transfer_unsigned st tid spk rpk n pid ph prev h) = spk"
  "pf_nonce (poc_transfer_unsigned st tid spk rpk n pid ph prev h) = n"
  "pf_hop_count (poc_transfer_unsigned st tid spk rpk n pid ph prev h) = h"
  "pf_parent_transfer_id (poc_transfer_unsigned st tid spk rpk n pid ph prev h) = pid"
  "pf_parent_transfer_hash (poc_transfer_unsigned st tid spk rpk n pid ph prev h) = ph"
  "pf_prev_transfer_hash (poc_transfer_unsigned st tid spk rpk n pid ph prev h) = prev"
  by (simp_all add: poc_transfer_unsigned_def)

lemma demo_claim_valid [simp]: "claim_valid toy_backend demo_server (demo_claim k)" "claim_id (demo_claim k) = ''u''"
  by (simp_all add: demo_claim_def claim_valid_def sv_transfer_ok_def sv_verify_transfer_def
      verify_issuer_root_def origin_of_def sent_after_revocation_def Let_def)

section \<open>Properties\<close>

text \<open>
  C5: First valid claim wins: a server whose records are consistent and to which claims are
  presented one after the other accepts a claim exactly when its transfer is signed by the sender
  it names, its token descends from a token of the issuer's registry, the hop count and nonce are
  within the limit, the transfer continues the token's history, its sender had not been revoked
  before it was made, the token is not older than the expiry window, its identifier is not in the
  ledger, and no earlier claim was such a valid one on the same identifier.
\<close>
theorem server_first_valid_claim:
  assumes "sv_inv B sv" and "i < length cs"
  shows "sr_accepted (fst (submit_all (settle_step B) cs sv) ! i) \<longleftrightarrow>
    (case cs ! i of ((settled_at, now), r, t) \<Rightarrow>
       crypto_verify B (poc_transfer_payload r) (pf_signature r) (pf_sender_pk r) \<and>
       origin_of t \<in> dict_keys (is_issued_tokens (sv_issuer sv)) \<and>
       ow_hops_ok (sv_policy sv) r \<and> ow_links_ok r t \<and>
       sent_after_revocation r (map_of (re_revoked_wallets (sv_recovery_engine sv)) (pf_sender_pk r)) =
         Inr False \<and>
       epoch_seconds now - pt_issue_timestamp t \<le> pc_token_expiry_seconds (sv_policy sv)) \<and>
    claim_id (cs ! i) \<notin> dict_keys (sv_ledger sv) \<and>
    (\<forall>j < i. claim_valid B sv (cs ! j) \<longrightarrow> claim_id (cs ! j) \<noteq> claim_id (cs ! i))"
proof -
  have "sv_chains_agree sv" and iss: "issuer_ok B (sv_issuer sv)" using assms(1) by (simp_all add: sv_inv_def)
  from server.accepts_first_valid [OF this(1) assms(2), of B] show ?thesis
    by (simp add: claim_valid_def sv_transfer_ok_def sv_verify_transfer_def verify_issuer_root_iff [OF iss]
        split: prod.split del: set_map)
qed

lemma server_first_valid_claim_witness:
  "sr_accepted (fst (submit_all (settle_step toy_backend) [demo_claim 3, demo_claim 4] demo_server) ! 0) \<and>
   \<not> sr_accepted (fst (submit_all (settle_step toy_backend) [demo_claim 3, demo_claim 4] demo_server) ! 1)"
proof -
  let ?cs = "[demo_claim 3, demo_claim 4]"
  have "0 < length ?cs" "1 < length ?cs" by simp_all
  note first = server_first_valid_claim [OF demo_server_inv this(1)]
    and second = server_first_valid_claim [OF demo_server_inv this(2)]
  have "claim_valid toy_backend demo_server (demo_claim 3)" by simp
  then show ?thesis unfolding first second
    by (auto simp: demo_claim_valid(2) claim_valid_def sv_transfer_ok_def sv_verify_transfer_def
        verify_issuer_root_def split: option.splits prod.splits if_splits)
qed

text \<open>
  C9: Whatever is minted, presented in bundles, refreshed, revoked and re-issued, in any order: the
  ledger of a server holds one accepted record for each settled token identifier, in the order of
  the accepted transfers, no two of them under the same token identifier; each accepted transfer
  carries a valid signature, stays within the hop limit and names a token of the issuer, and every
  token the issuer holds is filed under its own identifier with a valid signature. The identifier a
  record is filed under is the one the claim gives: that one issued token can be settled under
  several of them is the lemma \<open>issued_token_settles_repeatedly\<close> below.
\<close>
theorem reachable_server_sound:
  assumes "backend_ok B" and "hex_keypair B sk pk"
    and "(sv_step B)\<^sup>*\<^sup>* (new_recon_server (new_issuer sk pk) policy) sv"
  shows "map fst (sv_ledger sv) = map (\<lambda>(r, t). pt_token_id t) (sv_accepted_transfers sv) \<and>
    distinct (map fst (sv_ledger sv)) \<and>
    (\<forall>(r, t) \<in> set (sv_accepted_transfers sv).
      crypto_verify B (poc_transfer_payload r) (pf_signature r) (pf_sender_pk r) \<and>
      origin_of t \<in> dict_keys (is_issued_tokens (sv_issuer sv)) \<and>
      pf_hop_count r \<le> pc_max_hops (sv_policy sv) \<and>
      map_of (sv_ledger sv) (pt_token_id t) = Some (sr_ok r t)) \<and>
    (\<forall>(k, t) \<in> set (is_issued_tokens (sv_issuer sv)). pt_token_id t = k \<and>
      crypto_verify B (poc_token_payload t) (pt_issuer_signature t) (is_public_key_hex (sv_issuer sv)))"
proof -
  note inv = sv_run_inv [OF assms(3,1) sv_inv_new [OF assms(2)]]
  then have "map fst (sv_ledger sv) = map (\<lambda>(r, t). pt_token_id t) (sv_accepted_transfers sv)"
    "distinct (map fst (sv_ledger sv))"
    by (simp_all add: sv_inv_def sv_settlements_ok_def)
  moreover from inv have "\<forall>(k, t) \<in> set (is_issued_tokens (sv_issuer sv)). pt_token_id t = k \<and>
      crypto_verify B (poc_token_payload t) (pt_issuer_signature t) (is_public_key_hex (sv_issuer sv))"
    by (auto simp: sv_inv_def issuer_ok_def)
  moreover have "map_of (sv_ledger sv) (pt_token_id t) = Some (sr_ok r t)" if rt: "(r, t) \<in> set (sv_accepted_transfers sv)" for r t
  proof -
    have all2: "list_all2 (\<lambda>(k, rec) (r, t). rec = sr_ok r t) (sv_ledger sv) (sv_accepted_transfers sv)"
      and keys: "map fst (sv_ledger sv) = map (\<lambda>(r, t). pt_token_id t) (sv_accepted_transfers sv)"
      and wf: "dict_wf (sv_ledger sv)"
      using inv by (simp_all add: sv_inv_def sv_settlements_ok_def)
    from rt obtain i where i: "i < length (sv_accepted_transfers sv)" "sv_accepted_transfers sv ! i = (r, t)"
      by (auto simp: in_set_conv_nth)
    with list_all2_nthD2 [OF all2 i(1)] have "snd (sv_ledger sv ! i) = sr_ok r t" by (auto split: prod.splits)
    moreover have "fst (sv_ledger sv ! i) = pt_token_id t"
      using arg_cong [OF keys, of "\<lambda>l. l ! i"] i list_all2_lengthD [OF all2] by simp
    ultimately have "(pt_token_id t, sr_ok r t) \<in> set (sv_ledger sv)"
      using i(1) list_all2_lengthD [OF all2] by (metis nth_mem prod.collapse)
    with wf show ?thesis by simp
  qed
  with inv have "\<forall>(r, t) \<in> set (sv_accepted_transfers sv).
      crypto_verify B (poc_transfer_payload r) (pf_signature r) (pf_sender_pk r) \<and>
      origin_of t \<in> dict_keys (is_issued_tokens (sv_issuer sv)) \<and>
      pf_hop_count r \<le> pc_max_hops (sv_policy sv) \<and>
      map_of (sv_ledger sv) (pt_token_id t) = Some (sr_ok r t)"
    by (fastforce simp: sv_inv_def sv_settlements_ok_def sv_verify_transfer_def)
  ultimately show ?thesis by blast
qed

text \<open>The witness mints a token for key 2 and settles its transfer to key 3.\<close>

lemma new_recon_server_issuer: "sv_issuer (new_recon_server iss policy) = iss"
  by (simp add: new_recon_server_def Let_def)

lemma demo_server_minted:
  "mint_token toy_backend (demo_poc_stamps 0) (demo_hex 2) 10 (new_issuer (demo_hex 1) (demo_hex 1)) =
     (Inr demo_root, sv_issuer demo_server)"
  "(new_recon_server (new_issuer (demo_hex 1) (demo_hex 1)) None)\<lparr>sv_issuer := sv_issuer demo_server\<rparr> =
     demo_server"
  by (simp_all add: mint_token_def new_issuer_def demo_root_def poc_new_unsigned_def demo_server_def
      new_recon_server_def crypto_sign_def demo_sign_def demo_hex_def demo_poc_stamps_def Let_def)

definition demo_transfer :: "8 word \<Rightarrow> poc_transfer" where
  "demo_transfer k = fst (snd (demo_claim k))"

lemma demo_transfer_settles:
  "settle_transfer toy_backend at 0 (demo_transfer 3) demo_root demo_server =
     (Inr (sr_ok (demo_transfer 3) demo_root), sv_settled at (demo_transfer 3) demo_root demo_server)"
  "sv_inv toy_backend (sv_settled at (demo_transfer 3) demo_root demo_server)"
proof -
  have ok: "sv_transfer_ok toy_backend 0 (demo_transfer 3) demo_root demo_server"
    using demo_claim_valid(1) [of 3] by (simp add: claim_valid_def demo_transfer_def demo_claim_def Let_def)
  then show "settle_transfer toy_backend at 0 (demo_transfer 3) demo_root demo_server =
      (Inr (sr_ok (demo_transfer 3) demo_root), sv_settled at (demo_transfer 3) demo_root demo_server)"
    by (cases rule: settle_transfer_cases [OF sv_inv_chains [OF demo_server_inv],
          of toy_backend at 0 "demo_transfer 3" demo_root]) auto
  show "sv_inv toy_backend (sv_settled at (demo_transfer 3) demo_root demo_server)"
    by (rule sv_inv_settled [OF demo_server_inv _ ok]) simp
qed

lemma demo_transfer_sel [simp]:
  "pf_token_id (demo_transfer k) = ''u''" "pf_sender_pk (demo_transfer k) = demo_hex 2"
  "pf_receiver_pk (demo_transfer k) = demo_hex k"
  by (simp_all add: demo_transfer_def demo_claim_def poc_transfer_unsigned_def Let_def)

lemma reachable_server_sound_witness:
  "\<exists>sv. (sv_step toy_backend)\<^sup>*\<^sup>* (new_recon_server (new_issuer (demo_hex 1) (demo_hex 1)) None) sv \<and>
     sv_accepted_transfers sv = [(demo_transfer 3, demo_root)] \<and>
     map_of (sv_ledger sv) ''u'' = Some (sr_ok (demo_transfer 3) demo_root) \<and>
     crypto_verify toy_backend (poc_token_payload demo_root) (pt_issuer_signature demo_root) (demo_hex 1)"
proof -
  let ?fresh = "new_recon_server (new_issuer (demo_hex 1) (demo_hex 1)) None"
  let ?sv = "sv_settled 0 (demo_transfer 3) demo_root demo_server"
  have "mint_token toy_backend (demo_poc_stamps 0) (demo_hex 2) 10 (sv_issuer ?fresh) = (Inr demo_root, sv_issuer demo_server)"
    by (simp only: new_recon_server_issuer demo_server_minted(1))
  then have "sv_step toy_backend ?fresh (?fresh\<lparr>sv_issuer := sv_issuer demo_server\<rparr>)" by (rule sv_step.Mint)
  then have mint: "sv_step toy_backend ?fresh demo_server" by (simp only: demo_server_minted(2))
  have "process_bundle toy_backend (\<lambda>_. (0, 0)) (bundle_create ''b'' [demo_transfer 3] [(''u'', demo_root)]) demo_server =
      (Inr [sr_ok (demo_transfer 3) demo_root], ?sv)"
    by (simp add: process_bundle_def bundle_create_def demo_transfer_settles(1))
  then have "sv_step toy_backend demo_server ?sv" by (rule sv_step.Process)
  with mint have run: "(sv_step toy_backend)\<^sup>*\<^sup>* ?fresh ?sv" by (meson r_into_rtranclp rtranclp.rtrancl_into_rtrancl)
  from reachable_server_sound [OF toy_backend_ok demo_hex_keypair run] run show ?thesis
    by (intro exI [of _ ?sv]) simp
qed

text \<open>\<open>claimed_by\<close> with the cut-off written out as two bounds on the time of settlement.\<close>

lemma claimed_by_iff:
  "claimed_by now pk tid sv \<longleftrightarrow>
     (\<exists>(r, t) \<in> set (sv_accepted_transfers sv). origin_of t = tid \<and> pf_receiver_pk r \<noteq> pk \<and>
        (\<exists>at. at = (case map_of (sv_accepted_transfer_times sv) (pf_transfer_id r) of None \<Rightarrow> now | Some a \<Rightarrow> a) \<and>
           at \<le> now \<and>
           (\<forall>revoked_at. map_of (re_revoked_wallets (sv_recovery_engine sv)) pk = Some revoked_at \<longrightarrow>
              at \<le> revoked_at + pc_token_expiry_seconds (sv_policy sv) * 1000000)))"
proof -
  have "a \<le> claim_cutoff now pk sv \<longleftrightarrow> a \<le> now \<and>
      (\<forall>revoked_at. map_of (re_revoked_wallets (sv_recovery_engine sv)) pk = Some revoked_at \<longrightarrow>
         a \<le> revoked_at + pc_token_expiry_seconds (sv_policy sv) * 1000000)" for a
    by (simp add: claim_cutoff_def split: option.splits)
  then show ?thesis by (simp add: claimed_by_def)
qed

text \<open>
  C24: What recovery counts. A token issued to a wallet counts as claimed when an accepted transfer
  of a token descending from it names another receiver and was settled (now, when no time is
  recorded) neither after now nor, if the wallet is revoked, after the end of the expiry window
  that starts with the revocation; otherwise it is safe. The report lists each safe identifier once,
  the safe balance is the value of the tokens filed under them, the issued total the value of all
  tokens issued to the wallet, and issued, claimed and safe totals add up.
\<close>
theorem recovery_report_spec:
  assumes "sv_inv B sv"
  shows "let rep = reconstruct_recovery clock pk at_time sv;
       now = (case at_time of None \<Rightarrow> clock | Some a \<Rightarrow> a); issued = is_issued_tokens (sv_issuer sv);
       claimed = (\<lambda>tid. \<exists>(r, t) \<in> set (sv_accepted_transfers sv).
         origin_of t = tid \<and> pf_receiver_pk r \<noteq> pk \<and>
         (\<exists>at. at = (case map_of (sv_accepted_transfer_times sv) (pf_transfer_id r) of None \<Rightarrow> now | Some a \<Rightarrow> a) \<and>
            at \<le> now \<and>
            (\<forall>revoked_at. map_of (re_revoked_wallets (sv_recovery_engine sv)) pk = Some revoked_at \<longrightarrow>
               at \<le> revoked_at + pc_token_expiry_seconds (sv_policy sv) * 1000000)))
     in rp_issued_total rep = rp_claimed_total rep + rp_safe_balance rep \<and>
        rp_issued_total rep =
          sum_list (map pt_value (filter (\<lambda>t. pt_current_owner t = pk) (map snd issued))) \<and>
        rp_safe_balance rep =
          sum_list (map (\<lambda>tid. pt_value (the (map_of issued tid))) (rp_safe_token_ids rep)) \<and>
        distinct (rp_safe_token_ids rep) \<and>
        set (rp_safe_token_ids rep) =
          {tid. (\<exists>t. map_of issued tid = Some t \<and> pt_current_owner t = pk) \<and> \<not> claimed tid}"
proof -
  have iss: "issuer_ok B (sv_issuer sv)" using assms by (simp add: sv_inv_def)
  define now where "now = (case at_time of None \<Rightarrow> clock | Some a \<Rightarrow> a)"
  let ?safe = "safe_tokens_for now pk sv" and ?issued = "is_issued_tokens (sv_issuer sv)"
  note facts = issued_for_facts [OF iss, where pk = pk]
  have "sum_list (map (\<lambda>t. pt_value (the (map_of ?issued (pt_token_id t)))) ?safe) =
      sum_list (map pt_value ?safe)"
    using facts(2) by (intro arg_cong [where f = sum_list] map_cong refl) (auto simp: safe_tokens_for_def)
  moreover have "distinct (map pt_token_id ?safe)"
    using facts(1) by (simp add: safe_tokens_for_def distinct_map_filter)
  moreover have "pt_token_id ` set ?safe =
      {tid. (\<exists>t. map_of ?issued tid = Some t \<and> pt_current_owner t = pk) \<and> \<not> claimed_by now pk tid sv}"
    (is "?L = ?R")
  proof
    show "?L \<subseteq> ?R" using facts(2) by (auto simp: safe_tokens_for_def)
    show "?R \<subseteq> ?L"
    proof
      fix tid assume "tid \<in> ?R"
      then obtain t where t: "map_of ?issued tid = Some t" "pt_current_owner t = pk"
        "\<not> claimed_by now pk tid sv" by blast
      from t(1) iss have "pt_token_id t = tid" by (auto simp: issuer_ok_def dest!: map_of_SomeD)
      with t facts(2) have "t \<in> set ?safe" by (simp add: safe_tokens_for_def)
      with \<open>pt_token_id t = tid\<close> show "tid \<in> ?L" by blast
    qed
  qed
  ultimately show ?thesis
    unfolding reconstruct_recovery_eq now_def [symmetric] Let_def claimed_by_iff [symmetric]
    by (simp add: comp_def issued_for_def)
qed

text \<open>
  The witness revokes key 2 at the epoch and settles its transfer at the last microsecond of the
  expiry window, or one microsecond later.
\<close>

lemma recovery_report_spec_witness:
  "let rep = (\<lambda>settled_at. reconstruct_recovery 604800000005 (demo_hex 2) None
      (revoke_wallet 0 (demo_hex 2) (sv_settled settled_at (demo_transfer 3) demo_root demo_server)))
   in rp_safe_token_ids (rep 604800000000) = [] \<and> rp_claimed_total (rep 604800000000) = 10 \<and>
      set (rp_safe_token_ids (rep 604800000001)) = {''u''} \<and> rp_issued_total (rep 604800000001) = 10"
proof -
  let ?sv = "\<lambda>settled_at. revoke_wallet 0 (demo_hex 2) (sv_settled settled_at (demo_transfer 3) demo_root demo_server)"
  have inv: "sv_inv toy_backend (?sv at)" for at
    by (rule sv_step_inv [OF sv_step.Revoke toy_backend_ok demo_transfer_settles(2)])
  have sel: "sv_accepted_transfers (?sv at) = [(demo_transfer 3, demo_root)]" "sv_policy (?sv at) = default_policy"
    "map_of (sv_accepted_transfer_times (?sv at)) (pf_transfer_id (demo_transfer 3)) = Some at"
    "map_of (re_revoked_wallets (sv_recovery_engine (?sv at))) (demo_hex 2) = Some 0"
    "is_issued_tokens (sv_issuer (?sv at)) = [(''u'', demo_root)]" for at
    by (simp_all add: revoke_wallet_def re_revoke_wallet_def sv_settled_def dict_get_update)
  note spec = recovery_report_spec [OF inv, where clock = 604800000005 and pk = "demo_hex 2" and at_time = None, unfolded Let_def]
  let ?rep = "\<lambda>at. reconstruct_recovery 604800000005 (demo_hex 2) None (?sv at)"
  have "origin_of demo_root = ''u''" "demo_hex 3 \<noteq> demo_hex 2" by (simp_all add: origin_of_def demo_hex_def)
  then have ids: "set (rp_safe_token_ids (?rep at)) = (if at \<le> 604800000000 then {} else {''u''})" for at
    using spec [of at] by (auto simp: sel split: if_splits)
  have total: "rp_issued_total (?rep at) = 10"
    "rp_issued_total (?rep at) = rp_claimed_total (?rep at) + rp_safe_balance (?rep at)"
    "rp_safe_token_ids (?rep at) = [] \<Longrightarrow> rp_safe_balance (?rep at) = 0" for at
    using spec [of at] by (simp_all add: sel(5))
  have "rp_safe_token_ids (?rep 604800000000) = []" using ids [of 604800000000] by simp
  with total [of 604800000000] have "rp_claimed_total (?rep 604800000000) = 10" by simp
  with \<open>rp_safe_token_ids (?rep 604800000000) = []\<close> ids [of 604800000001] total(1) show ?thesis
    unfolding Let_def by simp
qed

text \<open>
  C25: Re-issuing the balance of a revoked wallet, with one clock reading and new, different
  identifiers for what is minted: unless the wallet is revoked and more than the expiry window has
  passed since, the call raises and changes nothing; when it returns the wait is over. A repeated call for the same pair of keys returns no token and changes nothing. Otherwise it
  mints for the new key one token for each safe token of the recovery report, of the same value,
  worth the safe balance together; all of them verify as issued. It appends them to the registry
  and records the pair of keys; the revocations, the ledger and everything else stay as they were.
\<close>
theorem reissue_spec:
  assumes "backend_ok B" and "sv_inv B sv" and "inj (\<lambda>i. ps_uuid (st i))"
    and "\<And>i. ps_uuid (st i) \<notin> dict_keys (is_issued_tokens (sv_issuer sv))"
  shows "case reissue_recovered_balance B st now now revoked_pk new_pk None sv of
      (Inl e, sv') \<Rightarrow> e = ValueError ''RECOVERY_WAIT_NOT_ELAPSED'' \<and> sv' = sv \<and>
        (\<forall>at. map_of (re_revoked_wallets (sv_recovery_engine sv)) revoked_pk = Some at \<longrightarrow>
           now - at \<le> pc_token_expiry_seconds (sv_policy sv) * 1000000)
    | (Inr ts, sv') \<Rightarrow>
        (\<exists>at. map_of (re_revoked_wallets (sv_recovery_engine sv)) revoked_pk = Some at \<and>
           pc_token_expiry_seconds (sv_policy sv) * 1000000 < now - at) \<and>
        (if (revoked_pk, new_pk) \<in> re_recovery_reissued (sv_recovery_engine sv) then ts = [] \<and> sv' = sv
         else sum_list (map pt_value ts) = reconstruct_safe_balance now revoked_pk sv \<and>
           map pt_value ts = map (\<lambda>tid. pt_value (the (map_of (is_issued_tokens (sv_issuer sv)) tid)))
             (rp_safe_token_ids (reconstruct_recovery now revoked_pk None sv)) \<and>
           (\<forall>t \<in> set ts. pt_current_owner t = new_pk \<and> verify_issuer_root B t sv') \<and>
           sv' = sv\<lparr>sv_issuer := (sv_issuer sv)\<lparr>is_issued_tokens :=
                is_issued_tokens (sv_issuer sv) @ map (\<lambda>t. (pt_token_id t, t)) ts\<rparr>,
             sv_recovery_engine := (sv_recovery_engine sv)\<lparr>re_recovery_reissued :=
                insert (revoked_pk, new_pk) (re_recovery_reissued (sv_recovery_engine sv))\<rparr>\<rparr> \<and>
           re_revoked_wallets (sv_recovery_engine sv') = re_revoked_wallets (sv_recovery_engine sv) \<and>
           sv_ledger sv' = sv_ledger sv \<and>
           reissue_recovered_balance B st now now revoked_pk new_pk None sv' = (Inr [], sv'))"
proof -
  have iss: "issuer_ok B (sv_issuer sv)" and pol: "re_policy (sv_recovery_engine sv) = sv_policy sv"
    using assms(2) by (simp_all add: sv_inv_def)
  let ?safe = "safe_tokens_for now revoked_pk sv"
  obtain ts where ts: "mint_all B st 0 new_pk ?safe [] (sv_issuer sv) =
      (Inr ts, (sv_issuer sv)\<lparr>is_issued_tokens := is_issued_tokens (sv_issuer sv) @ map (\<lambda>t. (pt_token_id t, t)) ts\<rparr>)"
    "map pt_value ts = map pt_value ?safe" "\<forall>t \<in> set ts. pt_current_owner t = new_pk"
    using mint_all_returns [OF assms(1) iss assms(3,4), where i = 0 and owner_pk = new_pk and ts = ?safe and reissued = "[]"]
    by auto
  from mint_all_keeps [OF assms(1) iss ts(1)] have iss': "issuer_ok B ((sv_issuer sv)\<lparr>is_issued_tokens :=
      is_issued_tokens (sv_issuer sv) @ map (\<lambda>t. (pt_token_id t, t)) ts\<rparr>)" by blast
  then have origin: "origin_of t = pt_token_id t" if "t \<in> set ts" for t
  proof -
    have "(pt_token_id t, t) \<in> set (is_issued_tokens ((sv_issuer sv)\<lparr>is_issued_tokens :=
      is_issued_tokens (sv_issuer sv) @ map (\<lambda>t. (pt_token_id t, t)) ts\<rparr>))" using that by simp
    with iss' have "pt_origin_token_id t = Some (pt_token_id t)" unfolding issuer_ok_def by blast
    then show ?thesis by (simp add: origin_of_def)
  qed
  note run = reissue_cases [OF iss, of st now now revoked_pk new_pk None, unfolded option.case ts(1) prod.case sum.case]
  show ?thesis
  proof (cases "recovery_wait_elapsed now revoked_pk None sv")
    case False
    then show ?thesis using run pol
      by (auto simp: recovery_wait_elapsed_def wait_elapsed_def)
  next
    case elapsed: True
    then have wait: "\<exists>at. map_of (re_revoked_wallets (sv_recovery_engine sv)) revoked_pk = Some at \<and>
        pc_token_expiry_seconds (sv_policy sv) * 1000000 < now - at"
      using pol by (auto simp: recovery_wait_elapsed_def wait_elapsed_def split: option.splits)
    show ?thesis
    proof (cases "(revoked_pk, new_pk) \<in> re_recovery_reissued (sv_recovery_engine sv)")
      case False
      have "wait_elapsed now revoked_pk None (sv_recovery_engine sv
          \<lparr>re_recovery_reissued := insert (revoked_pk, new_pk) (re_recovery_reissued (sv_recovery_engine sv))\<rparr>)"
        using elapsed by (simp add: recovery_wait_elapsed_def wait_elapsed_def split: option.splits)
      moreover have "sum_list (map pt_value ts) = reconstruct_safe_balance now revoked_pk sv"
        unfolding ts(2) reconstruct_safe_balance_def reconstruct_recovery_eq by (simp add: Let_def)
      moreover have "map pt_value ts = map (\<lambda>tid. pt_value (the (map_of (is_issued_tokens (sv_issuer sv)) tid)))
          (rp_safe_token_ids (reconstruct_recovery now revoked_pk None sv))"
        using issued_for_facts(2) [OF iss] unfolding ts(2) reconstruct_recovery_eq Let_def
        by (auto simp: safe_tokens_for_def)
      ultimately show ?thesis
        using run elapsed False ts(3) origin wait
        by (auto intro!: reissue_again simp: recovery_wait_elapsed_def verify_issuer_root_iff iss' image_Un image_image)
    qed (use run elapsed wait in simp)
  qed
qed

lemma reissue_spec_witness:
  "\<exists>ts sv'. reissue_recovered_balance toy_backend (\<lambda>i. demo_poc_stamps (i + 1)) 604801000000 604801000000
      (demo_hex 2) (demo_hex 3) None (revoke_wallet 0 (demo_hex 2) demo_server) = (Inr ts, sv') \<and>
    sum_list (map pt_value ts) = 10"
proof -
  let ?sv = "revoke_wallet 0 (demo_hex 2) demo_server" and ?st = "\<lambda>i. demo_poc_stamps (i + 1)"
  have inv: "sv_inv toy_backend ?sv"
    by (rule sv_step_inv [OF sv_step.Revoke toy_backend_ok demo_server_inv])
  have "inj (\<lambda>i. ps_uuid (?st i))"
    by (rule injI) (auto simp: demo_poc_stamps_def dest: replicate_eq_replicate [THEN iffD1])
  moreover have "ps_uuid (?st i) \<notin> dict_keys (is_issued_tokens (sv_issuer ?sv))" for i
    by (simp add: revoke_wallet_def demo_poc_stamps_def)
  ultimately have spec: "case reissue_recovered_balance toy_backend ?st 604801000000 604801000000
      (demo_hex 2) (demo_hex 3) None ?sv of
      (Inl e, sv') \<Rightarrow> False
    | (Inr ts, sv') \<Rightarrow> sum_list (map pt_value ts) = 10"
    using reissue_spec [OF toy_backend_ok inv, where st = ?st and now = 604801000000
      and revoked_pk = "demo_hex 2" and new_pk = "demo_hex 3"]
    by (auto simp: revoke_wallet_def re_revoke_wallet_def reconstruct_safe_balance_def
        reconstruct_recovery_eq safe_tokens_for_def claimed_by_def issued_for_def Let_def
        split: prod.splits sum.splits)
  then show ?thesis by (auto split: prod.splits sum.splits)
qed

section \<open>Gaps\<close>

text \<open>
  A claim names the issued token it descends from itself, under a token identifier of its choice,
  and nothing ties the sender of the transfer to the owner of the issued token. Any key pair can
  settle one issued token as often as it likes, each time under another identifier.
\<close>

lemma issued_token_settles_repeatedly:
  assumes "backend_ok B" and "hex_keypair B any_sk any_pk" and "sv_inv B sv"
    and "map_of (is_issued_tokens (sv_issuer sv)) k = Some root" and "k \<noteq> []"
    and "tid \<notin> dict_keys (sv_ledger sv)" and "1 \<le> pc_max_hops (sv_policy sv)"
    and "map_of (re_revoked_wallets (sv_recovery_engine sv)) any_pk = None"
    and "epoch_seconds now - issued_at \<le> pc_token_expiry_seconds (sv_policy sv)"
  shows "\<exists>r t. origin_of t = k \<and> pt_token_id t = tid \<and> pf_sender_pk r = any_pk \<and>
    settle_transfer B settled_at now r t sv = (Inr (sr_ok r t), sv_settled settled_at r t sv)"
proof -
  let ?t = "root\<lparr>pt_token_id := tid, pt_origin_token_id := Some k, pt_last_transfer_id := None,
      pt_last_transfer_hash := None, pt_issue_timestamp := issued_at\<rparr>"
  let ?r = "poc_transfer_unsigned st tid any_pk any_pk 1 None None None 1"
  obtain s where "crypto_sign B (poc_transfer_payload ?r) any_sk = Inr s"
    "crypto_verify B (poc_transfer_payload ?r) s any_pk"
    using hexsig.sign_verifies [OF assms(1,2), of "poc_transfer_payload ?r"] by blast
  then have ver: "sv_verify_transfer B (?r\<lparr>pf_signature := s\<rparr>)" by (simp add: sv_verify_transfer_def)
  have iss: "issuer_ok B (sv_issuer sv)" using assms(3) by (simp add: sv_inv_def)
  have "k \<in> dict_keys (is_issued_tokens (sv_issuer sv))"
    using assms(4) by (force dest: map_of_SomeD)
  then have "verify_issuer_root B ?t sv"
    using assms(5) by (simp add: verify_issuer_root_iff [OF iss] origin_of_def del: set_map)
  with ver assms(7-9) have "sv_transfer_ok B now (?r\<lparr>pf_signature := s\<rparr>) ?t sv"
    by (simp add: sv_transfer_ok_def sent_after_revocation_def)
  then have "settle_transfer B settled_at now (?r\<lparr>pf_signature := s\<rparr>) ?t sv =
      (Inr (sr_ok (?r\<lparr>pf_signature := s\<rparr>) ?t), sv_settled settled_at (?r\<lparr>pf_signature := s\<rparr>) ?t sv)"
    using assms(6) by (cases rule: settle_transfer_cases [OF sv_inv_chains [OF assms(3)],
        of B settled_at now "?r\<lparr>pf_signature := s\<rparr>" ?t]) auto
  moreover have "origin_of ?t = k" using assms(5) by (simp add: origin_of_def)
  ultimately show ?thesis
    by (intro exI [of _ "?r\<lparr>pf_signature := s\<rparr>"] exI [of _ ?t]) simp
qed

text \<open>
  The record of a re-issue is keyed by the pair of the revoked and the new key, and the revoked
  wallet's tokens stay in the registry: a second new key is given the whole safe balance again.
\<close>

lemma reissue_keeps_safe_balance:
  assumes "backend_ok B" and "sv_inv B sv" and "inj (\<lambda>i. ps_uuid (st i))"
    and "\<And>i. ps_uuid (st i) \<notin> dict_keys (is_issued_tokens (sv_issuer sv))" and "new_pk \<noteq> revoked_pk"
    and "reissue_recovered_balance B st now now revoked_pk new_pk None sv = (Inr ts, sv')"
  shows "reconstruct_safe_balance now revoked_pk sv' = reconstruct_safe_balance now revoked_pk sv \<and>
    re_recovery_reissued (sv_recovery_engine sv') \<subseteq>
      insert (revoked_pk, new_pk) (re_recovery_reissued (sv_recovery_engine sv)) \<and>
    recovery_wait_elapsed now revoked_pk None sv'"
proof -
  have iss: "issuer_ok B (sv_issuer sv)" using assms(2) by (simp add: sv_inv_def)
  let ?safe = "safe_tokens_for now revoked_pk sv"
  obtain us where us: "mint_all B st 0 new_pk ?safe [] (sv_issuer sv) =
      (Inr us, (sv_issuer sv)\<lparr>is_issued_tokens := is_issued_tokens (sv_issuer sv) @ map (\<lambda>t. (pt_token_id t, t)) us\<rparr>)"
    "\<forall>t \<in> set us. pt_current_owner t = new_pk"
    using mint_all_returns [OF assms(1) iss assms(3,4), where i = 0 and owner_pk = new_pk and ts = ?safe and reissued = "[]"]
    by auto
  note run = reissue_cases [OF iss, of st now now revoked_pk new_pk None, unfolded option.case us(1) prod.case sum.case]
  have elapsed: "recovery_wait_elapsed now revoked_pk None sv"
    using assms(6) run by (auto split: if_splits)
  show ?thesis
  proof (cases "(revoked_pk, new_pk) \<in> re_recovery_reissued (sv_recovery_engine sv)")
    case True
    with assms(6) run elapsed show ?thesis by auto
  next
    case False
    with assms(6) run elapsed have sv': "sv' = sv\<lparr>sv_issuer := (sv_issuer sv)\<lparr>is_issued_tokens :=
          is_issued_tokens (sv_issuer sv) @ map (\<lambda>t. (pt_token_id t, t)) us\<rparr>,
        sv_recovery_engine := sv_recovery_engine sv\<lparr>re_recovery_reissued :=
          insert (revoked_pk, new_pk) (re_recovery_reissued (sv_recovery_engine sv))\<rparr>\<rparr>"
      by auto
    have "filter (\<lambda>t. pt_current_owner t = revoked_pk) us = []"
      using us(2) assms(5) by (auto simp: filter_empty_conv)
    then have "safe_tokens_for now revoked_pk sv' = ?safe"
      by (simp add: sv' safe_tokens_for_def issued_for_def claimed_by_def claim_cutoff_def comp_def
          split_beta cong: option.case_cong)
    then show ?thesis using elapsed
      by (simp add: reconstruct_safe_balance_def reconstruct_recovery_eq Let_def)
        (simp add: sv' recovery_wait_elapsed_def wait_elapsed_def split: option.splits)
  qed
qed

end
