(* ===== verification/ProxySync.thy ===== *)
theory ProxySync
  imports ReconServer
begin

text \<open>
  The relay half of \<open>protocol/proxy_sync.py\<close> and \<open>simulate_proxy_sync\<close> of
  \<open>protocol/network_simulator.py\<close>: a peer that is online verifies a heartbeat and hands it to the
  reconciliation server. The server is the one of \<open>ReconServer\<close>, which has both attributes that
  \<open>getattr\<close> looks for. The lemmas say which tokens a heartbeat refreshes and for how long.
\<close>

section \<open>Relaying\<close>

record relay_result =
  rl_status :: string
  rl_refreshed_tokens :: "string list"

text \<open>\<open>now1\<close> and \<open>now2\<close> are the readings of \<open>now_fn\<close> here and in \<open>apply_sync_heartbeat\<close>.\<close>

definition relay_heartbeat ::
  "backend \<Rightarrow> int \<Rightarrow> int \<Rightarrow> sync_heartbeat \<Rightarrow> recon_server \<Rightarrow> relay_result \<times> recon_server" where
  "relay_heartbeat B now1 now2 hb sv =
     (if \<not> verify_heartbeat B hb
      then (\<lparr>rl_status = ''invalid_signature'', rl_refreshed_tokens = []\<rparr>, sv)
      else if pc_token_expiry_seconds (sv_policy sv) * 1000000 < now1 - hb_timestamp hb
      then (\<lparr>rl_status = ''expired_heartbeat'', rl_refreshed_tokens = []\<rparr>, sv)
      else
        let (refreshed, sv') = apply_sync_heartbeat B now2 hb sv
        in (\<lparr>rl_status = ''ok'', rl_refreshed_tokens = refreshed\<rparr>, sv'))"

text \<open>\<open>ts\<close> is the time stamp of the heartbeat.\<close>

definition simulate_proxy_sync ::
  "backend \<Rightarrow> int \<Rightarrow> int \<Rightarrow> int \<Rightarrow> offline_wallet \<Rightarrow> recon_server \<Rightarrow> relay_result res \<times> recon_server" where
  "simulate_proxy_sync B ts now1 now2 w sv =
     (let token_ids = sort (map fst (ow_utr w))
      in case bind_res (of_option (ValueError ''fromhex'') (from_hex (ow_private_key_hex w))) (\<lambda>sk.
              bind_res (of_option (ValueError ''fromhex'') (from_hex (ow_public_key_hex w))) (\<lambda>pk.
                create_heartbeat B ts sk pk token_ids)) of
           Inl e \<Rightarrow> (Inl e, sv)
         | Inr hb \<Rightarrow> let (r, sv') = relay_heartbeat B now1 now2 hb sv in (Inr r, sv'))"

section \<open>What is refreshed\<close>

text \<open>The registry shows the token as owned by \<open>pk\<close>.\<close>

definition owned_by :: "string \<Rightarrow> recon_server \<Rightarrow> string \<Rightarrow> bool" where
  "owned_by pk sv tid \<longleftrightarrow>
     (case map_of (is_issued_tokens (sv_issuer sv)) tid of
        None \<Rightarrow> False | Some t \<Rightarrow> pt_current_owner t = pk)"

lemma refresh_loop_eq:
  "refresh_loop pk now tids refreshed sv =
     (refreshed @ filter (owned_by pk sv) tids,
      sv\<lparr>sv_last_sync := fold (\<lambda>tid. AList.update tid now) (filter (owned_by pk sv) tids) (sv_last_sync sv)\<rparr>)"
proof (induction tids arbitrary: refreshed sv)
  case (Cons tid tids)
  have own: "owned_by pk (sv\<lparr>sv_last_sync := sync\<rparr>) = owned_by pk sv" for sync
    by (rule ext) (simp add: owned_by_def)
  show ?case
    by (cases "map_of (is_issued_tokens (sv_issuer sv)) tid")
      (simp_all add: Cons.IH own owned_by_def [of pk sv tid])
qed simp

lemma fold_update_const:
  "map_of (fold (\<lambda>k. AList.update k v) ks d) k = (if k \<in> set ks then Some v else map_of d k)"
  by (induction ks arbitrary: d) (auto simp: dict_get_update)

text \<open>
  A heartbeat, whoever relays it: with a bad signature or older than the expiry window it
  changes nothing and refreshes nothing; otherwise, when the server agrees that it is in time, it
  sets the last synchronisation of exactly those named tokens to the present that the issuer's
  registry shows as owned by the wallet that signed.
\<close>
theorem relay_heartbeat_spec:
  "case relay_heartbeat B now1 now2 hb sv of (r, sv') \<Rightarrow>
     (if \<not> verify_heartbeat B hb then r = \<lparr>rl_status = ''invalid_signature'', rl_refreshed_tokens = []\<rparr> \<and> sv' = sv
      else if pc_token_expiry_seconds (sv_policy sv) * 1000000 < now1 - hb_timestamp hb
      then r = \<lparr>rl_status = ''expired_heartbeat'', rl_refreshed_tokens = []\<rparr> \<and> sv' = sv
      else rl_status r = ''ok'' \<and>
        rl_refreshed_tokens r =
          (if pc_token_expiry_seconds (sv_policy sv) * 1000000 < now2 - hb_timestamp hb then []
           else filter (owned_by (to_hex (hb_wallet_pk hb)) sv) (hb_token_ids hb)) \<and>
        sv' = sv\<lparr>sv_last_sync := sv_last_sync sv'\<rparr> \<and>
        (\<forall>tid. map_of (sv_last_sync sv') tid =
           (if tid \<in> set (rl_refreshed_tokens r) then Some now2 else map_of (sv_last_sync sv) tid)))"
  by (simp add: relay_heartbeat_def apply_sync_heartbeat_def refresh_loop_eq fold_update_const)

text \<open>
  C26: The owner of a wallet keeps its tokens alive: a heartbeat of the wallet that reaches the
  server within the expiry window is accepted, every token of its UTR that the registry shows as
  its own is refreshed, and none of these is expired at any time up to the expiry window after the
  synchronisation.
\<close>
theorem honest_sync_keeps_tokens:
  assumes "backend_ok B" and "hex_keypair B (ow_private_key_hex w) (ow_public_key_hex w)"
    and "now1 - ts \<le> pc_token_expiry_seconds (sv_policy sv) * 1000000"
    and "now2 - ts \<le> pc_token_expiry_seconds (sv_policy sv) * 1000000"
    and "0 \<le> now2" and "now2 \<le> later" and "later - now2 \<le> pc_token_expiry_seconds (sv_policy sv) * 1000000"
  shows "\<exists>r sv'. simulate_proxy_sync B ts now1 now2 w sv = (Inr r, sv') \<and> rl_status r = ''ok'' \<and>
    set (rl_refreshed_tokens r) = {tid \<in> dict_keys (ow_utr w). owned_by (ow_public_key_hex w) sv tid} \<and>
    (\<forall>tid \<in> set (rl_refreshed_tokens r). \<not> is_token_expired later tid None sv')"
proof -
  obtain sk pk where keys: "ow_private_key_hex w = to_hex sk" "ow_public_key_hex w = to_hex pk"
    using assms(1,2) that [OF sym sym]
    by (auto simp: hex_keypair_def generate_keypair_def backend_ok_def split: option.splits)
  let ?ids = "sort (map fst (ow_utr w))" and ?own = "owned_by (ow_public_key_hex w) sv"
  obtain hb where hb: "create_heartbeat B ts sk pk ?ids = Inr hb" "verify_heartbeat B hb"
    "hb_wallet_pk hb = pk" "hb_token_ids hb = ?ids" "hb_timestamp hb = ts"
    using create_heartbeat_verifies [OF assms(1), of sk pk ts ?ids] assms(2) keys by auto
  let ?sv' = "sv\<lparr>sv_last_sync := fold (\<lambda>tid. AList.update tid now2) (filter ?own ?ids) (sv_last_sync sv)\<rparr>"
  have run: "simulate_proxy_sync B ts now1 now2 w sv =
      (Inr \<lparr>rl_status = ''ok'', rl_refreshed_tokens = filter ?own ?ids\<rparr>, ?sv')"
    using hb assms(3,4) keys
    by (simp add: simulate_proxy_sync_def relay_heartbeat_def apply_sync_heartbeat_def refresh_loop_eq Let_def)
  have "epoch_seconds later - epoch_seconds now2 \<le> pc_token_expiry_seconds (sv_policy sv)"
  proof -
    have "later div 1000000 \<le> (now2 + pc_token_expiry_seconds (sv_policy sv) * 1000000) div 1000000"
      using assms(7) by (intro zdiv_mono1) simp_all
    then show ?thesis using assms(5,6) by (simp add: epoch_seconds_def)
  qed
  then have "\<not> is_token_expired later tid None ?sv'" if "tid \<in> set (filter ?own ?ids)" for tid
    using that by (auto simp: is_token_expired_def fold_update_const owned_by_def split: option.splits)
  with run show ?thesis
    by (intro exI [of _ "\<lparr>rl_status = ''ok'', rl_refreshed_tokens = filter ?own ?ids\<rparr>"] exI [of _ ?sv'])
      auto
qed

lemma honest_sync_keeps_tokens_witness:
  "\<exists>r sv'. simulate_proxy_sync toy_backend 0 0 5 (demo_ow 2 [(''u'', 10)]) demo_server = (Inr r, sv') \<and>
    set (rl_refreshed_tokens r) = {''u''} \<and> \<not> is_token_expired 604800000005 ''u'' None sv'"
proof -
  let ?w = "demo_ow 2 [(''u'', 10)]"
  have keys: "hex_keypair toy_backend (ow_private_key_hex ?w) (ow_public_key_hex ?w)" by simp
  have "{tid \<in> dict_keys (ow_utr ?w). owned_by (ow_public_key_hex ?w) demo_server tid} = {''u''}"
    by (auto simp: owned_by_def)
  then show ?thesis
    using honest_sync_keeps_tokens [OF toy_backend_ok keys, of 0 0 demo_server 5 604800000005]
    by simp (metis singletonI)
qed

end
