(* ===== verification/NetworkSim.thy ===== *)
theory NetworkSim
  imports ProxySync
begin

text \<open>
  \<open>crypto/session.py\<close> and the bundle transport of \<open>protocol/network_simulator.py\<close>. X25519 and
  ChaCha20-Poly1305 belong to the \<open>cryptography\<close> package and are parameters: a record of the
  functions the code calls, with what it relies on as the predicate \<open>session_ok\<close>. The JSON form of
  a bundle and the derivation of the session key are concrete. The lemmas show that a bundle
  survives serialisation and that the encrypted transport changes nothing for the receiver.
\<close>

section \<open>The session\<close>

text \<open>
  \<open>sx_public\<close>: raw public key of a 32-byte private key; \<open>sx_exchange\<close>, \<open>sx_encrypt\<close> and
  \<open>sx_decrypt\<close> are \<open>None\<close> where the library raises (a public key or key of the wrong length or
  of low order, an authentication tag that does not match).
\<close>

record session_crypto =
  sx_public :: "bytes \<Rightarrow> bytes"
  sx_exchange :: "bytes \<Rightarrow> bytes \<Rightarrow> bytes option"
  sx_encrypt :: "bytes \<Rightarrow> bytes \<Rightarrow> bytes \<Rightarrow> bytes option"
  sx_decrypt :: "bytes \<Rightarrow> bytes \<Rightarrow> bytes \<Rightarrow> bytes option"

definition session_ok :: "session_crypto \<Rightarrow> bool" where
  "session_ok X \<longleftrightarrow>
     (\<forall>a b. length a = 32 \<and> length b = 32 \<longrightarrow>
        (\<exists>s. sx_exchange X a (sx_public X b) = Some s \<and> sx_exchange X b (sx_public X a) = Some s)) \<and>
     (\<forall>key nonce m. length key = 32 \<and> length nonce = 12 \<longrightarrow>
        (\<exists>c. sx_encrypt X key nonce m = Some c \<and> sx_decrypt X key nonce c = Some m))"

definition toy_session :: session_crypto where
  "toy_session =
     \<lparr>sx_public = (\<lambda>a. a), sx_exchange = (\<lambda>a b. Some (map2 (+) a b)),
      sx_encrypt = (\<lambda>key nonce m. Some (key @ nonce @ m)),
      sx_decrypt = (\<lambda>key nonce c.
        if take (length key + length nonce) c = key @ nonce
        then Some (drop (length key + length nonce) c) else None)\<rparr>"

lemma toy_session_ok [simp]: "session_ok toy_session"
proof -
  have "map2 (+) a b = map2 (+) b a" for a b :: bytes
    by (induction a b rule: list_induct2') (simp_all add: add.commute)
  then show ?thesis by (simp add: session_ok_def toy_session_def)
qed

definition ed25519_sk_to_x25519_sk :: "bytes \<Rightarrow> bytes res" where
  "ed25519_sk_to_x25519_sk ed25519_private_bytes =
     (if length ed25519_private_bytes < 32
      then Inl (ValueError ''ed25519_private_bytes must contain at least 32 bytes'')
      else Inr (sha256 (utf8_encode ''DPC-ed25519-to-x25519-v1'' @ take 32 ed25519_private_bytes)))"

definition ecdh_shared_secret :: "session_crypto \<Rightarrow> bytes \<Rightarrow> bytes \<Rightarrow> bytes res" where
  "ecdh_shared_secret X our_sk peer_pk = of_option (ValueError ''x25519'') (sx_exchange X our_sk peer_pk)"

definition derive_session_key :: "bytes \<Rightarrow> bytes \<Rightarrow> bytes" where
  "derive_session_key shared_secret nonce_material =
     sha256 (utf8_encode ''DPC-session-v1'' @ shared_secret @ nonce_material)"

text \<open>\<open>nonce\<close> is \<open>os.urandom(12)\<close>.\<close>

definition encrypt_bundle :: "session_crypto \<Rightarrow> bytes \<Rightarrow> bytes \<Rightarrow> bytes \<Rightarrow> (bytes \<times> bytes) res" where
  "encrypt_bundle X nonce plaintext session_key =
     map_sum (\<lambda>e. e) (\<lambda>c. (nonce, c))
       (of_option (ValueError ''chacha20poly1305'') (sx_encrypt X session_key nonce plaintext))"

definition decrypt_bundle :: "session_crypto \<Rightarrow> bytes \<Rightarrow> bytes \<Rightarrow> bytes \<Rightarrow> bytes res" where
  "decrypt_bundle X nonce ciphertext session_key =
     of_option (ValueError ''InvalidTag'') (sx_decrypt X session_key nonce ciphertext)"

definition x25519_public_bytes :: "session_crypto \<Rightarrow> bytes \<Rightarrow> bytes" where
  "x25519_public_bytes X private_key = sx_public X private_key"

section \<open>Bundles as JSON\<close>

definition transfer_to_dict :: "poc_transfer \<Rightarrow> (string, json) dict" where
  "transfer_to_dict r =
     [(''transfer_id'', JStr (pf_transfer_id r)),
      (''token_id'', JStr (pf_token_id r)),
      (''sender_pk'', JStr (pf_sender_pk r)),
      (''receiver_pk'', JStr (pf_receiver_pk r)),
      (''nonce'', JInt (pf_nonce r)),
      (''parent_transfer_id'', opt_str_json (pf_parent_transfer_id r)),
      (''parent_transfer_hash'', opt_str_json (pf_parent_transfer_hash r)),
      (''prev_transfer_hash'', opt_str_json (pf_prev_transfer_hash r)),
      (''hop_count'', JInt (pf_hop_count r)),
      (''signature'', JStr (pf_signature r)),
      (''timestamp'', JStr (isoformat (pf_timestamp r)))]"

definition token_to_dict :: "poc_token \<Rightarrow> (string, json) dict" where
  "token_to_dict t =
     [(''token_id'', JStr (pt_token_id t)),
      (''value'', JInt (pt_value t)),
      (''issuer_pk'', JStr (pt_issuer_pk t)),
      (''current_owner'', JStr (pt_current_owner t)),
      (''nonce'', JInt (pt_nonce t)),
      (''issuer_signature'', JStr (pt_issuer_signature t)),
      (''last_transfer_id'', opt_str_json (pt_last_transfer_id t)),
      (''last_transfer_hash'', opt_str_json (pt_last_transfer_hash t)),
      (''hop_count'', JInt (pt_hop_count t)),
      (''issue_timestamp'', JInt (pt_issue_timestamp t)),
      (''created_at'', JStr (isoformat (pt_created_at t))),
      (''origin_token_id'', opt_str_json (pt_origin_token_id t))]"

definition bundle_to_bytes :: "payment_bundle \<Rightarrow> bytes" where
  "bundle_to_bytes bundle = utf8_encode (dumps_sorted (JObj
     [(''bundle_id'', JStr (pb_bundle_id bundle)),
      (''transfers'', JList (map (\<lambda>r. JObj (transfer_to_dict r)) (pb_transfers bundle))),
      (''tokens'', JObj (map (\<lambda>(token_id, t). (token_id, JObj (token_to_dict t))) (pb_tokens bundle)))]))"

definition iso_field :: "string \<Rightarrow> (string, json) dict \<Rightarrow> py_datetime res" where
  "iso_field k data = bind_res (bind_res (json_field k data) json_str) fromisoformat"

definition transfer_from_dict :: "json \<Rightarrow> poc_transfer res" where
  "transfer_from_dict payload =
     bind_res (json_obj payload) (\<lambda>data.
     bind_res (iso_field ''timestamp'' data) (\<lambda>timestamp.
     bind_res (kwargs [''transfer_id'', ''token_id'', ''sender_pk'', ''receiver_pk'', ''nonce'',
       ''parent_transfer_id'', ''parent_transfer_hash'', ''prev_transfer_hash'', ''hop_count'',
       ''signature'', ''timestamp''] data) (\<lambda>_.
     bind_res (required json_str ''transfer_id'' data) (\<lambda>transfer_id.
     bind_res (required json_str ''token_id'' data) (\<lambda>token_id.
     bind_res (required json_str ''sender_pk'' data) (\<lambda>sender_pk.
     bind_res (required json_str ''receiver_pk'' data) (\<lambda>receiver_pk.
     bind_res (required json_int ''nonce'' data) (\<lambda>nonce.
     bind_res (required json_opt_str ''parent_transfer_id'' data) (\<lambda>parent_transfer_id.
     bind_res (required json_opt_str ''parent_transfer_hash'' data) (\<lambda>parent_transfer_hash.
     bind_res (required json_opt_str ''prev_transfer_hash'' data) (\<lambda>prev_transfer_hash.
     bind_res (required json_int ''hop_count'' data) (\<lambda>hop_count.
     bind_res (required json_str ''signature'' data) (\<lambda>signature.
     Inr \<lparr>pf_transfer_id = transfer_id, pf_token_id = token_id, pf_sender_pk = sender_pk,
       pf_receiver_pk = receiver_pk, pf_nonce = nonce, pf_parent_transfer_id = parent_transfer_id,
       pf_parent_transfer_hash = parent_transfer_hash, pf_prev_transfer_hash = prev_transfer_hash,
       pf_hop_count = hop_count, pf_signature = signature, pf_timestamp = timestamp\<rparr>)))))))))))))"

text \<open>\<open>now\<close> is the reading of \<open>time.time()\<close> for the default of \<open>issue_timestamp\<close>.\<close>

definition token_from_dict :: "int \<Rightarrow> json \<Rightarrow> poc_token res" where
  "token_from_dict now payload =
     bind_res (json_obj payload) (\<lambda>data.
     bind_res (iso_field ''created_at'' data) (\<lambda>created_at.
     bind_res (kwargs [''token_id'', ''value'', ''issuer_pk'', ''current_owner'', ''nonce'',
       ''issuer_signature'', ''last_transfer_id'', ''last_transfer_hash'', ''hop_count'',
       ''issue_timestamp'', ''created_at'', ''origin_token_id''] data) (\<lambda>_.
     bind_res (required json_str ''token_id'' data) (\<lambda>token_id.
     bind_res (required json_int ''value'' data) (\<lambda>val.
     bind_res (required json_str ''issuer_pk'' data) (\<lambda>issuer_pk.
     bind_res (required json_str ''current_owner'' data) (\<lambda>current_owner.
     bind_res (required json_int ''nonce'' data) (\<lambda>nonce.
     bind_res (required json_str ''issuer_signature'' data) (\<lambda>issuer_signature.
     bind_res (optional json_opt_str None ''last_transfer_id'' data) (\<lambda>last_transfer_id.
     bind_res (optional json_opt_str None ''last_transfer_hash'' data) (\<lambda>last_transfer_hash.
     bind_res (optional json_int 0 ''hop_count'' data) (\<lambda>hop_count.
     bind_res (optional json_int now ''issue_timestamp'' data) (\<lambda>issue_timestamp.
     bind_res (optional json_opt_str None ''origin_token_id'' data) (\<lambda>origin_token_id.
     Inr \<lparr>pt_token_id = token_id, pt_value = val, pt_issuer_pk = issuer_pk,
       pt_current_owner = current_owner, pt_nonce = nonce, pt_issuer_signature = issuer_signature,
       pt_last_transfer_id = last_transfer_id, pt_last_transfer_hash = last_transfer_hash,
       pt_hop_count = hop_count, pt_issue_timestamp = issue_timestamp, pt_created_at = created_at,
       pt_origin_token_id = origin_token_id\<rparr>))))))))))))))"

definition bundle_from_bytes :: "int \<Rightarrow> bytes \<Rightarrow> payment_bundle res" where
  "bundle_from_bytes now payload =
     bind_res (of_option (ValueError ''UnicodeDecodeError'') (utf8_decode payload)) (\<lambda>text.
     bind_res (bind_res (parse_json text) json_obj) (\<lambda>data.
     bind_res (bind_res (json_field ''bundle_id'' data) json_str) (\<lambda>bundle_id.
     bind_res (bind_res (bind_res (json_field ''transfers'' data) json_iter)
         (map_res transfer_from_dict)) (\<lambda>transfers.
     bind_res (bind_res (bind_res (json_field ''tokens'' data) json_obj)
         (map_res (\<lambda>(token_id, token_payload).
            map_sum (\<lambda>e. e) (Pair token_id) (token_from_dict now token_payload)))) (\<lambda>tokens.
     Inr \<lparr>pb_bundle_id = bundle_id, pb_transfers = transfers, pb_tokens = tokens\<rparr>)))))"

section \<open>Envelopes\<close>

record session_envelope =
  se_sender_x25519_pk :: bytes
  se_nonce_material :: bytes
  se_nonce :: bytes
  se_ciphertext :: bytes

definition wallet_x25519_sk :: "offline_wallet \<Rightarrow> bytes res" where
  "wallet_x25519_sk w =
     bind_res (of_option (ValueError ''fromhex'') (from_hex (ow_private_key_hex w)))
       ed25519_sk_to_x25519_sk"

definition build_envelope ::
  "session_crypto \<Rightarrow> bytes \<Rightarrow> offline_wallet \<Rightarrow> offline_wallet \<Rightarrow> payment_bundle \<Rightarrow> session_envelope res" where
  "build_envelope X nonce sender receiver bundle =
     bind_res (wallet_x25519_sk sender) (\<lambda>sender_x25519.
     bind_res (wallet_x25519_sk receiver) (\<lambda>receiver_x25519.
     let sender_x25519_pk = x25519_public_bytes X sender_x25519;
         receiver_x25519_pk = x25519_public_bytes X receiver_x25519;
         nonce_material = sender_x25519_pk @ receiver_x25519_pk
     in bind_res (ecdh_shared_secret X sender_x25519 receiver_x25519_pk) (\<lambda>shared_secret.
        let session_key = derive_session_key shared_secret nonce_material
        in bind_res (encrypt_bundle X nonce (bundle_to_bytes bundle) session_key) (\<lambda>(nonce, ciphertext).
           Inr \<lparr>se_sender_x25519_pk = sender_x25519_pk, se_nonce_material = nonce_material,
             se_nonce = nonce, se_ciphertext = ciphertext\<rparr>))))"

definition open_envelope ::
  "session_crypto \<Rightarrow> int \<Rightarrow> offline_wallet \<Rightarrow> session_envelope \<Rightarrow> payment_bundle res" where
  "open_envelope X now receiver envelope =
     bind_res (wallet_x25519_sk receiver) (\<lambda>receiver_x25519.
     bind_res (ecdh_shared_secret X receiver_x25519 (se_sender_x25519_pk envelope)) (\<lambda>shared_secret.
     let session_key = derive_session_key shared_secret (se_nonce_material envelope)
     in bind_res (decrypt_bundle X (se_nonce envelope) (se_ciphertext envelope) session_key)
          (bundle_from_bytes now)))"

definition encode_envelope :: "session_envelope \<Rightarrow> (string, string) dict" where
  "encode_envelope envelope =
     [(''sender_x25519_pk'', b64encode (se_sender_x25519_pk envelope)),
      (''nonce_material'', b64encode (se_nonce_material envelope)),
      (''nonce'', b64encode (se_nonce envelope)),
      (''ciphertext'', b64encode (se_ciphertext envelope))]"

text \<open>The receiver is changed only by the last call.\<close>

definition send_bundle ::
  "session_crypto \<Rightarrow> backend \<Rightarrow> bytes \<Rightarrow> int \<Rightarrow> (nat \<Rightarrow> int \<times> int) \<Rightarrow> offline_wallet \<Rightarrow> payment_bundle \<Rightarrow> bool \<Rightarrow>
     offline_wallet \<Rightarrow> (string \<times> bool) list res \<times> offline_wallet" where
  "send_bundle X B nonce now clk sender bundle encrypt receiver =
     (case (if encrypt
            then bind_res (build_envelope X nonce sender receiver bundle) (open_envelope X now receiver)
            else Inr bundle) of
        Inl e \<Rightarrow> (Inl e, receiver)
      | Inr transmitted_bundle \<Rightarrow> ow_receive_bundle B clk transmitted_bundle receiver)"

text \<open>\<open>make_wallet\<close> of \<open>main_demo.py\<close>; \<open>seed\<close> is the fresh private key.\<close>

definition make_wallet :: "backend \<Rightarrow> bytes \<Rightarrow> string \<Rightarrow> policy_config \<Rightarrow> offline_wallet res" where
  "make_wallet B seed name policy =
     map_sum (\<lambda>e. e) (\<lambda>(sk, pk). new_offline_wallet name sk pk policy) (generate_keypair B seed)"

section \<open>A bundle survives serialisation\<close>

definition bundle_ok :: "payment_bundle \<Rightarrow> bool" where
  "bundle_ok b \<longleftrightarrow>
     dict_wf (pb_tokens b) \<and> (\<forall>r \<in> set (pb_transfers b). dt_valid (pf_timestamp r)) \<and>
     (\<forall>(_, t) \<in> set (pb_tokens b). dt_valid (pt_created_at t))"

lemma transfer_to_dict_ok:
  "list_all (\<lambda>(k, v). json_flat v) (transfer_to_dict r)" "distinct (map fst (transfer_to_dict r))"
  by (simp_all add: transfer_to_dict_def)

lemma token_to_dict_ok:
  "list_all (\<lambda>(k, v). json_flat v) (token_to_dict t)" "distinct (map fst (token_to_dict t))"
  by (simp_all add: token_to_dict_def)

lemmas transfer_dict = dict_of_sorted [OF transfer_to_dict_ok]
lemmas token_dict = dict_of_sorted [OF token_to_dict_ok]

lemma transfer_dict_roundtrip:
  assumes "dt_valid (pf_timestamp r)"
  shows "transfer_from_dict (JObj (sort_key fst (transfer_to_dict r))) = Inr r"
proof -
  have "iso_field ''timestamp'' (sort_key fst (transfer_to_dict r)) = Inr (pf_timestamp r)"
    using isoformat_roundtrip [OF assms]
    by (simp add: iso_field_def json_field_def transfer_dict(2)) (simp add: transfer_to_dict_def)
  then show ?thesis
    by (simp add: transfer_from_dict_def required_def transfer_dict(2))
      (simp add: transfer_to_dict_def kwargs_def)
qed

lemma token_dict_roundtrip:
  assumes "dt_valid (pt_created_at t)"
  shows "token_from_dict now (JObj (sort_key fst (token_to_dict t))) = Inr t"
proof -
  have "iso_field ''created_at'' (sort_key fst (token_to_dict t)) = Inr (pt_created_at t)"
    using isoformat_roundtrip [OF assms]
    by (simp add: iso_field_def json_field_def token_dict(2)) (simp add: token_to_dict_def)
  then show ?thesis
    by (simp add: token_from_dict_def required_def optional_def token_dict(2))
      (simp add: token_to_dict_def kwargs_def)
qed

lemma bundle_json:
  assumes "dict_wf (pb_tokens b)"
  shows "parse_json (dumps_sorted (JObj
     [(''bundle_id'', JStr (pb_bundle_id b)),
      (''transfers'', JList (map (\<lambda>r. JObj (transfer_to_dict r)) (pb_transfers b))),
      (''tokens'', JObj (map (\<lambda>(token_id, t). (token_id, JObj (token_to_dict t))) (pb_tokens b)))])) =
    Inr (JObj
     [(''bundle_id'', JStr (pb_bundle_id b)),
      (''tokens'', JObj (map (\<lambda>(token_id, t). (token_id, JObj (sort_key fst (token_to_dict t))))
         (sort_key fst (pb_tokens b)))),
      (''transfers'', JList (map (\<lambda>r. JObj (sort_key fst (transfer_to_dict r))) (pb_transfers b)))])"
proof -
  let ?toks = "map (\<lambda>(token_id, t). (token_id, JObj (token_to_dict t))) (pb_tokens b)"
    and ?trs = "map (\<lambda>r. JObj (transfer_to_dict r)) (pb_transfers b)"
  have keys: "map fst ?toks = map fst (pb_tokens b)" by (simp add: split_beta)
  have "json_wf (JObj ?toks)"
    unfolding json_wf.simps keys using assms token_dict(3) by (auto simp: list_all_iff simp del: json_wf.simps)
  moreover have "json_wf (JList ?trs)"
    using transfer_dict(3) by (auto simp: list_all_iff simp del: json_wf.simps(2))
  ultimately have wf: "json_wf (JObj [(''bundle_id'', JStr (pb_bundle_id b)), (''transfers'', JList ?trs),
      (''tokens'', JObj ?toks)])" by simp
  have "sort_keys (JObj ?toks) = JObj (sort_key fst (map (\<lambda>(k, v). (k, sort_keys v)) ?toks))" by simp
  also have "map (\<lambda>(k, v). (k, sort_keys v)) ?toks =
      map (\<lambda>(k, t). (k, JObj (sort_key fst (token_to_dict t)))) (pb_tokens b)"
    using token_dict(1) by (auto simp del: sort_keys.simps)
  also have "sort_key fst \<dots> = map (\<lambda>(k, t). (k, JObj (sort_key fst (token_to_dict t)))) (sort_key fst (pb_tokens b))"
    unfolding sort_key_map by (simp add: split_beta)
  finally have toks: "sort_keys (JObj ?toks) =
      JObj (map (\<lambda>(k, t). (k, JObj (sort_key fst (token_to_dict t)))) (sort_key fst (pb_tokens b)))" .
  have trs: "sort_keys (JList ?trs) = JList (map (\<lambda>r. JObj (sort_key fst (transfer_to_dict r))) (pb_transfers b))"
    using transfer_dict(1) by (simp del: sort_keys.simps(2))
  have outer: "sort_keys (JObj [(''bundle_id'', x), (''transfers'', y), (''tokens'', z)]) =
      JObj [(''bundle_id'', sort_keys x), (''tokens'', sort_keys z), (''transfers'', sort_keys y)]" for x y z
    by (simp add: less_eq_list_code less_list_code)
  show ?thesis
    unfolding parse_json_def json_sorted_roundtrip [OF wf] outer toks trs by simp
qed

lemma bundle_roundtrip:
  assumes "bundle_ok b"
  shows "bundle_from_bytes now (bundle_to_bytes b) = Inr (b\<lparr>pb_tokens := sort_key fst (pb_tokens b)\<rparr>)"
proof -
  have wf: "dict_wf (pb_tokens b)" using assms by (simp add: bundle_ok_def)
  have "map_res transfer_from_dict (map (\<lambda>r. JObj (sort_key fst (transfer_to_dict r))) rs) = Inr rs"
    if "\<forall>r \<in> set rs. dt_valid (pf_timestamp r)" for rs
    using that by (induction rs) (simp_all add: transfer_dict_roundtrip)
  then have trs: "map_res transfer_from_dict
      (map (\<lambda>r. JObj (sort_key fst (transfer_to_dict r))) (pb_transfers b)) = Inr (pb_transfers b)"
    using assms by (simp add: bundle_ok_def)
  have "map_res (\<lambda>(token_id, j). map_sum (\<lambda>e. e) (Pair token_id) (token_from_dict now j))
      (map (\<lambda>(k, t). (k, JObj (sort_key fst (token_to_dict t)))) d) = Inr d"
    if "\<forall>(k, t) \<in> set d. dt_valid (pt_created_at t)" for d :: "(string, poc_token) dict"
    using that by (induction d) (auto simp: token_dict_roundtrip)
  from this [of "sort_key fst (pb_tokens b)"] have toks: "map_res (\<lambda>(token_id, j). map_sum (\<lambda>e. e) (Pair token_id) (token_from_dict now j))
      (map (\<lambda>(k, t). (k, JObj (sort_key fst (token_to_dict t)))) (sort_key fst (pb_tokens b))) =
      Inr (sort_key fst (pb_tokens b))"
    using assms unfolding bundle_ok_def set_sort by blast
  show ?thesis
    unfolding bundle_from_bytes_def bundle_to_bytes_def utf8_roundtrip of_option_simps bind_res.simps
      bundle_json [OF wf]
    by (simp add: json_field_def trs toks)
qed

text \<open>
  C27: A bundle with valid times survives the wire: reading back the bytes of a bundle gives the
  same identifier, the same transfers and the same tokens, only the dictionary of tokens comes back
  in key order.
\<close>
theorem bundle_bytes_roundtrip:
  assumes "bundle_ok b"
  shows "bundle_from_bytes now (bundle_to_bytes b) = Inr (b\<lparr>pb_tokens := sort_key fst (pb_tokens b)\<rparr>)"
  using bundle_roundtrip [OF assms] .

lemma demo_bundle_ok: "bundle_ok (bundle_create ''b'' [] [(''z'', demo_root), (''a'', demo_root)])"
proof -
  have "pt_created_at demo_root = epoch_dt" by (simp add: demo_root_def poc_new_unsigned_def demo_poc_stamps_def Let_def)
  moreover have "dt_valid epoch_dt" by (simp add: dt_valid_def epoch_dt_def days_in_month_def day_us_def)
  ultimately show ?thesis by (simp add: bundle_ok_def bundle_create_def)
qed

lemma bundle_bytes_roundtrip_witness:
  "map_sum (\<lambda>e. e) pb_tokens
     (bundle_from_bytes 0 (bundle_to_bytes (bundle_create ''b'' [] [(''z'', demo_root), (''a'', demo_root)]))) =
   Inr [(''a'', demo_root), (''z'', demo_root)]"
  unfolding bundle_bytes_roundtrip [OF demo_bundle_ok]
  by (simp add: bundle_create_def less_eq_list_code less_list_code)

section \<open>The encrypted transport\<close>

text \<open>A receiver looks tokens up by identifier, so the order of the dictionary does not matter.\<close>

lemma ow_receive_loop_cong:
  "map_of d = map_of e \<Longrightarrow> ow_receive_loop B clk i d rs results w = ow_receive_loop B clk i e rs results w"
proof (induction rs arbitrary: i results w)
  case (Cons r rs)
  then show ?case by (auto split: option.splits sum.splits prod.splits)
qed simp

lemma wallet_x25519_sk_Inr:
  assumes "from_hex (ow_private_key_hex w) = Some sk" and "32 \<le> length sk"
  shows "\<exists>x. wallet_x25519_sk w = Inr x \<and> length x = 32"
  using assms by (simp add: wallet_x25519_sk_def ed25519_sk_to_x25519_sk_def)

lemma envelope_roundtrip:
  assumes "session_ok X" and "length nonce = 12" and "bundle_ok b"
    and "from_hex (ow_private_key_hex s) = Some sks" and "32 \<le> length sks"
    and "from_hex (ow_private_key_hex r) = Some skr" and "32 \<le> length skr"
  shows "bind_res (build_envelope X nonce s r b) (open_envelope X now r) =
    Inr (b\<lparr>pb_tokens := sort_key fst (pb_tokens b)\<rparr>)"
proof -
  obtain a where a: "wallet_x25519_sk s = Inr a" "length a = 32"
    using wallet_x25519_sk_Inr [OF assms(4,5)] by blast
  obtain c where c: "wallet_x25519_sk r = Inr c" "length c = 32"
    using wallet_x25519_sk_Inr [OF assms(6,7)] by blast
  from assms(1) a(2) c(2) obtain k where k: "sx_exchange X a (sx_public X c) = Some k"
    "sx_exchange X c (sx_public X a) = Some k" unfolding session_ok_def by blast
  let ?key = "derive_session_key k (sx_public X a @ sx_public X c)"
  have "length ?key = 32" by (simp add: derive_session_key_def)
  with assms(1,2) obtain ct where ct: "sx_encrypt X ?key nonce (bundle_to_bytes b) = Some ct"
    "sx_decrypt X ?key nonce ct = Some (bundle_to_bytes b)" unfolding session_ok_def by blast
  show ?thesis
    using a(1) c(1) k ct bundle_roundtrip [OF assms(3), of now]
    by (simp add: build_envelope_def open_envelope_def x25519_public_bytes_def ecdh_shared_secret_def
        encrypt_bundle_def decrypt_bundle_def Let_def)
qed

text \<open>
  C28: The encrypted transport is transparent: between two wallets with usable private keys, a bundle
  with valid times sent encrypted leads to the same results and the same receiver as the bundle
  handed over directly.
\<close>
theorem encrypted_send_transparent:
  assumes "session_ok X" and "length nonce = 12" and "bundle_ok b"
    and "from_hex (ow_private_key_hex s) = Some sks" and "32 \<le> length sks"
    and "from_hex (ow_private_key_hex r) = Some skr" and "32 \<le> length skr"
  shows "send_bundle X B nonce now clk s b True r = send_bundle X B nonce now clk s b False r"
proof -
  have "map_of (sort_key fst (pb_tokens b)) = map_of (pb_tokens b)"
    using assms(3) by (intro map_of_sort_key) (simp add: bundle_ok_def)
  from ow_receive_loop_cong [OF this] show ?thesis
    by (simp add: send_bundle_def envelope_roundtrip [OF assms] ow_receive_bundle_def)
qed

lemma encrypted_send_transparent_witness:
  "send_bundle toy_session toy_backend (replicate 12 0) 0 (\<lambda>_. (0, 0)) (demo_ow 2 [])
     (bundle_create ''b'' [] [(''z'', demo_root), (''a'', demo_root)]) True (demo_ow 3 []) =
   (Inr [], demo_ow 3 [])"
proof -
  have "from_hex (ow_private_key_hex (demo_ow k [])) = Some (replicate 32 k)" for k
    by (simp add: demo_hex_def)
  from encrypted_send_transparent [OF toy_session_ok _ demo_bundle_ok this _ this, of "replicate 12 0"]
  show ?thesis
    by (simp add: send_bundle_def ow_receive_bundle_def bundle_create_def)
qed

end
