(* ===== verification/Programs.thy ===== *)
theory Programs
  imports Prelude
begin

text \<open>
  Scripts of the repository as programs over the state of all their objects: a program maps a state
  to a result or an exception and to the state it leaves. A program is run by rewriting with the
  results of its steps (\<open>run_steps\<close>).
\<close>

type_synonym ('s, 'e, 'a) prog = "'s \<Rightarrow> ('e + 'a) \<times> 's"

definition run_return :: "'a \<Rightarrow> ('s, 'e, 'a) prog" where
  "run_return x w = (Inr x, w)"

definition run_bind :: "('s, 'e, 'a) prog \<Rightarrow> ('a \<Rightarrow> ('s, 'e, 'b) prog) \<Rightarrow> ('s, 'e, 'b) prog" where
  "run_bind m f w = (case m w of (Inl e, w1) \<Rightarrow> (Inl e, w1) | (Inr x, w1) \<Rightarrow> f x w1)"

text \<open>A computation that does not look at the state.\<close>

definition run_result :: "'e + 'a \<Rightarrow> ('s, 'e, 'a) prog" where
  "run_result r w = (r, w)"

text \<open>\<open>assert\<close>, which raises \<open>e\<close>.\<close>

definition run_check :: "'e \<Rightarrow> ('s \<Rightarrow> bool) \<Rightarrow> ('s, 'e, unit) prog" where
  "run_check e p w = (if p w then Inr () else Inl e, w)"

text \<open>\<open>try: m\<close> with an \<open>except\<close> clause \<open>h\<close> for the exceptions in \<open>p\<close>.\<close>

definition run_try :: "('s, 'e, 'a) prog \<Rightarrow> ('e \<Rightarrow> bool) \<Rightarrow> ('e \<Rightarrow> ('s, 'e, 'a) prog) \<Rightarrow> ('s, 'e, 'a) prog" where
  "run_try m p h w = (case m w of (Inl e, w1) \<Rightarrow> if p e then h e w1 else (Inl e, w1) | (Inr x, w1) \<Rightarrow> (Inr x, w1))"

named_theorems run_steps

declare run_bind_def [run_steps] run_try_def [run_steps]

lemma run_return_app [simp]: "run_return x w = (Inr x, w)"
  and run_result_app [simp]: "run_result r w = (r, w)"
  and run_check_app [simp]: "p w \<Longrightarrow> run_check e p w = (Inr (), w)"
  by (simp_all add: run_return_def run_result_def run_check_def)

end
