(* ===== verification/OfflineDemo.thy ===== *)
theory OfflineDemo
  imports NetworkSim Programs
begin

text \<open>
  \<open>main_demo.py\<close>: the demonstration of the offline proof of concept as a program over the issuer and
  five wallets. Its result is what it prints, as a list of values. Keys, identifiers, clock readings
  and the nonce of the session come from a supply. The main result is the exact output, for all
  primitives that keep their contracts, all keys and all identifiers that differ.
\<close>

section \<open>The objects and the supply\<close>

datatype person = Alice | Bob | Carol | Dave | Erin

record poc_world =
  pw_issuer :: issuer
  pw_wallets :: "person \<Rightarrow> offline_wallet"
  pw_tick :: nat

text \<open>Draw \<open>k\<close> of operation \<open>n\<close>; \<open>fs_utc n k\<close> is the \<open>datetime\<close> of the clock reading.\<close>

record poc_supply =
  fs_seed :: "nat \<Rightarrow> bytes"
  fs_uuid :: "nat \<Rightarrow> nat \<Rightarrow> string"
  fs_clock :: "nat \<Rightarrow> nat \<Rightarrow> int"
  fs_utc :: "nat \<Rightarrow> nat \<Rightarrow> py_datetime"
  fs_nonce :: bytes






text \<open>The world after an operation: the next draws, and a wallet changed.\<close>

definition tick :: "poc_world \<Rightarrow> poc_world" where
  "tick w = w\<lparr>pw_tick := pw_tick w + 1\<rparr>"

definition put_person :: "person \<Rightarrow> offline_wallet \<Rightarrow> poc_world \<Rightarrow> poc_world" where
  "put_person p x w = w\<lparr>pw_wallets := (pw_wallets w)(p := x)\<rparr>"

section \<open>Operations\<close>







section \<open>Output\<close>




section \<open>The parts of the script\<close>

definition demo_policy :: policy_config where
  "demo_policy = policy_post_init
     \<lparr>pc_max_tx_value = 1000, pc_max_hops = 7, pc_max_balance = 10000, pc_max_token_hops = None,
      pc_max_wallet_balance = None, pc_token_expiry_seconds = 604800\<rparr>"







text \<open>The nonce and the hop count of a token are set from outside.\<close>

definition at_hop :: "int \<Rightarrow> poc_token \<Rightarrow> poc_token" where
  "at_hop n t = t\<lparr>pt_nonce := n, pt_hop_count := n\<rparr>"










section \<open>What the script relies on\<close>



lemma demo_policy_sel [simp]:
  "pc_max_tx_value demo_policy = 1000" "pc_max_hops demo_policy = 7" "pc_max_balance demo_policy = 10000"
  "pc_token_expiry_seconds demo_policy = 604800"
  by (simp_all add: demo_policy_def policy_post_init_def)

text \<open>A token that was issued during the run.\<close>

definition issued_now :: "poc_supply \<Rightarrow> poc_token \<Rightarrow> bool" where
  "issued_now F t \<longleftrightarrow> (\<exists>n k. pt_issue_timestamp t = epoch_seconds (fs_clock F n k) \<and> pt_created_at t = fs_utc F n k)"



section \<open>Wallets between the steps\<close>




lemma poc_world_simps [simp]:
  "pw_issuer (tick w) = pw_issuer w" "pw_wallets (tick w) = pw_wallets w" "pw_tick (tick w) = Suc (pw_tick w)"
  "pw_issuer (put_person p x w) = pw_issuer w" "pw_wallets (put_person p x w) = (pw_wallets w)(p := x)"
  "pw_tick (put_person p x w) = pw_tick w"
  by (simp_all add: tick_def put_person_def)















section \<open>Settlement of what was paid\<close>





section \<open>The parts\<close>








lemma issued_at_hop [simp]: "issued_now F (at_hop n t) = issued_now F t"
  by (simp add: issued_now_def at_hop_def)

lemma at_hop_sel [simp]:
  "pt_token_id (at_hop n t) = pt_token_id t" "pt_value (at_hop n t) = pt_value t" "pt_nonce (at_hop n t) = n"
  "pt_hop_count (at_hop n t) = n" "pt_current_owner (at_hop n t) = pt_current_owner t"
  "pt_origin_token_id (at_hop n t) = pt_origin_token_id t"
  by (simp_all add: at_hop_def)




section \<open>Properties\<close>






end
