(* ===== verification/DpcCrypto.thy ===== *)
theory DpcCrypto
  imports Signatures
begin

text \<open>
  The base of the stack in \<open>src/dpc\<close>: \<open>constants.py\<close>, the exception hierarchy of
  \<open>exceptions.py\<close> and \<open>crypto_utils.py\<close>. Ed25519, X25519, HKDF and ChaCha20-Poly1305 belong to the
  \<open>cryptography\<close> package and are parameters. A key object holds the 32 raw bytes it was made from.
\<close>

section \<open>Constants\<close>

definition max_offline_hops :: int where "max_offline_hops = 7"
definition max_wallet_balance_subunits :: int where "max_wallet_balance_subunits = 1000000"
definition max_single_tx_subunits :: int where "max_single_tx_subunits = 100000"
definition token_ttl_seconds :: int where "token_ttl_seconds = 604800"
definition subunits_per_etb :: int where "subunits_per_etb = 100"
definition genesis_hash :: string where "genesis_hash = replicate 64 (CHR ''0'')"

section \<open>Exceptions\<close>

text \<open>
  The classes of \<open>exceptions.py\<close> that are raised, with their messages where one class has several;
  \<open>PyError\<close> is an exception of Python itself, outside the hierarchy of \<open>DPCError\<close>.
\<close>

datatype dpc_exc =
    HopLimitExceededError
  | WalletBalanceCapError
  | TransactionValueCapError
  | TokenExpiredError string
  | SignatureVerificationError
  | ChainIntegrityError string
  | SessionDecryptionError string
  | DoubleSpendError string
  | ReconciliationError string
  | FirstClaimConflictError
  | WalletStateError string
  | InsufficientFundsError
  | PyError pyexc

type_synonym 'a dres = "dpc_exc + 'a"

fun is_dpc_error :: "dpc_exc \<Rightarrow> bool" where
  "is_dpc_error (PyError _) = False"
| "is_dpc_error _ = True"

fun is_policy_violation :: "dpc_exc \<Rightarrow> bool" where
  "is_policy_violation HopLimitExceededError = True"
| "is_policy_violation WalletBalanceCapError = True"
| "is_policy_violation TransactionValueCapError = True"
| "is_policy_violation (TokenExpiredError _) = True"
| "is_policy_violation _ = False"

fun is_cryptographic_error :: "dpc_exc \<Rightarrow> bool" where
  "is_cryptographic_error SignatureVerificationError = True"
| "is_cryptographic_error (ChainIntegrityError _) = True"
| "is_cryptographic_error (SessionDecryptionError _) = True"
| "is_cryptographic_error _ = False"

fun is_reconciliation_error :: "dpc_exc \<Rightarrow> bool" where
  "is_reconciliation_error (ReconciliationError _) = True"
| "is_reconciliation_error FirstClaimConflictError = True"
| "is_reconciliation_error _ = False"

fun is_wallet_state_error :: "dpc_exc \<Rightarrow> bool" where
  "is_wallet_state_error (WalletStateError _) = True"
| "is_wallet_state_error InsufficientFundsError = True"
| "is_wallet_state_error _ = False"

text \<open>A result of the Python standard library as one of this stack.\<close>

definition lift_py :: "'a res \<Rightarrow> 'a dres" where
  "lift_py r = map_sum PyError (\<lambda>x. x) r"

lemma lift_py_simps [simp]: "lift_py (Inl e) = Inl (PyError e)" "lift_py (Inr x) = Inr x"
  by (simp_all add: lift_py_def)

lemma lift_py_Inr_iff [simp]: "lift_py r = Inr x \<longleftrightarrow> r = Inr x"
  by (cases r) simp_all

section \<open>Keys and signatures\<close>

record dpc_crypto =
  dc_ed25519 :: ed25519
  dc_x_public :: "bytes \<Rightarrow> bytes"
  dc_x_exchange :: "bytes \<Rightarrow> bytes \<Rightarrow> bytes option"
  dc_hkdf :: "bytes option \<Rightarrow> bytes \<Rightarrow> bytes \<Rightarrow> bytes"
  dc_encrypt :: "bytes \<Rightarrow> bytes \<Rightarrow> bytes \<Rightarrow> bytes option"
  dc_decrypt :: "bytes \<Rightarrow> bytes \<Rightarrow> bytes \<Rightarrow> bytes option"

text \<open>
  What the code relies on: signatures of the package verify, the two sides of an X25519 exchange
  agree, HKDF gives 32 bytes, and ChaCha20-Poly1305 adds a tag of 16 bytes and decrypts what it encrypted. The arguments of
  \<open>dc_hkdf\<close> are salt, info and key material; \<open>None\<close> where the library raises.
\<close>

definition dpc_crypto_ok :: "dpc_crypto \<Rightarrow> bool" where
  "dpc_crypto_ok K \<longleftrightarrow>
     ed_ok (dc_ed25519 K) \<and>
     (\<forall>a b. length a = 32 \<and> length b = 32 \<longrightarrow>
        (\<exists>s. dc_x_exchange K a (dc_x_public K b) = Some s \<and> dc_x_exchange K b (dc_x_public K a) = Some s)) \<and>
     (\<forall>salt info ikm. length (dc_hkdf K salt info ikm) = 32) \<and>
     (\<forall>key nonce m. length key = 32 \<and> length nonce = 12 \<longrightarrow>
        (\<exists>c. dc_encrypt K key nonce m = Some c \<and> length c = length m + 16 \<and>
             dc_decrypt K key nonce c = Some m))"

definition toy_crypto :: dpc_crypto where
  "toy_crypto =
     \<lparr>dc_ed25519 = toy_ed25519, dc_x_public = (\<lambda>a. a),
      dc_x_exchange = (\<lambda>a b. Some (map2 (+) a b)), dc_hkdf = (\<lambda>salt info ikm. replicate 32 0),
      dc_encrypt = (\<lambda>key nonce m. Some (replicate 16 1 @ m)),
      dc_decrypt = (\<lambda>key nonce c. if take 16 c = replicate 16 1 then Some (drop 16 c) else None)\<rparr>"

lemma toy_crypto_simps [simp]: "dc_ed25519 toy_crypto = toy_ed25519"
  by (simp add: toy_crypto_def)

lemma toy_crypto_ok [simp]: "dpc_crypto_ok toy_crypto"
proof -
  have "map2 (+) a b = map2 (+) b a" for a b :: bytes
    by (induction a b rule: list_induct2') (simp_all add: add.commute)
  then show ?thesis by (simp add: dpc_crypto_ok_def toy_crypto_def)
qed

record dpc_keypair =
  kp_private_key :: bytes
  kp_public_key :: bytes

text \<open>\<open>seed\<close> is the fresh private key.\<close>

definition keypair_generate :: "dpc_crypto \<Rightarrow> bytes \<Rightarrow> dpc_keypair" where
  "keypair_generate K seed =
     \<lparr>kp_private_key = seed, kp_public_key = ed_public (dc_ed25519 K) seed\<rparr>"

definition public_key_hex :: "dpc_keypair \<Rightarrow> string" where
  "public_key_hex kp = to_hex (kp_public_key kp)"

definition private_key_bytes :: "dpc_keypair \<Rightarrow> bytes" where
  "private_key_bytes kp = kp_private_key kp"

definition ed25519_sign :: "dpc_crypto \<Rightarrow> bytes \<Rightarrow> bytes \<Rightarrow> string dres" where
  "ed25519_sign K sk message =
     lift_py (map_sum (\<lambda>e. e) to_hex
       (of_option (ValueError ''ed25519 private key'') (ed_sign (dc_ed25519 K) sk message)))"

definition keypair_sign :: "dpc_crypto \<Rightarrow> dpc_keypair \<Rightarrow> bytes \<Rightarrow> bytes dres" where
  "keypair_sign K kp message =
     lift_py (of_option (ValueError ''ed25519 private key'')
       (ed_sign (dc_ed25519 K) (kp_private_key kp) message))"

definition derive_x25519_private :: "dpc_crypto \<Rightarrow> dpc_keypair \<Rightarrow> bytes" where
  "derive_x25519_private K kp =
     dc_hkdf K None (utf8_encode ''DPC-X25519-Derive-v1'') (private_key_bytes kp)"

definition ed25519_verify :: "dpc_crypto \<Rightarrow> string \<Rightarrow> bytes \<Rightarrow> string \<Rightarrow> unit dres" where
  "ed25519_verify K pk_hex message signature_hex =
     (case from_hex pk_hex of
        None \<Rightarrow> Inl SignatureVerificationError
      | Some pk \<Rightarrow>
          (case from_hex signature_hex of
             None \<Rightarrow> Inl SignatureVerificationError
           | Some s \<Rightarrow>
               (case ed_verify (dc_ed25519 K) pk message s of
                  SigValid \<Rightarrow> Inr ()
                | SigInvalid \<Rightarrow> Inl SignatureVerificationError
                | KeyRejected \<Rightarrow> Inl SignatureVerificationError)))"

definition dpc_derive_session_key :: "dpc_crypto \<Rightarrow> bytes \<Rightarrow> bytes \<Rightarrow> bytes \<Rightarrow> bytes dres" where
  "dpc_derive_session_key K local_private peer_public session_nonce =
     lift_py (bind_res (of_option (ValueError ''x25519'') (dc_x_exchange K local_private peer_public))
       (\<lambda>shared_secret. Inr (dc_hkdf K (Some session_nonce) (utf8_encode ''DPC-ChaCha20-Session-v1'')
          shared_secret)))"

section \<open>Key pairs sign\<close>

definition dpc_keypair_ok :: "dpc_crypto \<Rightarrow> dpc_keypair \<Rightarrow> bool" where
  "dpc_keypair_ok K kp \<longleftrightarrow>
     length (kp_private_key kp) = 32 \<and> kp = keypair_generate K (kp_private_key kp)"

definition sig_ok :: "dpc_crypto \<Rightarrow> string \<Rightarrow> bytes \<Rightarrow> string \<Rightarrow> bool" where
  "sig_ok K pk m s \<longleftrightarrow> ed25519_verify K pk m s = Inr ()"

lemma ed25519_verify_Inl: "ed25519_verify K pk m s = Inl e \<Longrightarrow> e = SignatureVerificationError"
  by (auto simp: ed25519_verify_def split: option.splits verify_outcome.splits)

lemma ed25519_verify_cases:
  "ed25519_verify K pk m s = (if sig_ok K pk m s then Inr () else Inl SignatureVerificationError)"
  using ed25519_verify_Inl [of K pk m s] by (cases "ed25519_verify K pk m s") (auto simp: sig_ok_def)

text \<open>
  The scheme of this stack is a signature scheme as well; a secret key is given as hexadecimal text
  here, as \<open>private_key_bytes\<close> would be in the other stack.
\<close>

definition dpc_scheme_keypair :: "dpc_crypto \<Rightarrow> string \<Rightarrow> string \<Rightarrow> bool" where
  "dpc_scheme_keypair K sk pk \<longleftrightarrow>
     (case from_hex sk of
        None \<Rightarrow> False
      | Some seed \<Rightarrow> length seed = 32 \<and> pk = public_key_hex (keypair_generate K seed))"

definition dpc_scheme_sign :: "dpc_crypto \<Rightarrow> string \<Rightarrow> bytes \<Rightarrow> string res" where
  "dpc_scheme_sign K sk m =
     (case from_hex sk of
        None \<Rightarrow> Inl (ValueError ''fromhex'')
      | Some seed \<Rightarrow> map_sum (\<lambda>_. ValueError ''sign'') (\<lambda>s. s) (ed25519_sign K seed m))"

interpretation dpcsig: signature_scheme dpc_crypto_ok dpc_scheme_keypair dpc_scheme_sign sig_ok
proof unfold_locales
  fix K sk pk m
  assume "dpc_crypto_ok K" and "dpc_scheme_keypair K sk pk"
  then obtain seed where seed: "from_hex sk = Some seed" "length seed = 32"
    and pk: "pk = to_hex (ed_public (dc_ed25519 K) seed)" and ok: "ed_ok (dc_ed25519 K)"
    by (auto simp: dpc_scheme_keypair_def dpc_crypto_ok_def public_key_hex_def keypair_generate_def
        split: option.splits)
  from ok seed(2) obtain s where "ed_sign (dc_ed25519 K) seed m = Some s"
    "ed_verify (dc_ed25519 K) (ed_public (dc_ed25519 K) seed) m s = SigValid"
    by (auto simp: ed_ok_def)
  with seed(1) pk show "\<exists>s. dpc_scheme_sign K sk m = Inr s \<and> sig_ok K pk m s"
    by (simp add: dpc_scheme_sign_def ed25519_sign_def sig_ok_def ed25519_verify_def)
qed

lemma ed25519_sign_verifies:
  assumes "dpc_crypto_ok K" and "dpc_keypair_ok K kp"
  shows "\<exists>s. ed25519_sign K (private_key_bytes kp) m = Inr s \<and> sig_ok K (public_key_hex kp) m s"
proof -
  have "dpc_scheme_keypair K (to_hex (kp_private_key kp)) (public_key_hex kp)"
    using assms(2) by (auto simp: dpc_scheme_keypair_def dpc_keypair_ok_def)
  from dpcsig.sign_verifies [OF assms(1) this, of m] show ?thesis
    by (cases "ed25519_sign K (kp_private_key kp) m")
      (auto simp: dpc_scheme_sign_def private_key_bytes_def)
qed

lemma keypair_sign_eq:
  "map_sum (\<lambda>e. e) to_hex (keypair_sign K kp m) = ed25519_sign K (private_key_bytes kp) m"
  by (simp add: keypair_sign_def ed25519_sign_def private_key_bytes_def lift_py_def sum.map_comp comp_def)

end
