(* ===== verification/DpcToken.thy ===== *)
theory DpcToken
  imports DpcCrypto Json HashChain
begin

text \<open>
  \<open>src/dpc/token_model.py\<close>: tokens, transfer records, receipts and the validation of transfer
  chains. A record computes its chain hash over its payload and the previous hash when it is made.
  The lemmas turn the validation loop into a condition on the chain, interpret the records as a
  hash chain, and show that receipts survive their JSON form.
\<close>

section \<open>Tokens\<close>

record dpc_token =
  dk_token_id :: string
  dk_issuer_pubkey_hex :: string
  dk_amount_subunits :: int
  dk_issued_at :: int
  dk_ttl_expiry :: int
  dk_issuer_signature :: string

text \<open>\<open>clock\<close> is \<open>int(time.time())\<close>, read when no reference time is given.\<close>

definition dk_is_expired :: "int \<Rightarrow> int option \<Rightarrow> dpc_token \<Rightarrow> bool dres" where
  "dk_is_expired clock reference_time t =
     (let now = (case reference_time of None \<Rightarrow> clock | Some r \<Rightarrow> r)
      in if now < dk_issued_at t then Inl (TokenExpiredError ''Clock rollback detected'')
         else Inr (dk_ttl_expiry t < now))"

definition dk_genesis_dict :: "dpc_token \<Rightarrow> (string, json) dict" where
  "dk_genesis_dict t =
     [(''token_id'', JStr (dk_token_id t)),
      (''issuer_pubkey_hex'', JStr (dk_issuer_pubkey_hex t)),
      (''amount_subunits'', JInt (dk_amount_subunits t)),
      (''issued_at'', JInt (dk_issued_at t)),
      (''ttl_expiry'', JInt (dk_ttl_expiry t))]"

definition genesis_payload_bytes :: "dpc_token \<Rightarrow> bytes" where
  "genesis_payload_bytes t = utf8_encode (dumps_sorted (JObj (dk_genesis_dict t)))"

definition verify_issuer_signature :: "dpc_crypto \<Rightarrow> dpc_token \<Rightarrow> unit dres" where
  "verify_issuer_signature K t =
     ed25519_verify K (dk_issuer_pubkey_hex t) (genesis_payload_bytes t) (dk_issuer_signature t)"

definition dk_to_dict :: "dpc_token \<Rightarrow> (string, json) dict" where
  "dk_to_dict t = dk_genesis_dict t @ [(''issuer_signature'', JStr (dk_issuer_signature t))]"

definition dk_to_json :: "dpc_token \<Rightarrow> string" where
  "dk_to_json t = dumps_sorted (JObj (dk_to_dict t))"

text \<open>
  \<open>cls(**d)\<close>: an unknown or a missing keyword raises \<open>TypeError\<close>, and so does, in the model, a
  value of another type than the annotation.
\<close>

definition dk_from_kwargs :: "json \<Rightarrow> dpc_token res" where
  "dk_from_kwargs j =
     bind_res (json_obj j) (\<lambda>d.
     if \<not> list_all (\<lambda>(k, _). k \<in> {''token_id'', ''issuer_pubkey_hex'', ''amount_subunits'',
       ''issued_at'', ''ttl_expiry'', ''issuer_signature''}) d
     then Inl (TypeError ''unexpected keyword argument'')
     else
       bind_res (required json_str ''token_id'' d) (\<lambda>token_id.
       bind_res (required json_str ''issuer_pubkey_hex'' d) (\<lambda>issuer_pubkey_hex.
       bind_res (required json_int ''amount_subunits'' d) (\<lambda>amount_subunits.
       bind_res (required json_int ''issued_at'' d) (\<lambda>issued_at.
       bind_res (required json_int ''ttl_expiry'' d) (\<lambda>ttl_expiry.
       bind_res (required json_str ''issuer_signature'' d) (\<lambda>issuer_signature.
       Inr \<lparr>dk_token_id = token_id, dk_issuer_pubkey_hex = issuer_pubkey_hex,
         dk_amount_subunits = amount_subunits, dk_issued_at = issued_at,
         dk_ttl_expiry = ttl_expiry, dk_issuer_signature = issuer_signature\<rparr>)))))))"

definition dk_from_json :: "string \<Rightarrow> dpc_token res" where
  "dk_from_json s = bind_res (parse_json s) dk_from_kwargs"

text \<open>\<open>token_id\<close> is \<open>secrets.token_hex(16)\<close>, \<open>issued_at\<close> is \<open>int(time.time())\<close>.\<close>

definition mint_unsigned :: "string \<Rightarrow> int \<Rightarrow> string \<Rightarrow> int \<Rightarrow> dpc_token" where
  "mint_unsigned token_id issued_at issuer_pubkey_hex amount_subunits =
     \<lparr>dk_token_id = token_id, dk_issuer_pubkey_hex = issuer_pubkey_hex,
      dk_amount_subunits = amount_subunits, dk_issued_at = issued_at,
      dk_ttl_expiry = issued_at + token_ttl_seconds, dk_issuer_signature = []\<rparr>"

section \<open>Transfer records\<close>

record dpc_record =
  dr_token_id :: string
  dr_hop_index :: int
  dr_sender_pubkey_hex :: string
  dr_receiver_pubkey_hex :: string
  dr_amount_subunits :: int
  dr_nonce :: string
  dr_prev_hash :: string
  dr_chain_hash :: string
  dr_signature :: string

definition dr_payload_dict :: "dpc_record \<Rightarrow> (string, json) dict" where
  "dr_payload_dict r =
     [(''token_id'', JStr (dr_token_id r)),
      (''hop_index'', JInt (dr_hop_index r)),
      (''sender_pubkey_hex'', JStr (dr_sender_pubkey_hex r)),
      (''receiver_pubkey_hex'', JStr (dr_receiver_pubkey_hex r)),
      (''amount_subunits'', JInt (dr_amount_subunits r)),
      (''nonce'', JStr (dr_nonce r))]"

definition dr_payload_bytes :: "dpc_record \<Rightarrow> bytes" where
  "dr_payload_bytes r = utf8_encode (dumps_sorted (JObj (dr_payload_dict r)))"

definition compute_chain_hash :: "dpc_record \<Rightarrow> string res" where
  "compute_chain_hash r =
     (case from_hex (dr_prev_hash r) of
        None \<Rightarrow> Inl (ValueError ''fromhex'')
      | Some prev \<Rightarrow> Inr (sha256_hex (dr_payload_bytes r @ prev)))"

text \<open>The constructor with \<open>__post_init__\<close>; \<open>nonce\<close> is \<open>secrets.token_hex(NONCE_BYTES)\<close>.\<close>

definition new_dpc_record ::
  "string \<Rightarrow> int \<Rightarrow> string \<Rightarrow> string \<Rightarrow> int \<Rightarrow> string \<Rightarrow> string \<Rightarrow> dpc_record res" where
  "new_dpc_record token_id hop_index sender_pubkey_hex receiver_pubkey_hex amount_subunits nonce prev_hash =
     (let r = \<lparr>dr_token_id = token_id, dr_hop_index = hop_index,
            dr_sender_pubkey_hex = sender_pubkey_hex, dr_receiver_pubkey_hex = receiver_pubkey_hex,
            dr_amount_subunits = amount_subunits, dr_nonce = nonce, dr_prev_hash = prev_hash,
            dr_chain_hash = [], dr_signature = []\<rparr>
      in map_sum (\<lambda>e. e) (\<lambda>h. r\<lparr>dr_chain_hash := h\<rparr>) (compute_chain_hash r))"

definition dr_sign :: "dpc_crypto \<Rightarrow> bytes \<Rightarrow> dpc_record \<Rightarrow> dpc_record dres" where
  "dr_sign K sk r =
     bind_res (lift_py (of_option (ValueError ''fromhex'') (from_hex (dr_chain_hash r)))) (\<lambda>h.
     bind_res (ed25519_sign K sk h) (\<lambda>s. Inr (r\<lparr>dr_signature := s\<rparr>)))"

definition dr_verify_signature :: "dpc_crypto \<Rightarrow> dpc_record \<Rightarrow> unit dres" where
  "dr_verify_signature K r =
     bind_res (lift_py (compute_chain_hash r)) (\<lambda>h.
     if dr_chain_hash r \<noteq> h then Inl (ChainIntegrityError ''Transfer chain_hash mismatch'')
     else
       bind_res (lift_py (of_option (ValueError ''fromhex'') (from_hex (dr_chain_hash r)))) (\<lambda>m.
         ed25519_verify K (dr_sender_pubkey_hex r) m (dr_signature r)))"

definition dr_to_dict :: "dpc_record \<Rightarrow> (string, json) dict" where
  "dr_to_dict r = dr_payload_dict r @
     [(''prev_hash'', JStr (dr_prev_hash r)),
      (''chain_hash'', JStr (dr_chain_hash r)),
      (''signature'', JStr (dr_signature r))]"

definition dr_from_dict :: "json \<Rightarrow> dpc_record res" where
  "dr_from_dict j =
     bind_res (json_obj j) (\<lambda>d.
     bind_res (bind_res (json_field ''token_id'' d) json_str) (\<lambda>token_id.
     bind_res (bind_res (json_field ''hop_index'' d) json_int) (\<lambda>hop_index.
     bind_res (bind_res (json_field ''sender_pubkey_hex'' d) json_str) (\<lambda>sender_pubkey_hex.
     bind_res (bind_res (json_field ''receiver_pubkey_hex'' d) json_str) (\<lambda>receiver_pubkey_hex.
     bind_res (bind_res (json_field ''amount_subunits'' d) json_int) (\<lambda>amount_subunits.
     bind_res (bind_res (json_field ''nonce'' d) json_str) (\<lambda>nonce.
     bind_res (bind_res (json_field ''prev_hash'' d) json_str) (\<lambda>prev_hash.
     bind_res (new_dpc_record token_id hop_index sender_pubkey_hex receiver_pubkey_hex
       amount_subunits nonce prev_hash) (\<lambda>record.
     bind_res (bind_res (json_field ''chain_hash'' d) json_str) (\<lambda>chain_hash.
     bind_res (bind_res (json_field ''signature'' d) json_str) (\<lambda>signature.
     Inr (record\<lparr>dr_chain_hash := chain_hash, dr_signature := signature\<rparr>))))))))))))"

section \<open>Receipts\<close>

record receipt =
  rc_token_id :: string
  rc_received_at :: int
  rc_final_hop :: dpc_record
  rc_full_chain :: "dpc_record list"
  rc_is_redeemed :: bool
  rc_token :: "dpc_token option"

definition rc_json :: "receipt \<Rightarrow> json" where
  "rc_json c = JObj
     [(''token_id'', JStr (rc_token_id c)),
      (''received_at'', JInt (rc_received_at c)),
      (''final_hop'', JObj (dr_to_dict (rc_final_hop c))),
      (''full_chain'', JList (map (\<lambda>r. JObj (dr_to_dict r)) (rc_full_chain c))),
      (''is_redeemed'', JBool (rc_is_redeemed c)),
      (''token'', (case rc_token c of None \<Rightarrow> JNull | Some t \<Rightarrow> JObj (dk_to_dict t)))]"

definition rc_to_json :: "receipt \<Rightarrow> string" where
  "rc_to_json c = dumps_sorted (rc_json c)"

definition rc_from_data :: "json \<Rightarrow> receipt res" where
  "rc_from_data j =
     bind_res (json_obj j) (\<lambda>d.
     bind_res (case map_of d ''token'' of
         None \<Rightarrow> Inr None | Some JNull \<Rightarrow> Inr None
       | Some tj \<Rightarrow> map_sum (\<lambda>e. e) Some (dk_from_kwargs tj)) (\<lambda>token.
     bind_res (bind_res (bind_res (json_field ''full_chain'' d) json_iter) (map_res dr_from_dict)) (\<lambda>chain.
     bind_res (bind_res (json_field ''token_id'' d) json_str) (\<lambda>token_id.
     bind_res (bind_res (json_field ''received_at'' d) json_int) (\<lambda>received_at.
     bind_res (bind_res (json_field ''final_hop'' d) dr_from_dict) (\<lambda>final_hop.
     bind_res (bind_res (json_field ''is_redeemed'' d) json_bool) (\<lambda>is_redeemed.
     Inr \<lparr>rc_token_id = token_id, rc_received_at = received_at, rc_final_hop = final_hop,
       rc_full_chain = chain, rc_is_redeemed = is_redeemed, rc_token = token\<rparr>)))))))"

definition rc_from_json :: "string \<Rightarrow> receipt res" where
  "rc_from_json s = bind_res (parse_json s) rc_from_data"

definition chain_depth :: "receipt \<Rightarrow> nat" where
  "chain_depth c = length (rc_full_chain c)"

section \<open>Chains\<close>

text \<open>A \<open>TransferChain\<close> is its list of records; \<open>pos\<close> is the position in the loop.\<close>

fun integrity_loop ::
  "dpc_crypto \<Rightarrow> dpc_token \<Rightarrow> nat \<Rightarrow> string \<Rightarrow> int \<Rightarrow> dpc_record list \<Rightarrow> unit dres" where
  "integrity_loop K t pos previous_hash previous_hop [] = Inr ()"
| "integrity_loop K t pos previous_hash previous_hop (r # rs) =
     (if dr_token_id r \<noteq> dk_token_id t
      then Inl (ChainIntegrityError ''Transfer token_id does not match token'')
      else if dr_amount_subunits r \<noteq> dk_amount_subunits t
      then Inl (ChainIntegrityError ''Transfer amount does not match token amount'')
      else if dr_prev_hash r \<noteq> previous_hash
      then Inl (ChainIntegrityError ''Transfer prev_hash does not link to prior chain_hash'')
      else if pos = 0 \<and> dr_hop_index r \<noteq> 0
      then Inl (ChainIntegrityError ''Genesis transfer must have hop_index 0'')
      else if 0 < pos \<and> dr_hop_index r \<noteq> previous_hop + 1 \<and> dr_hop_index r \<noteq> 1
      then Inl (ChainIntegrityError ''Transfer hop_index sequence is invalid'')
      else bind_res (dr_verify_signature K r)
        (\<lambda>_. integrity_loop K t (pos + 1) (dr_chain_hash r) (dr_hop_index r) rs))"

definition validate_integrity :: "dpc_crypto \<Rightarrow> dpc_record list \<Rightarrow> dpc_token \<Rightarrow> unit dres" where
  "validate_integrity K records t =
     bind_res (verify_issuer_signature K t) (\<lambda>_.
     if records = [] then Inl (ChainIntegrityError ''Transfer chain is empty'')
     else if max_offline_hops < dr_hop_index (last records) then Inl HopLimitExceededError
     else integrity_loop K t 0 genesis_hash (- 1) records)"

definition chain_tip :: "dpc_record list \<Rightarrow> dpc_record dres" where
  "chain_tip records =
     (if records = [] then Inl (ChainIntegrityError ''Transfer chain is empty'') else Inr (last records))"

definition chain_append :: "dpc_record \<Rightarrow> dpc_record list \<Rightarrow> dpc_record list dres" where
  "chain_append r records =
     (let expected_prev = (if records = [] then genesis_hash else dr_chain_hash (last records))
      in if dr_prev_hash r \<noteq> expected_prev
         then Inl (ChainIntegrityError ''Appended transfer prev_hash is invalid'')
         else if records \<noteq> [] \<and> dr_hop_index r \<noteq> dr_hop_index (last records) + 1 \<and> dr_hop_index r \<noteq> 1
         then Inl (ChainIntegrityError ''Appended transfer hop_index is invalid'')
         else Inr (records @ [r]))"

section \<open>What makes a record verify\<close>

text \<open>The record's hash is the one of its contents, and its sender signed the hash.\<close>

definition dr_content :: "dpc_record \<Rightarrow> bytes" where
  "dr_content r =
     dr_payload_bytes r @ (case from_hex (dr_prev_hash r) of None \<Rightarrow> [] | Some p \<Rightarrow> p)"

definition dr_hashed :: "dpc_record \<Rightarrow> bool" where
  "dr_hashed r \<longleftrightarrow> from_hex (dr_prev_hash r) \<noteq> None \<and> dr_chain_hash r = sha256_hex (dr_content r)"

lemma dr_hashed_iff: "dr_hashed r \<longleftrightarrow> compute_chain_hash r = Inr (dr_chain_hash r)"
  by (auto simp: dr_hashed_def compute_chain_hash_def dr_content_def split: option.splits)

lemma from_hex_sha256 [simp]: "from_hex (sha256_hex m) = Some (sha256 m)"
  by (simp add: sha256_hex_def)

definition dr_verified :: "dpc_crypto \<Rightarrow> dpc_record \<Rightarrow> bool" where
  "dr_verified K r \<longleftrightarrow>
     dr_hashed r \<and> sig_ok K (dr_sender_pubkey_hex r) (sha256 (dr_content r)) (dr_signature r)"

lemma dr_verify_signature_iff: "dr_verify_signature K r = Inr () \<longleftrightarrow> dr_verified K r"
  by (cases "from_hex (dr_prev_hash r)")
    (auto simp: dr_verify_signature_def compute_chain_hash_def dr_verified_def dr_hashed_def
      dr_content_def sig_ok_def)

definition record_with :: "string \<Rightarrow> int \<Rightarrow> string \<Rightarrow> string \<Rightarrow> int \<Rightarrow> string \<Rightarrow> dpc_record \<Rightarrow> bool" where
  "record_with tid hop spk rpk amount prev r \<longleftrightarrow>
     dr_token_id r = tid \<and> dr_hop_index r = hop \<and> dr_sender_pubkey_hex r = spk \<and>
     dr_receiver_pubkey_hex r = rpk \<and> dr_amount_subunits r = amount \<and> dr_prev_hash r = prev"

text \<open>A new record signed by its sender verifies.\<close>

lemma signed_record:
  assumes "dpc_crypto_ok K" and "dpc_keypair_ok K kp" and "from_hex prev = Some p"
  shows "\<exists>r. bind_res (lift_py (new_dpc_record tid hop (public_key_hex kp) rpk amount nonce prev))
      (dr_sign K (private_key_bytes kp)) = Inr r \<and>
    record_with tid hop (public_key_hex kp) rpk amount prev r \<and> dr_nonce r = nonce \<and> dr_verified K r"
proof -
  let ?r = "\<lparr>dr_token_id = tid, dr_hop_index = hop, dr_sender_pubkey_hex = public_key_hex kp,
      dr_receiver_pubkey_hex = rpk, dr_amount_subunits = amount, dr_nonce = nonce, dr_prev_hash = prev,
      dr_chain_hash = [], dr_signature = []\<rparr>"
  let ?h = "sha256 (dr_content ?r)"
  obtain s where "ed25519_sign K (private_key_bytes kp) ?h = Inr s" "sig_ok K (public_key_hex kp) ?h s"
    using ed25519_sign_verifies [OF assms(1,2)] by blast
  with assms(3) show ?thesis
    by (intro exI [of _ "?r\<lparr>dr_chain_hash := sha256_hex (dr_content ?r), dr_signature := s\<rparr>"])
      (simp add: new_dpc_record_def compute_chain_hash_def dr_sign_def record_with_def dr_verified_def
        dr_hashed_def dr_content_def dr_payload_bytes_def dr_payload_dict_def)
qed

section \<open>What validation means\<close>

abbreviation hop_follows :: "dpc_record \<Rightarrow> dpc_record \<Rightarrow> bool" where
  "hop_follows r s \<equiv> dr_hop_index s = dr_hop_index r + 1 \<or> dr_hop_index s = 1"

definition records_of :: "dpc_crypto \<Rightarrow> dpc_token \<Rightarrow> dpc_record list \<Rightarrow> bool" where
  "records_of K t rs \<longleftrightarrow>
     (\<forall>r \<in> set rs. dr_token_id r = dk_token_id t \<and> dr_amount_subunits r = dk_amount_subunits t \<and>
        dr_verified K r)"

lemma records_of_simps [simp]:
  "records_of K t []"
  "records_of K t (r # rs) \<longleftrightarrow> dr_token_id r = dk_token_id t \<and>
     dr_amount_subunits r = dk_amount_subunits t \<and> dr_verified K r \<and> records_of K t rs"
  "records_of K t (rs @ ss) \<longleftrightarrow> records_of K t rs \<and> records_of K t ss"
  by (auto simp: records_of_def)

lemma integrity_loop_Cons:
  "integrity_loop K t pos h hop (r # rs) = Inr () \<longleftrightarrow>
     dr_token_id r = dk_token_id t \<and> dr_amount_subunits r = dk_amount_subunits t \<and>
     dr_verified K r \<and> dr_prev_hash r = h \<and>
     (if pos = 0 then dr_hop_index r = 0 else dr_hop_index r = hop + 1 \<or> dr_hop_index r = 1) \<and>
     integrity_loop K t (pos + 1) (dr_chain_hash r) (dr_hop_index r) rs = Inr ()"
  by (auto simp: bind_res_Inr_iff dr_verify_signature_iff)

lemma integrity_loop_Inr:
  "integrity_loop K t pos h hop rs = Inr () \<longleftrightarrow>
     records_of K t rs \<and> linked dr_prev_hash dr_chain_hash h rs \<and>
     (rs \<noteq> [] \<longrightarrow> (if pos = 0 then dr_hop_index (hd rs) = 0
        else dr_hop_index (hd rs) = hop + 1 \<or> dr_hop_index (hd rs) = 1)) \<and>
     successively hop_follows rs"
proof (induction rs arbitrary: pos h hop)
  case (Cons r rs)
  show ?case unfolding integrity_loop_Cons Cons.IH by (cases rs) auto
qed simp

definition chain_valid :: "dpc_crypto \<Rightarrow> dpc_record list \<Rightarrow> dpc_token \<Rightarrow> bool" where
  "chain_valid K rs t \<longleftrightarrow>
     sig_ok K (dk_issuer_pubkey_hex t) (genesis_payload_bytes t) (dk_issuer_signature t) \<and> rs \<noteq> [] \<and>
     dr_hop_index (last rs) \<le> max_offline_hops \<and> records_of K t rs \<and>
     linked dr_prev_hash dr_chain_hash genesis_hash rs \<and>
     dr_hop_index (hd rs) = 0 \<and> successively hop_follows rs"

lemma validate_integrity_Inr: "validate_integrity K rs t = Inr () \<longleftrightarrow> chain_valid K rs t"
  by (auto simp: validate_integrity_def chain_valid_def bind_res_Inr_iff verify_issuer_signature_def
      ed25519_verify_cases integrity_loop_Inr)

lemma dr_verify_signature_Inl: "dr_verify_signature K r = Inl e \<Longrightarrow>
    from_hex (dr_prev_hash r) \<noteq> None \<Longrightarrow> is_cryptographic_error e"
  by (auto simp: dr_verify_signature_def compute_chain_hash_def ed25519_verify_cases split: if_splits)

lemma integrity_loop_Inl:
  "integrity_loop K t pos h hop rs = Inl e \<Longrightarrow> from_hex h \<noteq> None \<Longrightarrow> is_cryptographic_error e"
proof (induction rs arbitrary: pos h hop)
  case (Cons r rs)
  show ?case
  proof (cases "dr_verify_signature K r")
    case (Inl e')
    with Cons.prems dr_verify_signature_Inl [OF Inl] show ?thesis by (auto split: if_splits)
  next
    case (Inr u)
    then have "from_hex (dr_chain_hash r) \<noteq> None"
      by (simp add: dr_verify_signature_iff dr_verified_def dr_hashed_def)
    with Inr Cons.IH Cons.prems show ?thesis by (auto split: if_splits)
  qed
qed simp

lemma from_hex_genesis: "from_hex genesis_hash = Some (replicate 32 0)"
  by (simp add: genesis_hash_def numeral_eq_Suc is_ascii_space_def hex_value_def)

lemma validate_integrity_Inl:
  "validate_integrity K rs t = Inl e \<Longrightarrow> is_cryptographic_error e \<or> e = HopLimitExceededError"
  using integrity_loop_Inl [of K t 0 genesis_hash "- 1" rs e]
  by (auto simp: validate_integrity_def verify_issuer_signature_def ed25519_verify_cases
      from_hex_genesis split: if_splits)

lemma chain_valid_append:
  assumes "chain_valid K rs t" and "record_with (dk_token_id t) hop spk rpk (dk_amount_subunits t)
      (dr_chain_hash (last rs)) r" and "dr_verified K r"
    and "hop = dr_hop_index (last rs) + 1 \<or> hop = 1" and "hop \<le> max_offline_hops"
  shows "chain_valid K (rs @ [r]) t"
  using assms by (auto simp: chain_valid_def record_with_def linked_snoc successively_append_iff)

end
