(* ===== verification/DpcChain.thy ===== *)
theory DpcChain
  imports DpcToken
begin

text \<open>
  What \<open>src/dpc/token_model.py\<close> promises: the validation of a chain as a condition on its records,
  the records as a hash chain whose tip seals the history, and the JSON round trips of tokens,
  records and receipts.
\<close>

section \<open>Payloads determine their fields\<close>

lemma dr_payload_bytes_eq_iff:
  "dr_payload_bytes r = dr_payload_bytes s \<longleftrightarrow>
     dr_token_id r = dr_token_id s \<and> dr_hop_index r = dr_hop_index s \<and>
     dr_sender_pubkey_hex r = dr_sender_pubkey_hex s \<and>
     dr_receiver_pubkey_hex r = dr_receiver_pubkey_hex s \<and>
     dr_amount_subunits r = dr_amount_subunits s \<and> dr_nonce r = dr_nonce s"
  unfolding dr_payload_bytes_def dr_payload_dict_def by (auto dest: dumps_sorted_flat_inject)

lemma genesis_payload_bytes_eq_iff:
  "genesis_payload_bytes t = genesis_payload_bytes u \<longleftrightarrow>
     t\<lparr>dk_issuer_signature := []\<rparr> = u\<lparr>dk_issuer_signature := []\<rparr>"
proof -
  have "genesis_payload_bytes t = genesis_payload_bytes u \<longleftrightarrow>
      dk_token_id t = dk_token_id u \<and> dk_issuer_pubkey_hex t = dk_issuer_pubkey_hex u \<and>
      dk_amount_subunits t = dk_amount_subunits u \<and> dk_issued_at t = dk_issued_at u \<and>
      dk_ttl_expiry t = dk_ttl_expiry u"
    unfolding genesis_payload_bytes_def dk_genesis_dict_def by (auto dest: dumps_sorted_flat_inject)
  then show ?thesis by (cases t; cases u) simp
qed

section \<open>The hash chain\<close>

definition dr_unsigned :: "dpc_record \<Rightarrow> dpc_record" where
  "dr_unsigned r = r\<lparr>dr_signature := []\<rparr>"

text \<open>Hashed over its contents, with a previous hash of 32 bytes in the form \<open>hexdigest\<close> writes.\<close>

definition dr_linkable :: "dpc_record \<Rightarrow> bool" where
  "dr_linkable r \<longleftrightarrow> dr_hashed r \<and> (\<exists>p. length p = 32 \<and> dr_prev_hash r = to_hex p)"

lemma dr_content_inject:
  assumes "dr_linkable r" and "dr_linkable s" and "dr_content r = dr_content s"
  shows "dr_unsigned r = dr_unsigned s"
proof -
  obtain p q where p: "length p = 32" "dr_prev_hash r = to_hex p" and q: "length q = 32" "dr_prev_hash s = to_hex q"
    using assms(1,2) by (auto simp: dr_linkable_def)
  have "dr_payload_bytes r @ p = dr_payload_bytes s @ q"
    using assms(3) p(2) q(2) by (simp add: dr_content_def)
  then have "dr_payload_bytes r = dr_payload_bytes s" "p = q" using p(1) q(1) by simp_all
  moreover have "dr_chain_hash r = dr_chain_hash s"
    using assms by (simp add: dr_linkable_def dr_hashed_def)
  ultimately show ?thesis
    using p(2) q(2) unfolding dr_payload_bytes_eq_iff dr_unsigned_def by (cases r; cases s) simp
qed

interpretation dr_chain: hash_chain genesis_hash dr_prev_hash dr_chain_hash dr_content dr_unsigned dr_linkable
proof unfold_locales
  fix r s :: dpc_record
  show "dr_linkable r \<Longrightarrow> dr_linkable s \<Longrightarrow> dr_content r = dr_content s \<Longrightarrow> dr_unsigned r = dr_unsigned s"
    by (rule dr_content_inject)
  show "dr_unsigned r = dr_unsigned s \<Longrightarrow> dr_prev_hash r = dr_prev_hash s"
    by (cases r; cases s) (simp add: dr_unsigned_def)
  show "dr_linkable r \<Longrightarrow> dr_linkable s \<Longrightarrow> dr_chain_hash r = dr_chain_hash s \<Longrightarrow>
      sha256 (dr_content r) = sha256 (dr_content s)"
    by (simp add: dr_linkable_def dr_hashed_def sha256_hex_eq_iff)
qed

lemma linked_linkable:
  "linked dr_prev_hash dr_chain_hash (to_hex p) rs \<Longrightarrow> length p = 32 \<Longrightarrow> \<forall>r \<in> set rs. dr_hashed r \<Longrightarrow>
     \<forall>r \<in> set rs. dr_linkable r"
proof (induction rs arbitrary: p)
  case (Cons r rs)
  have "dr_chain_hash r = to_hex (sha256 (dr_content r))"
    using Cons.prems(3) by (simp add: dr_hashed_def sha256_hex_def)
  then have "linked dr_prev_hash dr_chain_hash (to_hex (sha256 (dr_content r))) rs"
    using Cons.prems(1) by simp
  moreover have "length (sha256 (dr_content r)) = 32" by simp
  ultimately have "\<forall>r \<in> set rs. dr_linkable r" using Cons by auto
  with Cons.prems show ?case by (auto simp: dr_linkable_def)
qed simp

lemma genesis_hash_hex: "genesis_hash = to_hex (replicate 32 0)"
proof -
  have "to_hex (replicate n 0) = replicate (2 * n) (CHR ''0'')" for n
    by (induction n) (simp_all add: hex_byte_def hex_digit_def)
  then show ?thesis by (simp add: genesis_hash_def)
qed

lemma chain_valid_linkable: "chain_valid K rs t \<Longrightarrow> \<forall>r \<in> set rs. dr_linkable r"
  using linked_linkable [of "replicate 32 0" rs]
  by (auto simp: chain_valid_def records_of_def dr_verified_def genesis_hash_hex)

section \<open>JSON round trips\<close>

lemma dk_to_dict_ok:
  "list_all (\<lambda>(k, v). json_flat v) (dk_to_dict t)" "distinct (map fst (dk_to_dict t))"
  by (simp_all add: dk_to_dict_def dk_genesis_dict_def)

lemma dr_to_dict_ok:
  "list_all (\<lambda>(k, v). json_flat v) (dr_to_dict r)" "distinct (map fst (dr_to_dict r))"
  by (simp_all add: dr_to_dict_def dr_payload_dict_def)

lemmas dk_dict = dict_of_sorted [OF dk_to_dict_ok]
lemmas dr_dict = dict_of_sorted [OF dr_to_dict_ok]

lemma dk_from_sorted [simp]: "dk_from_kwargs (JObj (sort_key fst (dk_to_dict t))) = Inr t"
proof -
  have "list_all (\<lambda>(k, _). k \<in> {''token_id'', ''issuer_pubkey_hex'', ''amount_subunits'',
       ''issued_at'', ''ttl_expiry'', ''issuer_signature''}) (sort_key fst (dk_to_dict t))"
    by (simp add: list_all_iff) (simp add: dk_to_dict_def dk_genesis_dict_def)
  then show ?thesis
    by (simp add: dk_from_kwargs_def required_def dk_dict(2))
      (simp add: dk_to_dict_def dk_genesis_dict_def)
qed

lemma dr_from_sorted:
  assumes "from_hex (dr_prev_hash r) \<noteq> None"
  shows "dr_from_dict (JObj (sort_key fst (dr_to_dict r))) = Inr r"
  using assms
  by (simp add: dr_from_dict_def json_field_def dr_dict(2))
    (auto simp: dr_to_dict_def dr_payload_dict_def new_dpc_record_def compute_chain_hash_def)

lemma dk_json_roundtrip: "dk_from_json (dk_to_json t) = Inr t"
  by (simp add: dk_from_json_def dk_to_json_def parse_json_def json_sorted_roundtrip [OF dk_dict(3)] dk_dict(1)
      del: sort_keys.simps)

definition records_hex :: "dpc_record list \<Rightarrow> bool" where
  "records_hex rs \<longleftrightarrow> (\<forall>r \<in> set rs. from_hex (dr_prev_hash r) \<noteq> None)"

lemma dr_from_sorted_list:
  "records_hex rs \<Longrightarrow> map_res dr_from_dict (map (\<lambda>r. JObj (sort_key fst (dr_to_dict r))) rs) = Inr rs"
  unfolding records_hex_def by (induction rs) (simp_all add: dr_from_sorted)

text \<open>The data of a receipt after parsing, with all objects in key order.\<close>

definition rc_sorted :: "receipt \<Rightarrow> json" where
  "rc_sorted c = JObj
     [(''final_hop'', JObj (sort_key fst (dr_to_dict (rc_final_hop c)))),
      (''full_chain'', JList (map (\<lambda>r. JObj (sort_key fst (dr_to_dict r))) (rc_full_chain c))),
      (''is_redeemed'', JBool (rc_is_redeemed c)),
      (''received_at'', JInt (rc_received_at c)),
      (''token'', (case rc_token c of None \<Rightarrow> JNull | Some t \<Rightarrow> JObj (sort_key fst (dk_to_dict t)))),
      (''token_id'', JStr (rc_token_id c))]"

lemma rc_json_sorted: "json_wf (rc_json c)" "sort_keys (rc_json c) = rc_sorted c"
proof -
  let ?final = "JObj (dr_to_dict (rc_final_hop c))"
    and ?chain = "JList (map (\<lambda>r. JObj (dr_to_dict r)) (rc_full_chain c))"
    and ?token = "case rc_token c of None \<Rightarrow> JNull | Some t \<Rightarrow> JObj (dk_to_dict t)"
  have wfs: "json_wf ?final" "json_wf ?chain" "json_wf ?token"
    using dr_dict(3) dk_dict(3) by (auto simp: list_all_iff simp del: json_wf.simps(2) split: option.split)
  have "json_wf (JObj [(''token_id'', JStr a), (''received_at'', JInt b), (''final_hop'', x),
      (''full_chain'', y), (''is_redeemed'', JBool d), (''token'', z)])"
    if "json_wf x" "json_wf y" "json_wf z" for a b d x y z
    using that by simp
  from this [OF wfs] show "json_wf (rc_json c)" by (simp only: rc_json_def)
  have outer: "sort_keys (JObj [(''token_id'', JStr a), (''received_at'', JInt b), (''final_hop'', x),
      (''full_chain'', y), (''is_redeemed'', JBool d), (''token'', z)]) =
    JObj [(''final_hop'', sort_keys x), (''full_chain'', sort_keys y), (''is_redeemed'', JBool d),
      (''received_at'', JInt b), (''token'', sort_keys z), (''token_id'', JStr a)]" for a b d x y z
    by (simp add: less_eq_list_code less_list_code)
  have "sort_keys ?chain = JList (map (\<lambda>r. JObj (sort_key fst (dr_to_dict r))) (rc_full_chain c))"
    using dr_dict(1) by (simp del: sort_keys.simps(2))
  moreover have "sort_keys ?token =
      (case rc_token c of None \<Rightarrow> JNull | Some t \<Rightarrow> JObj (sort_key fst (dk_to_dict t)))"
    using dk_dict(1) by (simp del: sort_keys.simps(2) split: option.split)
  ultimately show "sort_keys (rc_json c) = rc_sorted c"
    unfolding rc_json_def outer dr_dict(1) rc_sorted_def by simp
qed

lemma rc_to_json_parse: "parse_json (rc_to_json c) = Inr (rc_sorted c)"
  by (simp add: rc_to_json_def parse_dumps_sorted rc_json_sorted)

lemma rc_from_sorted:
  assumes "from_hex (dr_prev_hash (rc_final_hop c)) \<noteq> None" and "records_hex (rc_full_chain c)"
  shows "rc_from_data (rc_sorted c) = Inr c"
  using dr_from_sorted [OF assms(1)] dr_from_sorted_list [OF assms(2)]
  by (cases "rc_token c") (simp_all add: rc_from_data_def rc_sorted_def json_field_def)

section \<open>A chain for the witnesses\<close>

definition demo_kp :: "8 word \<Rightarrow> dpc_keypair" where
  "demo_kp k = keypair_generate toy_crypto (replicate 32 k)"

lemma demo_kp_ok [simp]: "dpc_keypair_ok toy_crypto (demo_kp k)"
  by (simp add: demo_kp_def dpc_keypair_ok_def keypair_generate_def)

text \<open>A token of ten subunits issued by key \<open>k\<close> at the epoch.\<close>

definition demo_dk :: "8 word \<Rightarrow> string \<Rightarrow> dpc_token" where
  "demo_dk k tid = (let t = mint_unsigned tid 0 (public_key_hex (demo_kp k)) 10
     in t\<lparr>dk_issuer_signature := to_hex (replicate 32 k @ genesis_payload_bytes t)\<rparr>)"

lemma genesis_payload_unsigned [simp]:
  "genesis_payload_bytes (t\<lparr>dk_issuer_signature := s\<rparr>) = genesis_payload_bytes t"
  by (simp add: genesis_payload_bytes_def dk_genesis_dict_def)

lemma demo_dk_sel [simp]:
  "dk_token_id (demo_dk k tid) = tid" "dk_amount_subunits (demo_dk k tid) = 10"
  "dk_issued_at (demo_dk k tid) = 0" "dk_ttl_expiry (demo_dk k tid) = 604800"
  "dk_issuer_pubkey_hex (demo_dk k tid) = public_key_hex (demo_kp k)"
  by (simp_all add: demo_dk_def mint_unsigned_def token_ttl_seconds_def Let_def)

lemma demo_dk_signed [simp]:
  "sig_ok toy_crypto (public_key_hex (demo_kp k)) (genesis_payload_bytes (demo_dk k tid))
     (dk_issuer_signature (demo_dk k tid))"
  by (simp add: demo_dk_def Let_def sig_ok_def ed25519_verify_def public_key_hex_def demo_kp_def
      keypair_generate_def)

lemma genesis_record_valid:
  assumes "sig_ok K (dk_issuer_pubkey_hex t) (genesis_payload_bytes t) (dk_issuer_signature t)"
    and "record_with (dk_token_id t) 0 spk rpk (dk_amount_subunits t) genesis_hash r" and "dr_verified K r"
  shows "chain_valid K [r] t"
  using assms by (simp add: chain_valid_def record_with_def max_offline_hops_def)

lemma demo_chain:
  obtains r where "record_with ''t1'' 0 (public_key_hex (demo_kp 1)) (public_key_hex (demo_kp 2)) 10 genesis_hash r"
    "dr_verified toy_crypto r" "chain_valid toy_crypto [r] (demo_dk 1 ''t1'')"
proof -
  obtain r where r: "record_with ''t1'' 0 (public_key_hex (demo_kp 1)) (public_key_hex (demo_kp 2)) 10 genesis_hash r"
    "dr_verified toy_crypto r"
    using signed_record [OF toy_crypto_ok demo_kp_ok from_hex_genesis] by metis
  with genesis_record_valid [of toy_crypto "demo_dk 1 ''t1''"] that show thesis by simp
qed

section \<open>Properties\<close>

text \<open>
  C7: Validation of a chain of records against a token, their fields of the annotated types: it
  succeeds exactly when the issuer named in the token signed it, the chain is not empty, every record
  names the token and its amount, carries the hash of its contents, is signed by its sender and
  linked to the record before it, the hop indexes start at 0 and go up by one or restart at 1, and
  the last is at most seven. Otherwise it raises a cryptographic error or the hop limit error.
  Neither clock nor expiry is looked at: the \<open>TokenExpiredError\<close> of the docstring is never raised, and
  an expired token validates, as in the witness.
\<close>
theorem validate_integrity_spec:
  "case validate_integrity K rs t of
      Inl e \<Rightarrow> \<not> chain_valid K rs t \<and> (is_cryptographic_error e \<or> e = HopLimitExceededError) \<and>
        (\<forall>msg. e \<noteq> TokenExpiredError msg)
    | Inr _ \<Rightarrow>
        sig_ok K (dk_issuer_pubkey_hex t) (genesis_payload_bytes t) (dk_issuer_signature t) \<and>
        rs \<noteq> [] \<and> dr_hop_index (last rs) \<le> 7 \<and> dr_hop_index (hd rs) = 0 \<and>
        successively hop_follows rs \<and> linked dr_prev_hash dr_chain_hash genesis_hash rs \<and>
        (\<forall>r \<in> set rs. dr_token_id r = dk_token_id t \<and> dr_amount_subunits r = dk_amount_subunits t \<and>
           dr_chain_hash r = sha256_hex (dr_content r) \<and>
           sig_ok K (dr_sender_pubkey_hex r) (sha256 (dr_content r)) (dr_signature r))"
proof (cases "validate_integrity K rs t")
  case (Inl e)
  with validate_integrity_Inr [of K rs t] validate_integrity_Inl [OF Inl] show ?thesis by auto
next
  case (Inr u)
  then have "chain_valid K rs t" using validate_integrity_Inr [of K rs t] by simp
  with Inr show ?thesis
    by (auto simp: chain_valid_def records_of_def dr_verified_def dr_hashed_def max_offline_hops_def)
qed

lemma validate_integrity_spec_witness:
  "\<exists>r now. dk_is_expired now None (demo_dk 1 ''t1'') = Inr True \<and>
     validate_integrity toy_crypto [r] (demo_dk 1 ''t1'') = Inr () \<and>
     dr_chain_hash r = sha256_hex (dr_content r)"
proof -
  obtain r where "chain_valid toy_crypto [r] (demo_dk 1 ''t1'')" using demo_chain by blast
  then have "validate_integrity toy_crypto [r] (demo_dk 1 ''t1'') = Inr ()"
    by (simp add: validate_integrity_Inr)
  moreover have "dk_is_expired (max (dk_issued_at (demo_dk 1 ''t1'')) (dk_ttl_expiry (demo_dk 1 ''t1'')) + 1) None
      (demo_dk 1 ''t1'') = Inr True" by (simp add: dk_is_expired_def)
  ultimately show ?thesis using validate_integrity_spec [of toy_crypto "[r]" "demo_dk 1 ''t1''"] by auto
qed

text \<open>
  The tip seals the history: two chains that validate, for whatever tokens, and whose last
  records agree up to the signature agree in all records up to signatures, unless two of their records are a
  SHA-256 collision or some record hashes to the all-zero genesis value.
\<close>
theorem chain_tip_seals_history:
  assumes "validate_integrity K rs t = Inr ()" and "validate_integrity K ss u = Inr ()"
    and "(last rs)\<lparr>dr_signature := []\<rparr> = (last ss)\<lparr>dr_signature := []\<rparr>"
  shows "map (\<lambda>r. r\<lparr>dr_signature := []\<rparr>) rs = map (\<lambda>r. r\<lparr>dr_signature := []\<rparr>) ss \<or>
    (\<exists>r \<in> set rs. \<exists>s \<in> set ss. dr_content r \<noteq> dr_content s \<and> sha256 (dr_content r) = sha256 (dr_content s)) \<or>
    (\<exists>r \<in> set rs \<union> set ss. sha256 (dr_content r) = replicate 32 0)"
proof -
  have valid: "chain_valid K rs t" "chain_valid K ss u"
    using assms(1,2) by (simp_all add: validate_integrity_Inr)
  note wf = chain_valid_linkable [OF valid(1)] chain_valid_linkable [OF valid(2)]
  have "dr_chain_hash r = genesis_hash \<longleftrightarrow> sha256 (dr_content r) = replicate 32 0"
    if "r \<in> set rs \<union> set ss" for r
    using that wf by (auto simp: dr_linkable_def dr_hashed_def sha256_hex_def genesis_hash_hex)
  with dr_chain.last_determines_chain [of rs ss] valid wf assms(3) show ?thesis
    unfolding chain_valid_def collision_def dr_unsigned_def by blast
qed

lemma chain_tip_seals_history_witness:
  "\<exists>r. validate_integrity toy_crypto [r] (demo_dk 1 ''t1'') = Inr () \<and>
     (map (\<lambda>r. r\<lparr>dr_signature := []\<rparr>) [r] = map (\<lambda>r. r\<lparr>dr_signature := []\<rparr>) [r] \<or>
      (\<exists>s \<in> {r}. \<exists>s' \<in> {r}. dr_content s \<noteq> dr_content s' \<and> sha256 (dr_content s) = sha256 (dr_content s')) \<or>
      (\<exists>s \<in> {r}. sha256 (dr_content s) = replicate 32 0))"
proof -
  obtain r where "chain_valid toy_crypto [r] (demo_dk 1 ''t1'')" using demo_chain by blast
  then have "validate_integrity toy_crypto [r] (demo_dk 1 ''t1'') = Inr ()"
    by (simp add: validate_integrity_Inr)
  with chain_tip_seals_history [OF this this refl] show ?thesis by auto
qed

text \<open>
  A receipt survives its JSON form: whatever its token, flags and times, reading back what was
  written gives the same receipt, provided the previous hashes of its records are hexadecimal (a
  record is rebuilt by its constructor, which decodes them).
\<close>
lemma receipt_json_roundtrip:
  assumes "\<forall>r \<in> insert (rc_final_hop c) (set (rc_full_chain c)). from_hex (dr_prev_hash r) \<noteq> None"
  shows "rc_from_json (rc_to_json c) = Inr c"
proof -
  have "records_hex (rc_full_chain c)" using assms by (simp add: records_hex_def)
  from rc_from_sorted [OF _ this] assms show ?thesis by (simp add: rc_from_json_def rc_to_json_parse)
qed

lemma receipt_json_roundtrip_witness:
  "\<exists>r. rc_from_json (rc_to_json \<lparr>rc_token_id = ''t1'', rc_received_at = 5, rc_final_hop = r,
       rc_full_chain = [r], rc_is_redeemed = False, rc_token = Some (demo_dk 1 ''t1'')\<rparr>) =
     Inr \<lparr>rc_token_id = ''t1'', rc_received_at = 5, rc_final_hop = r, rc_full_chain = [r],
       rc_is_redeemed = False, rc_token = Some (demo_dk 1 ''t1'')\<rparr>"
proof -
  obtain r where "dr_verified toy_crypto r" using demo_chain by blast
  then have "from_hex (dr_prev_hash r) \<noteq> None" by (simp add: dr_verified_def dr_hashed_def)
  then show ?thesis
    by (intro exI [of _ r] receipt_json_roundtrip) simp
qed

section \<open>A gap\<close>

text \<open>
  Validation never compares a sender with the receiver before it, nor the first sender with the
  issuer. Whoever sees a signed token can make a chain of one record that hands the token to
  itself, and the chain validates.
\<close>

lemma anyone_takes_over:
  assumes "dpc_crypto_ok K" and "dpc_keypair_ok K any_kp"
    and "sig_ok K (dk_issuer_pubkey_hex t) (genesis_payload_bytes t) (dk_issuer_signature t)"
  shows "\<exists>r. dr_sender_pubkey_hex r = public_key_hex any_kp \<and>
    dr_receiver_pubkey_hex r = public_key_hex any_kp \<and> validate_integrity K [r] t = Inr ()"
proof -
  obtain r where r: "record_with (dk_token_id t) 0 (public_key_hex any_kp) (public_key_hex any_kp)
      (dk_amount_subunits t) genesis_hash r" "dr_verified K r"
    using signed_record [OF assms(1,2) from_hex_genesis] by metis
  from genesis_record_valid [OF assms(3) r] r(1) show ?thesis
    by (auto simp: validate_integrity_Inr record_with_def)
qed

end
