(* ===== verification/DpcWallet.thy ===== *)
theory DpcWallet
  imports DpcChain PyDatetime
begin

text \<open>
  \<open>src/dpc/wallet.py\<close>: the register of unspent tokens and the wallet on top of it. Clock readings,
  nonces and token identifiers are arguments. An operation that changes the register and can raise
  returns the wallet beside the result, so that what is rolled back and what is not can be seen.
  The lemmas give the effect of every operation, an invariant of reachable wallets, the rollback of
  a failed payment, and the delivery of an honest one.
\<close>

section \<open>The register\<close>

record utr_register =
  ur_wallet_id :: string
  ur_entries :: "(string, receipt) dict"
  ur_spent_token_ids :: "string set"
  ur_seen_nonces :: "string set"

definition new_register :: "string \<Rightarrow> utr_register" where
  "new_register wallet_id =
     \<lparr>ur_wallet_id = wallet_id, ur_entries = [], ur_spent_token_ids = {}, ur_seen_nonces = {}\<rparr>"

definition receipt_amount :: "receipt \<Rightarrow> int" where
  "receipt_amount c =
     (case rc_token c of
        None \<Rightarrow> dr_amount_subunits (rc_final_hop c) | Some t \<Rightarrow> dk_amount_subunits t)"

definition total_balance :: "utr_register \<Rightarrow> int" where
  "total_balance u = dict_total receipt_amount (ur_entries u)"

text \<open>\<open>full_chain[-1].nonce\<close> of an empty chain raises \<open>IndexError\<close>.\<close>

definition last_nonce :: "receipt \<Rightarrow> string dres" where
  "last_nonce c =
     (if rc_full_chain c = [] then Inl (PyError IndexError)
      else Inr (dr_nonce (last (rc_full_chain c))))"

definition add_receipt :: "receipt \<Rightarrow> utr_register \<Rightarrow> utr_register dres" where
  "add_receipt c u =
     (let is_returning_token = rc_token_id c \<in> ur_spent_token_ids u
      in if rc_token_id c \<in> dict_keys (ur_entries u)
         then Inl (DoubleSpendError ''Token is already unspent in this wallet'')
         else
           bind_res (if is_returning_token
             then bind_res (last_nonce c) (\<lambda>n. Inr (n \<in> ur_seen_nonces u)) else Inr False) (\<lambda>spent.
           if spent then Inl (DoubleSpendError ''Token was already spent by this wallet'')
           else
             let incoming_nonces = dr_nonce ` set (rc_full_chain c)
             in bind_res (if is_returning_token
                  then bind_res (last_nonce c) (\<lambda>n. Inr ({n} \<inter> ur_seen_nonces u))
                  else Inr (ur_seen_nonces u \<inter> incoming_nonces)) (\<lambda>nonce_conflicts.
                if nonce_conflicts \<noteq> {} then Inl (DoubleSpendError ''Replay attack: nonce already seen'')
                else if max_wallet_balance_subunits < total_balance u + receipt_amount c
                then Inl WalletBalanceCapError
                else Inr (u\<lparr>ur_entries := AList.update (rc_token_id c) c (ur_entries u),
                       ur_spent_token_ids := ur_spent_token_ids u - {rc_token_id c},
                       ur_seen_nonces := ur_seen_nonces u \<union> incoming_nonces\<rparr>))))"

definition ur_spend :: "string \<Rightarrow> utr_register \<Rightarrow> (receipt \<times> utr_register) dres" where
  "ur_spend token_id u =
     (case map_of (ur_entries u) token_id of
        None \<Rightarrow> Inl (WalletStateError ''Token is not available in this wallet'')
      | Some c \<Rightarrow>
          Inr (c, u\<lparr>ur_entries := AList.delete token_id (ur_entries u),
            ur_spent_token_ids := insert token_id (ur_spent_token_ids u)\<rparr>))"

definition restore_unspent :: "receipt \<Rightarrow> utr_register \<Rightarrow> utr_register" where
  "restore_unspent c u =
     u\<lparr>ur_entries := AList.update (rc_token_id c) c (ur_entries u),
       ur_spent_token_ids := ur_spent_token_ids u - {rc_token_id c}\<rparr>"

definition list_tokens :: "utr_register \<Rightarrow> string list" where
  "list_tokens u = map fst (ur_entries u)"

definition get_receipt :: "string \<Rightarrow> utr_register \<Rightarrow> receipt dres" where
  "get_receipt token_id u =
     of_option (WalletStateError ''Token is not available in this wallet'') (map_of (ur_entries u) token_id)"

section \<open>The wallet\<close>

record dpc_wallet =
  dw_wallet_id :: string
  dw_keypair :: dpc_keypair
  dw_utr :: utr_register

definition new_dpc_wallet :: "string \<Rightarrow> dpc_keypair \<Rightarrow> dpc_wallet" where
  "new_dpc_wallet wallet_id kp =
     \<lparr>dw_wallet_id = wallet_id, dw_keypair = kp, dw_utr = new_register wallet_id\<rparr>"

abbreviation dw_pk :: "dpc_wallet \<Rightarrow> string" where
  "dw_pk w \<equiv> public_key_hex (dw_keypair w)"

text \<open>\<open>clock1\<close> is read by \<open>is_expired\<close>, \<open>clock2\<close> for \<open>received_at\<close>.\<close>

definition dw_receive_token ::
  "dpc_crypto \<Rightarrow> int \<Rightarrow> int \<Rightarrow> dpc_token \<Rightarrow> dpc_record list \<Rightarrow> dpc_wallet \<Rightarrow> (receipt \<times> dpc_wallet) dres" where
  "dw_receive_token K clock1 clock2 t chain w =
     bind_res (dk_is_expired clock1 None t) (\<lambda>expired.
     if expired then Inl (TokenExpiredError ''Token has expired'')
     else
       bind_res (validate_integrity K chain t) (\<lambda>_.
       if dr_receiver_pubkey_hex (last chain) \<noteq> dw_pk w
       then Inl (WalletStateError ''Token not addressed to this wallet'')
       else
         let c = \<lparr>rc_token_id = dk_token_id t, rc_received_at = clock2, rc_final_hop = last chain,
               rc_full_chain = chain, rc_is_redeemed = False, rc_token = Some t\<rparr>
         in bind_res (add_receipt c (dw_utr w)) (\<lambda>u. Inr (c, w\<lparr>dw_utr := u\<rparr>))))"

definition require_token :: "receipt \<Rightarrow> dpc_token dres" where
  "require_token c = of_option (WalletStateError ''Receipt does not contain token payload'') (rc_token c)"

text \<open>The \<open>try\<close> block of \<open>send_token\<close>; an empty chain is refused by the validation.\<close>

definition send_body ::
  "dpc_crypto \<Rightarrow> int \<Rightarrow> string \<Rightarrow> dpc_keypair \<Rightarrow> receipt \<Rightarrow> string \<Rightarrow> (dpc_token \<times> dpc_record list) dres" where
  "send_body K clock nonce kp c receiver_pubkey_hex =
     bind_res (require_token c) (\<lambda>t.
     bind_res (dk_is_expired clock None t) (\<lambda>expired.
     if expired then Inl (TokenExpiredError ''Token has expired'')
     else
       let amount = dr_amount_subunits (rc_final_hop c); existing_chain = rc_full_chain c
       in if max_single_tx_subunits < amount then Inl TransactionValueCapError
          else
            bind_res (validate_integrity K existing_chain t) (\<lambda>_.
            let prior_owners = dr_sender_pubkey_hex ` set existing_chain;
                effective_hop_index = (if receiver_pubkey_hex \<in> prior_owners then 1
                  else dr_hop_index (last existing_chain) + 1)
            in if max_offline_hops < effective_hop_index then Inl HopLimitExceededError
               else
                 bind_res (lift_py (new_dpc_record (dk_token_id t) effective_hop_index
                   (public_key_hex kp) receiver_pubkey_hex amount nonce
                   (if existing_chain = [] then genesis_hash else dr_chain_hash (last existing_chain))))
                   (\<lambda>new_record.
                 bind_res (dr_sign K (private_key_bytes kp) new_record) (\<lambda>signed.
                 Inr (t, existing_chain @ [signed]))))))"

definition dw_send_token ::
  "dpc_crypto \<Rightarrow> int \<Rightarrow> string \<Rightarrow> string \<Rightarrow> string \<Rightarrow> dpc_wallet \<Rightarrow>
     (dpc_token \<times> dpc_record list) dres \<times> dpc_wallet" where
  "dw_send_token K clock nonce token_id receiver_pubkey_hex w =
     (case ur_spend token_id (dw_utr w) of
        Inl e \<Rightarrow> (Inl e, w)
      | Inr (c, u) \<Rightarrow>
          (case send_body K clock nonce (dw_keypair w) c receiver_pubkey_hex of
             Inl e \<Rightarrow>
               (Inl e, w\<lparr>dw_utr := if is_dpc_error e then restore_unspent c u else u\<rparr>)
           | Inr out \<Rightarrow> (Inr out, w\<lparr>dw_utr := u\<rparr>)))"

definition make_split_record ::
  "dpc_crypto \<Rightarrow> string \<Rightarrow> dpc_keypair \<Rightarrow> dpc_token \<Rightarrow> string \<Rightarrow> dpc_record dres" where
  "make_split_record K nonce kp t receiver_pubkey_hex =
     bind_res (lift_py (new_dpc_record (dk_token_id t) 0 (public_key_hex kp) receiver_pubkey_hex
       (dk_amount_subunits t) nonce genesis_hash)) (dr_sign K (private_key_bytes kp))"

text \<open>The fresh identifiers and nonces of a swap and its clock reading.\<close>

record swap_stamp =
  sw_payment_id :: string
  sw_change_id :: string
  sw_payment_nonce :: string
  sw_change_nonce :: string
  sw_now :: int

type_synonym swap_result = "dpc_token \<times> dpc_record list \<times> dpc_token \<times> dpc_record list"

definition swap_body ::
  "dpc_crypto \<Rightarrow> swap_stamp \<Rightarrow> dpc_keypair \<Rightarrow> receipt \<Rightarrow> int \<Rightarrow> string \<Rightarrow> string \<Rightarrow> swap_result dres" where
  "swap_body K st kp c amount_to_send receiver_pubkey_hex issuer_pubkey_hex =
     bind_res (require_token c) (\<lambda>original.
     if amount_to_send \<le> 0 \<or> dk_amount_subunits original \<le> amount_to_send then Inl InsufficientFundsError
     else
       let change_amount = dk_amount_subunits original - amount_to_send
       in if max_single_tx_subunits < amount_to_send \<or> max_single_tx_subunits < change_amount
          then Inl TransactionValueCapError
          else
            let payment = \<lparr>dk_token_id = sw_payment_id st, dk_issuer_pubkey_hex = issuer_pubkey_hex,
                  dk_amount_subunits = amount_to_send, dk_issued_at = sw_now st,
                  dk_ttl_expiry = dk_ttl_expiry original, dk_issuer_signature = []\<rparr>;
                change = \<lparr>dk_token_id = sw_change_id st, dk_issuer_pubkey_hex = issuer_pubkey_hex,
                  dk_amount_subunits = change_amount, dk_issued_at = sw_now st,
                  dk_ttl_expiry = dk_ttl_expiry original, dk_issuer_signature = []\<rparr>
            in bind_res (keypair_sign K kp (genesis_payload_bytes payment)) (\<lambda>payment_sig.
               bind_res (keypair_sign K kp (genesis_payload_bytes change)) (\<lambda>change_sig.
               let payment = payment\<lparr>dk_issuer_signature := to_hex payment_sig\<rparr>;
                   change = change\<lparr>dk_issuer_signature := to_hex change_sig\<rparr>
               in bind_res (make_split_record K (sw_payment_nonce st) kp payment receiver_pubkey_hex) (\<lambda>pr.
                  bind_res (make_split_record K (sw_change_nonce st) kp change (public_key_hex kp)) (\<lambda>cr.
                  Inr (payment, [pr], change, [cr]))))))"

definition swap_change ::
  "dpc_crypto \<Rightarrow> swap_stamp \<Rightarrow> string \<Rightarrow> int \<Rightarrow> string \<Rightarrow> string \<Rightarrow> dpc_wallet \<Rightarrow> swap_result dres \<times> dpc_wallet" where
  "swap_change K st token_id amount_to_send receiver_pubkey_hex issuer_pubkey_hex w =
     (case ur_spend token_id (dw_utr w) of
        Inl e \<Rightarrow> (Inl e, w)
      | Inr (c, u) \<Rightarrow>
          (case swap_body K st (dw_keypair w) c amount_to_send receiver_pubkey_hex issuer_pubkey_hex of
             Inl e \<Rightarrow>
               (Inl e, w\<lparr>dw_utr := if e = InsufficientFundsError \<or> e = TransactionValueCapError
                 then restore_unspent c u else u\<rparr>)
           | Inr out \<Rightarrow> (Inr out, w\<lparr>dw_utr := u\<rparr>)))"

definition get_balance :: "dpc_wallet \<Rightarrow> int" where
  "get_balance w = total_balance (dw_utr w)"

text \<open>\<open>format(n, ",")\<close>\<close>

fun thousands :: "nat \<Rightarrow> string" where
  "thousands n = (if n < 1000 then dec_nat n else thousands (n div 1000) @ '','' @ pad 3 (n mod 1000))"

declare thousands.simps [simp del]

definition get_balance_etb :: "dpc_wallet \<Rightarrow> string" where
  "get_balance_etb w =
     (let balance = get_balance w; q = balance div subunits_per_etb
      in (if q < 0 then ''-'' else []) @ thousands (nat \<bar>q\<bar>) @ ''.'' @
           pad 2 (nat (balance mod subunits_per_etb)) @ '' ETB'')"

section \<open>The register is put back\<close>

lemma restore_dict:
  assumes "dict_wf d" and "map_of d k = Some v"
  shows "map_of (AList.update k v (AList.delete k d)) = map_of d"
    and "set (AList.update k v (AList.delete k d)) = set d"
    and "dict_wf (AList.update k v (AList.delete k d))"
    and "dict_total f (AList.update k v (AList.delete k d)) = dict_total f d"
proof -
  let ?d = "AList.update k v (AList.delete k d)"
  show wf: "dict_wf ?d" using assms(1) by (simp add: dict_simps)
  show m: "map_of ?d = map_of d" using assms(2) by (auto simp: dict_simps)
  show "set ?d = set d" using wf assms(1) m by (metis map_of_eqI set_map_of_compr)
  show "dict_total f ?d = dict_total f d"
    using assms by (simp add: dict_total_update dict_total_delete dict_simps del: map_of_eq_Some_iff)
qed

text \<open>Two registers that no operation tells apart: the same but for the order of the entries.\<close>

definition same_register :: "utr_register \<Rightarrow> utr_register \<Rightarrow> bool" where
  "same_register u v \<longleftrightarrow>
     map_of (ur_entries u) = map_of (ur_entries v) \<and> set (ur_entries u) = set (ur_entries v) \<and>
     total_balance u = total_balance v \<and> ur_spent_token_ids u = ur_spent_token_ids v \<and>
     ur_seen_nonces u = ur_seen_nonces v \<and> ur_wallet_id u = ur_wallet_id v"

lemma same_register_refl [simp]: "same_register u u"
  by (simp add: same_register_def)

lemma ur_spend_Inr:
  "ur_spend tid u = Inr (c, u') \<longleftrightarrow> map_of (ur_entries u) tid = Some c \<and>
     u' = u\<lparr>ur_entries := AList.delete tid (ur_entries u),
       ur_spent_token_ids := insert tid (ur_spent_token_ids u)\<rparr>"
  by (auto simp: ur_spend_def split: option.splits)

lemma ur_spend_Inl: "ur_spend tid u = Inl e \<Longrightarrow> is_dpc_error e \<and> map_of (ur_entries u) tid = None"
  by (auto simp: ur_spend_def split: option.splits)

lemma restore_after_spend:
  assumes "ur_spend tid u = Inr (c, u')" and "dict_wf (ur_entries u)" and "rc_token_id c = tid"
    and "tid \<notin> ur_spent_token_ids u"
  shows "same_register (restore_unspent c u') u" and "dict_wf (ur_entries (restore_unspent c u'))"
proof -
  have sp: "map_of (ur_entries u) tid = Some c" "u' = u\<lparr>ur_entries := AList.delete tid (ur_entries u),
       ur_spent_token_ids := insert tid (ur_spent_token_ids u)\<rparr>"
    using assms(1) by (simp_all only: ur_spend_Inr)
  have "insert tid (ur_spent_token_ids u) - {tid} = ur_spent_token_ids u" using assms(4) by blast
  with restore_dict [OF assms(2) sp(1)] assms(3) sp(2)
  show "same_register (restore_unspent c u') u" "dict_wf (ur_entries (restore_unspent c u'))"
    by (simp_all add: restore_unspent_def same_register_def total_balance_def)
qed

section \<open>The invariant of a wallet\<close>

text \<open>
  Every entry is filed under the identifier of its token, which has not been spent, and holds a
  valid chain that ends with this wallet and whose nonces have been seen; the balance is capped.
\<close>

definition receipt_ok :: "dpc_crypto \<Rightarrow> string \<Rightarrow> string set \<Rightarrow> string \<Rightarrow> receipt \<Rightarrow> bool" where
  "receipt_ok K pk seen k c \<longleftrightarrow>
     rc_token_id c = k \<and> rc_final_hop c = last (rc_full_chain c) \<and>
     dr_nonce ` set (rc_full_chain c) \<subseteq> seen \<and>
     (\<exists>t. rc_token c = Some t \<and> dk_token_id t = k \<and> 0 \<le> dk_amount_subunits t \<and>
        chain_valid K (rc_full_chain c) t \<and> dr_receiver_pubkey_hex (last (rc_full_chain c)) = pk)"

definition register_inv :: "dpc_crypto \<Rightarrow> string \<Rightarrow> utr_register \<Rightarrow> bool" where
  "register_inv K pk u \<longleftrightarrow>
     dict_wf (ur_entries u) \<and> dict_keys (ur_entries u) \<inter> ur_spent_token_ids u = {} \<and>
     (\<forall>(k, c) \<in> set (ur_entries u). receipt_ok K pk (ur_seen_nonces u) k c) \<and>
     total_balance u \<le> max_wallet_balance_subunits"

definition dw_inv :: "dpc_crypto \<Rightarrow> dpc_wallet \<Rightarrow> bool" where
  "dw_inv K w \<longleftrightarrow> register_inv K (dw_pk w) (dw_utr w)"

lemma register_inv_new: "register_inv K pk (new_register wallet_id)"
  by (simp add: register_inv_def new_register_def total_balance_def max_wallet_balance_subunits_def)

lemma same_register_inv:
  assumes "same_register u v" and "dict_wf (ur_entries u)" and "register_inv K pk v"
  shows "register_inv K pk u"
  using assms by (simp add: same_register_def register_inv_def)

lemma register_inv_entry:
  assumes "register_inv K pk u" and "map_of (ur_entries u) tid = Some c"
  shows "receipt_ok K pk (ur_seen_nonces u) tid c" and "tid \<notin> ur_spent_token_ids u"
    and "rc_token_id c = tid"
proof -
  from assms(2) have "(tid, c) \<in> set (ur_entries u)" by (rule map_of_SomeD)
  moreover from this have "tid \<in> dict_keys (ur_entries u)" by (metis fst_conv image_eqI)
  ultimately show ok: "receipt_ok K pk (ur_seen_nonces u) tid c" and "tid \<notin> ur_spent_token_ids u"
    using assms(1) unfolding register_inv_def by blast+
  then show "rc_token_id c = tid" by (simp add: receipt_ok_def)
qed

lemma receipt_ok_amount: "receipt_ok K pk seen k c \<Longrightarrow> 0 \<le> receipt_amount c \<and>
    dr_amount_subunits (rc_final_hop c) = receipt_amount c"
  by (auto simp: receipt_ok_def receipt_amount_def chain_valid_def records_of_def)

lemma register_inv_spend:
  assumes "register_inv K pk u" and "ur_spend tid u = Inr (c, u')"
  shows "register_inv K pk u'" and "total_balance u' = total_balance u - receipt_amount c"
proof -
  have sp: "map_of (ur_entries u) tid = Some c" "u' = u\<lparr>ur_entries := AList.delete tid (ur_entries u),
       ur_spent_token_ids := insert tid (ur_spent_token_ids u)\<rparr>"
    using assms(2) by (simp_all only: ur_spend_Inr)
  have wf: "dict_wf (ur_entries u)" using assms(1) by (simp add: register_inv_def)
  show bal: "total_balance u' = total_balance u - receipt_amount c"
    using dict_total_delete [OF wf, of receipt_amount tid] sp
    by (simp add: total_balance_def del: map_of_eq_Some_iff)
  have "0 \<le> receipt_amount c"
    using receipt_ok_amount [OF register_inv_entry(1) [OF assms(1) sp(1)]] by simp
  with bal assms(1) sp(2) wf show "register_inv K pk u'"
    unfolding register_inv_def by (auto simp: dict_simps dest!: dict_in_delete)
qed

text \<open>What \<open>add_receipt\<close> does when it returns.\<close>

lemma add_receipt_Inr:
  assumes "add_receipt c u = Inr u'"
  shows "rc_token_id c \<notin> dict_keys (ur_entries u)"
    and "total_balance u + receipt_amount c \<le> max_wallet_balance_subunits"
    and "u' = u\<lparr>ur_entries := ur_entries u @ [(rc_token_id c, c)],
           ur_spent_token_ids := ur_spent_token_ids u - {rc_token_id c},
           ur_seen_nonces := ur_seen_nonces u \<union> dr_nonce ` set (rc_full_chain c)\<rparr>"
proof -
  show new: "rc_token_id c \<notin> dict_keys (ur_entries u)"
    using assms by (cases "rc_token_id c \<in> dict_keys (ur_entries u)") (simp_all add: add_receipt_def del: set_map)
  show "total_balance u + receipt_amount c \<le> max_wallet_balance_subunits"
    using assms by (auto simp: add_receipt_def Let_def bind_res_Inr_iff split: if_splits)
  show "u' = u\<lparr>ur_entries := ur_entries u @ [(rc_token_id c, c)],
           ur_spent_token_ids := ur_spent_token_ids u - {rc_token_id c},
           ur_seen_nonces := ur_seen_nonces u \<union> dr_nonce ` set (rc_full_chain c)\<rparr>"
    using assms dict_update_new [OF new, of c]
    by (auto simp: add_receipt_def Let_def bind_res_Inr_iff split: if_splits)
qed

lemma total_balance_add:
  "add_receipt c u = Inr u' \<Longrightarrow> total_balance u' = total_balance u + receipt_amount c"
  by (drule add_receipt_Inr(3)) (simp add: total_balance_def dict_total_def)

lemma register_inv_add:
  assumes "register_inv K pk u" and "add_receipt c u = Inr u'"
    and "receipt_ok K pk (ur_seen_nonces u \<union> dr_nonce ` set (rc_full_chain c)) (rc_token_id c) c"
  shows "register_inv K pk u'"
proof -
  note a = add_receipt_Inr [OF assms(2)]
  have "receipt_ok K pk (ur_seen_nonces u \<union> X) k d" if "receipt_ok K pk (ur_seen_nonces u) k d" for k d X
    using that by (auto simp: receipt_ok_def)
  with assms(1,3) a(1,2) total_balance_add [OF assms(2)] show ?thesis
    unfolding register_inv_def a(3) by auto
qed

section \<open>Paying\<close>

lemma dk_is_expired_Inr: "dk_is_expired clock None t = Inr e \<longleftrightarrow>
    dk_issued_at t \<le> clock \<and> e = (dk_ttl_expiry t < clock)"
  by (auto simp: dk_is_expired_def)

lemma dk_is_expired_Inl: "dk_is_expired clock None t = Inl e \<Longrightarrow> is_dpc_error e"
  by (auto simp: dk_is_expired_def split: if_splits)

lemma dpc_error_classes:
  "is_cryptographic_error e \<Longrightarrow> is_dpc_error e" "is_policy_violation e \<Longrightarrow> is_dpc_error e"
  by (cases e; simp)+

text \<open>The hop index of the next record: back to one for a receiver who sent the token before.\<close>

definition next_hop :: "dpc_record list \<Rightarrow> string \<Rightarrow> int" where
  "next_hop rs rpk =
     (if rpk \<in> dr_sender_pubkey_hex ` set rs then 1 else dr_hop_index (last rs) + 1)"

definition sendable :: "int \<Rightarrow> receipt \<Rightarrow> string \<Rightarrow> bool" where
  "sendable clock c rpk \<longleftrightarrow>
     (case rc_token c of
        None \<Rightarrow> False
      | Some t \<Rightarrow> dk_issued_at t \<le> clock \<and> clock \<le> dk_ttl_expiry t) \<and>
     dr_amount_subunits (rc_final_hop c) \<le> max_single_tx_subunits \<and>
     next_hop (rc_full_chain c) rpk \<le> max_offline_hops"

lemma send_body_eq:
  assumes "dpc_crypto_ok K" and "dpc_keypair_ok K kp" and "receipt_ok K pk seen tid c"
  obtains t r where "rc_token c = Some t" "dk_token_id t = tid" "chain_valid K (rc_full_chain c) t"
    "dr_amount_subunits (rc_final_hop c) = dk_amount_subunits t" "dr_verified K r" "dr_nonce r = nonce"
    "record_with tid (next_hop (rc_full_chain c) rpk) (public_key_hex kp) rpk (dk_amount_subunits t)
       (dr_chain_hash (last (rc_full_chain c))) r"
    "send_body K clock nonce kp c rpk =
       bind_res (dk_is_expired clock None t) (\<lambda>expired.
         if expired then Inl (TokenExpiredError ''Token has expired'')
         else if max_single_tx_subunits < dk_amount_subunits t then Inl TransactionValueCapError
         else if max_offline_hops < next_hop (rc_full_chain c) rpk then Inl HopLimitExceededError
         else Inr (t, rc_full_chain c @ [r]))"
proof -
  obtain t where t: "rc_token c = Some t" "dk_token_id t = tid" "chain_valid K (rc_full_chain c) t"
    and last: "rc_final_hop c = last (rc_full_chain c)"
    using assms(3) by (auto simp: receipt_ok_def)
  have valid: "validate_integrity K (rc_full_chain c) t = Inr ()"
    using t(3) by (simp add: validate_integrity_Inr)
  have ne: "rc_full_chain c \<noteq> []" using t(3) by (simp add: chain_valid_def)
  have amt: "dr_amount_subunits (rc_final_hop c) = dk_amount_subunits t"
    using t(3) ne last by (auto simp: chain_valid_def records_of_def)
  obtain x where "from_hex (dr_chain_hash (last (rc_full_chain c))) = Some x"
    using t(3) ne by (auto simp: chain_valid_def records_of_def dr_verified_def dr_hashed_def)
  from signed_record [OF assms(1,2) this] obtain r where
    r: "bind_res (lift_py (new_dpc_record tid (next_hop (rc_full_chain c) rpk) (public_key_hex kp) rpk
        (dk_amount_subunits t) nonce (dr_chain_hash (last (rc_full_chain c)))))
        (dr_sign K (private_key_bytes kp)) = Inr r"
      "record_with tid (next_hop (rc_full_chain c) rpk) (public_key_hex kp) rpk (dk_amount_subunits t)
         (dr_chain_hash (last (rc_full_chain c))) r" "dr_nonce r = nonce" "dr_verified K r"
    by blast
  have "send_body K clock nonce kp c rpk =
      bind_res (dk_is_expired clock None t) (\<lambda>expired.
        if expired then Inl (TokenExpiredError ''Token has expired'')
        else if max_single_tx_subunits < dk_amount_subunits t then Inl TransactionValueCapError
        else if max_offline_hops < next_hop (rc_full_chain c) rpk then Inl HopLimitExceededError
        else Inr (t, rc_full_chain c @ [r]))"
    using r(1) ne amt t(2) valid
    by (auto simp: send_body_def require_token_def t(1) next_hop_def [symmetric] Let_def bind_res_Inr_iff
        intro!: arg_cong2 [where f = bind_res])
  with t amt r(2-4) show thesis by (intro that)
qed

lemma send_body_cases:
  assumes "dpc_crypto_ok K" and "dpc_keypair_ok K kp" and "receipt_ok K pk seen tid c"
  obtains (refused) e where "send_body K clock nonce kp c rpk = Inl e" "is_dpc_error e" "\<not> sendable clock c rpk"
  | (paid) t r where "send_body K clock nonce kp c rpk = Inr (t, rc_full_chain c @ [r])"
      "rc_token c = Some t" "sendable clock c rpk" "dr_verified K r" "dr_nonce r = nonce"
      "record_with tid (next_hop (rc_full_chain c) rpk) (public_key_hex kp) rpk (dk_amount_subunits t)
         (dr_chain_hash (last (rc_full_chain c))) r"
      "chain_valid K (rc_full_chain c @ [r]) t"
proof -
  obtain t r where t: "rc_token c = Some t" "dk_token_id t = tid" "chain_valid K (rc_full_chain c) t"
    and amt: "dr_amount_subunits (rc_final_hop c) = dk_amount_subunits t"
    and r: "dr_verified K r" "dr_nonce r = nonce"
      "record_with tid (next_hop (rc_full_chain c) rpk) (public_key_hex kp) rpk (dk_amount_subunits t)
         (dr_chain_hash (last (rc_full_chain c))) r"
    and body: "send_body K clock nonce kp c rpk =
      bind_res (dk_is_expired clock None t) (\<lambda>expired.
        if expired then Inl (TokenExpiredError ''Token has expired'')
        else if max_single_tx_subunits < dk_amount_subunits t then Inl TransactionValueCapError
        else if max_offline_hops < next_hop (rc_full_chain c) rpk then Inl HopLimitExceededError
        else Inr (t, rc_full_chain c @ [r]))"
    by (rule send_body_eq [OF assms])
  show thesis
  proof (cases "sendable clock c rpk")
    case True
    have "chain_valid K (rc_full_chain c @ [r]) t"
      using r t True
      by (intro chain_valid_append [where hop = "next_hop (rc_full_chain c) rpk"])
        (auto simp: next_hop_def sendable_def)
    moreover have "send_body K clock nonce kp c rpk = Inr (t, rc_full_chain c @ [r])"
      using True body amt by (simp add: sendable_def t(1) dk_is_expired_def)
    ultimately show thesis using paid t(1) True r by blast
  next
    case False
    then have "\<exists>e. send_body K clock nonce kp c rpk = Inl e \<and> is_dpc_error e"
      using body amt by (auto simp: sendable_def t(1) dk_is_expired_def)
    with refused False show thesis by blast
  qed
qed

text \<open>A payment: refused with the register as it was, or the token leaves it.\<close>

lemma dw_send_cases:
  assumes "dpc_crypto_ok K" and "dpc_keypair_ok K (dw_keypair w)" and "dw_inv K w"
  obtains (refused) e w' where "dw_send_token K clock nonce tid rpk w = (Inl e, w')" "is_dpc_error e"
      "same_register (dw_utr w') (dw_utr w)" "dw_keypair w' = dw_keypair w" "dw_inv K w'"
      "\<not> (\<exists>c. map_of (ur_entries (dw_utr w)) tid = Some c \<and> sendable clock c rpk)"
  | (paid) c t r u where
      "dw_send_token K clock nonce tid rpk w = (Inr (t, rc_full_chain c @ [r]), w\<lparr>dw_utr := u\<rparr>)"
      "map_of (ur_entries (dw_utr w)) tid = Some c" "rc_token c = Some t" "sendable clock c rpk"
      "ur_spend tid (dw_utr w) = Inr (c, u)" "dr_nonce r = nonce" "dr_verified K r"
      "record_with tid (next_hop (rc_full_chain c) rpk) (dw_pk w) rpk (dk_amount_subunits t)
         (dr_chain_hash (last (rc_full_chain c))) r"
      "chain_valid K (rc_full_chain c @ [r]) t"
proof (cases "ur_spend tid (dw_utr w)")
  case (Inl e)
  with ur_spend_Inl [OF Inl] show thesis
    by (intro refused [of e w]) (use assms(3) in \<open>simp_all add: dw_send_token_def\<close>)
next
  case (Inr p)
  obtain c u where p: "p = (c, u)" by fastforce
  with Inr have sp: "ur_spend tid (dw_utr w) = Inr (c, u)" by simp
  have inv: "register_inv K (dw_pk w) (dw_utr w)" using assms(3) by (simp add: dw_inv_def)
  from sp have entry: "map_of (ur_entries (dw_utr w)) tid = Some c" by (simp add: ur_spend_Inr)
  note ok = register_inv_entry [OF inv entry]
  show thesis
  proof (rule send_body_cases [OF assms(1,2) ok(1), of clock nonce rpk])
    fix e assume e: "send_body K clock nonce (dw_keypair w) c rpk = Inl e" "is_dpc_error e" "\<not> sendable clock c rpk"
    have wf: "dict_wf (ur_entries (dw_utr w))" using inv by (simp add: register_inv_def)
    note same = restore_after_spend [OF sp wf ok(3,2)]
    show thesis
    proof (rule refused [of e "w\<lparr>dw_utr := restore_unspent c u\<rparr>"])
      show "dw_inv K (w\<lparr>dw_utr := restore_unspent c u\<rparr>)"
        using same_register_inv [OF same inv] by (simp add: dw_inv_def)
    qed (use e sp same entry in \<open>simp_all add: dw_send_token_def\<close>)
  next
    fix t r assume "send_body K clock nonce (dw_keypair w) c rpk = Inr (t, rc_full_chain c @ [r])"
      "rc_token c = Some t" "sendable clock c rpk" "dr_verified K r" "dr_nonce r = nonce"
      "record_with tid (next_hop (rc_full_chain c) rpk) (dw_pk w) rpk (dk_amount_subunits t)
         (dr_chain_hash (last (rc_full_chain c))) r"
      "chain_valid K (rc_full_chain c @ [r]) t"
    with entry sp show thesis by (intro paid) (simp_all add: dw_send_token_def)
  qed
qed

section \<open>Swapping for change\<close>

lemma keypair_sign_returns:
  assumes "dpc_crypto_ok K" and "dpc_keypair_ok K kp"
  shows "\<exists>s. keypair_sign K kp m = Inr s \<and> sig_ok K (public_key_hex kp) m (to_hex s)"
proof -
  from ed25519_sign_verifies [OF assms, of m] obtain h where
    "map_sum (\<lambda>e. e) to_hex (keypair_sign K kp m) = Inr h" "sig_ok K (public_key_hex kp) m h"
    unfolding keypair_sign_eq by blast
  then show ?thesis by (cases "keypair_sign K kp m") auto
qed

text \<open>One half of a swap: a token labelled with an issuer and signed by \<open>pk\<close>, and its only record.\<close>

definition split_token ::
  "dpc_crypto \<Rightarrow> string \<Rightarrow> string \<Rightarrow> string \<Rightarrow> string \<Rightarrow> int \<Rightarrow> int \<Rightarrow> int \<Rightarrow> string \<Rightarrow> dpc_token \<Rightarrow> dpc_record \<Rightarrow> bool" where
  "split_token K pk issuer tid nonce amount clock ttl rpk t r \<longleftrightarrow>
     dk_token_id t = tid \<and> dk_issuer_pubkey_hex t = issuer \<and> dk_amount_subunits t = amount \<and>
     dk_issued_at t = clock \<and> dk_ttl_expiry t = ttl \<and> sig_ok K pk (genesis_payload_bytes t) (dk_issuer_signature t) \<and>
     record_with tid 0 pk rpk amount genesis_hash r \<and> dr_nonce r = nonce \<and> dr_verified K r \<and>
     (chain_valid K [r] t \<longleftrightarrow> sig_ok K issuer (genesis_payload_bytes t) (dk_issuer_signature t))"

lemma split_returns:
  assumes "dpc_crypto_ok K" and "dpc_keypair_ok K kp"
  obtains x r where "keypair_sign K kp (genesis_payload_bytes t) = Inr x"
    "make_split_record K nonce kp (t\<lparr>dk_issuer_signature := to_hex x\<rparr>) rpk = Inr r"
    "split_token K (public_key_hex kp) (dk_issuer_pubkey_hex t) (dk_token_id t) nonce (dk_amount_subunits t)
       (dk_issued_at t) (dk_ttl_expiry t) rpk (t\<lparr>dk_issuer_signature := to_hex x\<rparr>) r"
proof -
  obtain x where x: "keypair_sign K kp (genesis_payload_bytes t) = Inr x"
    "sig_ok K (public_key_hex kp) (genesis_payload_bytes t) (to_hex x)"
    using keypair_sign_returns [OF assms] by blast
  let ?t = "t\<lparr>dk_issuer_signature := to_hex x\<rparr>"
  obtain r where r: "make_split_record K nonce kp ?t rpk = Inr r" "dr_nonce r = nonce" "dr_verified K r"
    "record_with (dk_token_id t) 0 (public_key_hex kp) rpk (dk_amount_subunits t) genesis_hash r"
    using signed_record [OF assms from_hex_genesis, of "dk_token_id t" 0 rpk "dk_amount_subunits t" nonce]
    by (auto simp: make_split_record_def)
  have "genesis_payload_bytes ?t = genesis_payload_bytes t" by (simp add: genesis_payload_bytes_def dk_genesis_dict_def)
  with x r show thesis
    by (intro that) (auto simp: split_token_def chain_valid_def record_with_def max_offline_hops_def)
qed

lemma swap_body_returns:
  assumes "dpc_crypto_ok K" and "dpc_keypair_ok K kp" and "rc_token c = Some t"
    and "0 < amount" and "amount < dk_amount_subunits t"
    and "amount \<le> max_single_tx_subunits" and "dk_amount_subunits t - amount \<le> max_single_tx_subunits"
  obtains p r q s where "swap_body K st kp c amount rpk issuer = Inr (p, [r], q, [s])"
    "split_token K (public_key_hex kp) issuer (sw_payment_id st) (sw_payment_nonce st) amount (sw_now st)
       (dk_ttl_expiry t) rpk p r"
    "split_token K (public_key_hex kp) issuer (sw_change_id st) (sw_change_nonce st) (dk_amount_subunits t - amount)
       (sw_now st) (dk_ttl_expiry t) (public_key_hex kp) q s"
proof -
  let ?p = "\<lparr>dk_token_id = sw_payment_id st, dk_issuer_pubkey_hex = issuer, dk_amount_subunits = amount,
      dk_issued_at = sw_now st, dk_ttl_expiry = dk_ttl_expiry t, dk_issuer_signature = []\<rparr>"
  let ?q = "\<lparr>dk_token_id = sw_change_id st, dk_issuer_pubkey_hex = issuer,
      dk_amount_subunits = dk_amount_subunits t - amount, dk_issued_at = sw_now st,
      dk_ttl_expiry = dk_ttl_expiry t, dk_issuer_signature = []\<rparr>"
  note split = split_returns [OF assms(1,2)]
  show thesis
    by (rule split [of ?p "sw_payment_nonce st" rpk], rule split [of ?q "sw_change_nonce st" "public_key_hex kp"])
      (use assms(3-) in \<open>auto simp: swap_body_def require_token_def Let_def intro: that\<close>)
qed

text \<open>
  The two tokens of a swap: they split the amount, and each validates exactly when the label given
  as the issuer is a key under which the signature of the wallet verifies.
\<close>

definition swap_ok :: "dpc_crypto \<Rightarrow> string \<Rightarrow> string \<Rightarrow> int \<Rightarrow> string \<Rightarrow> receipt \<Rightarrow> swap_result \<Rightarrow> bool" where
  "swap_ok K pk issuer amount rpk c out \<longleftrightarrow>
     (case out of (p, ps, q, qs) \<Rightarrow>
        dk_amount_subunits p = amount \<and> dk_amount_subunits p + dk_amount_subunits q = receipt_amount c \<and>
        dk_issuer_pubkey_hex p = issuer \<and> dk_issuer_pubkey_hex q = issuer \<and>
        sig_ok K pk (genesis_payload_bytes p) (dk_issuer_signature p) \<and>
        sig_ok K pk (genesis_payload_bytes q) (dk_issuer_signature q) \<and>
        (\<exists>r s. ps = [r] \<and> qs = [s] \<and> dr_receiver_pubkey_hex r = rpk \<and> dr_receiver_pubkey_hex s = pk \<and>
           dr_verified K r \<and> dr_verified K s \<and>
           (chain_valid K ps p \<longleftrightarrow> sig_ok K issuer (genesis_payload_bytes p) (dk_issuer_signature p)) \<and>
           (chain_valid K qs q \<longleftrightarrow> sig_ok K issuer (genesis_payload_bytes q) (dk_issuer_signature q))))"

lemma swap_body_cases:
  assumes "dpc_crypto_ok K" and "dpc_keypair_ok K kp" and "receipt_ok K pk seen tid c"
  obtains (refused) e where "swap_body K st kp c amount rpk issuer = Inl e"
      "e = InsufficientFundsError \<or> e = TransactionValueCapError"
  | (swapped) out where "swap_body K st kp c amount rpk issuer = Inr out"
      "swap_ok K (public_key_hex kp) issuer amount rpk c out" "0 < amount" "amount < receipt_amount c"
proof -
  obtain t where t: "rc_token c = Some t" "dk_amount_subunits t = receipt_amount c"
    using assms(3) by (auto simp: receipt_ok_def receipt_amount_def)
  show thesis
  proof (cases "amount \<le> 0 \<or> receipt_amount c \<le> amount \<or> max_single_tx_subunits < amount \<or>
      max_single_tx_subunits < receipt_amount c - amount")
    case True
    then have "\<exists>e. swap_body K st kp c amount rpk issuer = Inl e \<and>
        (e = InsufficientFundsError \<or> e = TransactionValueCapError)"
      using t by (auto simp: swap_body_def require_token_def Let_def)
    with refused show thesis by blast
  next
    case False
    then have "0 < amount" "amount < dk_amount_subunits t" "amount \<le> max_single_tx_subunits"
      "dk_amount_subunits t - amount \<le> max_single_tx_subunits" using t(2) by simp_all
    then obtain p r q s where run: "swap_body K st kp c amount rpk issuer = Inr (p, [r], q, [s])"
      "split_token K (public_key_hex kp) issuer (sw_payment_id st) (sw_payment_nonce st) amount (sw_now st)
         (dk_ttl_expiry t) rpk p r"
      "split_token K (public_key_hex kp) issuer (sw_change_id st) (sw_change_nonce st) (dk_amount_subunits t - amount)
         (sw_now st) (dk_ttl_expiry t) (public_key_hex kp) q s"
      by (rule swap_body_returns [OF assms(1,2) t(1)])
    then have "swap_ok K (public_key_hex kp) issuer amount rpk c (p, [r], q, [s])"
      using t(2) by (simp add: swap_ok_def split_token_def record_with_def)
    with swapped [OF run(1)] False show thesis by simp
  qed
qed

section \<open>Runs of a wallet\<close>

inductive dw_step :: "dpc_crypto \<Rightarrow> dpc_wallet \<Rightarrow> dpc_wallet \<Rightarrow> bool" for K where
  Receive: "0 \<le> dk_amount_subunits t \<Longrightarrow> dw_receive_token K clock1 clock2 t chain w = Inr (c, w') \<Longrightarrow>
    dw_step K w w'"
| Send: "dw_send_token K clock nonce tid rpk w = (out, w') \<Longrightarrow> dw_step K w w'"
| Swap: "swap_change K st tid amount rpk issuer w = (out, w') \<Longrightarrow> dw_step K w w'"

lemma dw_receive_Inr:
  assumes "dw_receive_token K clock1 clock2 t chain w = Inr (c, w')"
  shows "dk_issued_at t \<le> clock1" and "clock1 \<le> dk_ttl_expiry t" and "chain_valid K chain t"
    and "dr_receiver_pubkey_hex (last chain) = dw_pk w"
    and "c = \<lparr>rc_token_id = dk_token_id t, rc_received_at = clock2, rc_final_hop = last chain,
           rc_full_chain = chain, rc_is_redeemed = False, rc_token = Some t\<rparr>"
    and "add_receipt c (dw_utr w) = Inr (dw_utr w')" and "w' = w\<lparr>dw_utr := dw_utr w'\<rparr>"
  using assms
  by (auto simp: dw_receive_token_def bind_res_Inr_iff dk_is_expired_Inr validate_integrity_Inr Let_def
      split: if_splits)

lemma dw_receive_inv:
  assumes "dw_inv K w" and "dw_receive_token K clock1 clock2 t chain w = Inr (c, w')"
    and "0 \<le> dk_amount_subunits t"
  shows "dw_inv K w'" and "dw_keypair w' = dw_keypair w"
proof -
  note r = dw_receive_Inr [OF assms(2)]
  show kp: "dw_keypair w' = dw_keypair w" by (subst r(7)) simp
  have "receipt_ok K (dw_pk w) (ur_seen_nonces (dw_utr w) \<union> dr_nonce ` set (rc_full_chain c)) (rc_token_id c) c"
    using r(3-5) assms(3) by (auto simp: receipt_ok_def)
  with register_inv_add [OF _ r(6)] assms(1) kp show "dw_inv K w'" by (simp add: dw_inv_def)
qed

lemma swap_change_keeps:
  assumes "dpc_crypto_ok K" and "dpc_keypair_ok K (dw_keypair w)" and "dw_inv K w"
    and "swap_change K st tid amount rpk issuer w = (out, w')"
  shows "dw_inv K w'" and "dw_keypair w' = dw_keypair w"
proof -
  have inv: "register_inv K (dw_pk w) (dw_utr w)" using assms(3) by (simp add: dw_inv_def)
  have "dw_inv K w' \<and> dw_keypair w' = dw_keypair w"
  proof (cases "ur_spend tid (dw_utr w)")
    case (Inl e)
    with assms(3,4) show ?thesis by (auto simp: swap_change_def)
  next
    case (Inr p)
    obtain c u where p: "p = (c, u)" by fastforce
    with Inr have sp: "ur_spend tid (dw_utr w) = Inr (c, u)" by simp
    then have entry: "map_of (ur_entries (dw_utr w)) tid = Some c" by (simp add: ur_spend_Inr)
    note ok = register_inv_entry [OF inv entry]
    have wf: "dict_wf (ur_entries (dw_utr w))" using inv by (simp add: register_inv_def)
    note back_inv = same_register_inv [OF restore_after_spend [OF sp wf ok(3,2)] inv]
    show ?thesis
    proof (rule swap_body_cases [OF assms(1,2) ok(1), of st amount rpk issuer], goal_cases refused swapped)
      case (refused e)
      with sp assms(4) back_inv show ?thesis by (auto simp: swap_change_def dw_inv_def)
    next
      case (swapped out)
      with sp assms(4) register_inv_spend(1) [OF inv sp] show ?thesis
        by (auto simp: swap_change_def dw_inv_def)
    qed
  qed
  then show "dw_inv K w'" "dw_keypair w' = dw_keypair w" by simp_all
qed

lemma dw_step_inv:
  assumes "dw_step K w w'" and "dpc_crypto_ok K" and "dpc_keypair_ok K (dw_keypair w)" and "dw_inv K w"
  shows "dw_inv K w' \<and> dw_keypair w' = dw_keypair w"
  using assms(1)
proof cases
  case (Receive t clock1 clock2 chain c)
  with dw_receive_inv [OF assms(4)] show ?thesis by blast
next
  case (Send clock nonce tid rpk out)
  show ?thesis
  proof (rule dw_send_cases [OF assms(2-4), of clock nonce tid rpk])
    fix e w'' assume "dw_send_token K clock nonce tid rpk w = (Inl e, w'')"
      "dw_keypair w'' = dw_keypair w" "dw_inv K w''"
    with Send show ?thesis by simp
  next
    fix c t r u assume "dw_send_token K clock nonce tid rpk w = (Inr (t, rc_full_chain c @ [r]), w\<lparr>dw_utr := u\<rparr>)"
      and sp: "ur_spend tid (dw_utr w) = Inr (c, u)"
    with Send have "w' = w\<lparr>dw_utr := u\<rparr>" by simp
    with register_inv_spend(1) [OF _ sp] assms(4) show ?thesis by (simp add: dw_inv_def)
  qed
next
  case (Swap st tid amount rpk issuer out)
  with swap_change_keeps [OF assms(2-4)] show ?thesis by blast
qed

lemma dw_run_inv:
  assumes "(dw_step K)\<^sup>*\<^sup>* w w'" and "dpc_crypto_ok K" and "dpc_keypair_ok K (dw_keypair w)" and "dw_inv K w"
  shows "dw_inv K w' \<and> dw_keypair w' = dw_keypair w"
  using assms
proof (induction rule: rtranclp_induct)
  case (step y z)
  then show ?case using dw_step_inv [OF step.hyps(2)] by simp
qed simp

section \<open>A payment between two wallets\<close>

definition spent_from :: "string \<Rightarrow> dpc_wallet \<Rightarrow> dpc_wallet" where
  "spent_from tid w =
     w\<lparr>dw_utr := (dw_utr w)\<lparr>ur_entries := AList.delete tid (ur_entries (dw_utr w)),
       ur_spent_token_ids := insert tid (ur_spent_token_ids (dw_utr w))\<rparr>\<rparr>"

definition added_to :: "receipt \<Rightarrow> dpc_wallet \<Rightarrow> dpc_wallet" where
  "added_to c w =
     w\<lparr>dw_utr := (dw_utr w)\<lparr>ur_entries := ur_entries (dw_utr w) @ [(rc_token_id c, c)],
       ur_spent_token_ids := ur_spent_token_ids (dw_utr w) - {rc_token_id c},
       ur_seen_nonces := ur_seen_nonces (dw_utr w) \<union> dr_nonce ` set (rc_full_chain c)\<rparr>\<rparr>"

definition paid_receipt :: "int \<Rightarrow> dpc_token \<Rightarrow> dpc_record list \<Rightarrow> dpc_record \<Rightarrow> receipt" where
  "paid_receipt clock t rs r =
     \<lparr>rc_token_id = dk_token_id t, rc_received_at = clock, rc_final_hop = r, rc_full_chain = rs @ [r],
      rc_is_redeemed = False, rc_token = Some t\<rparr>"

lemma spent_from_keypair [simp]: "dw_keypair (spent_from tid w) = dw_keypair w"
  and added_to_keypair [simp]: "dw_keypair (added_to c w) = dw_keypair w"
  by (simp_all add: spent_from_def added_to_def)

lemma dw_receive_chain:
  assumes "chain_valid K (rs @ [rec]) t" and "dr_receiver_pubkey_hex rec = dw_pk r"
    and "dk_issued_at t \<le> clock1" and "clock1 \<le> dk_ttl_expiry t"
    and "dk_token_id t \<notin> dict_keys (ur_entries (dw_utr r))" and "dr_nonce rec \<notin> ur_seen_nonces (dw_utr r)"
    and "dk_token_id t \<in> ur_spent_token_ids (dw_utr r) \<or> dr_nonce ` set rs \<inter> ur_seen_nonces (dw_utr r) = {}"
  shows "dw_receive_token K clock1 clock2 t (rs @ [rec]) r =
    (if get_balance r + dk_amount_subunits t \<le> 1000000
     then Inr (paid_receipt clock2 t rs rec, added_to (paid_receipt clock2 t rs rec) r)
     else Inl WalletBalanceCapError)"
proof -
  let ?c = "paid_receipt clock2 t rs rec"
  have "add_receipt ?c (dw_utr r) =
      (if get_balance r + dk_amount_subunits t \<le> 1000000 then Inr (dw_utr (added_to ?c r)) else Inl WalletBalanceCapError)"
    using assms(5-7)
    by (auto simp: add_receipt_def last_nonce_def get_balance_def max_wallet_balance_subunits_def Let_def added_to_def
        paid_receipt_def receipt_amount_def dict_update_new simp del: set_map)
  moreover have "validate_integrity K (rs @ [rec]) t = Inr ()" using assms(1) by (simp add: validate_integrity_Inr)
  ultimately show ?thesis
    using assms(2-4) by (simp add: dw_receive_token_def Let_def paid_receipt_def added_to_def dk_is_expired_def)
qed

lemma payment_step:
  assumes "dpc_crypto_ok K" and "dpc_keypair_ok K (dw_keypair s)" and "dw_inv K s"
    and "map_of (ur_entries (dw_utr s)) tid = Some c" and "sendable clock c (dw_pk r)"
    and "clock \<le> clock1" and "\<forall>t. rc_token c = Some t \<longrightarrow> clock1 \<le> dk_ttl_expiry t"
    and "tid \<notin> dict_keys (ur_entries (dw_utr r))" and "nonce \<notin> ur_seen_nonces (dw_utr r)"
    and "tid \<in> ur_spent_token_ids (dw_utr r) \<or>
      dr_nonce ` set (rc_full_chain c) \<inter> ur_seen_nonces (dw_utr r) = {}"
    and "get_balance r + receipt_amount c \<le> 1000000"
  obtains t rec where "rc_token c = Some t"
    "dw_send_token K clock nonce tid (dw_pk r) s = (Inr (t, rc_full_chain c @ [rec]), spent_from tid s)"
    "dw_receive_token K clock1 clock2 t (rc_full_chain c @ [rec]) r =
       Inr (paid_receipt clock2 t (rc_full_chain c) rec, added_to (paid_receipt clock2 t (rc_full_chain c) rec) r)"
    "get_balance (spent_from tid s) = get_balance s - receipt_amount c"
    "get_balance (added_to (paid_receipt clock2 t (rc_full_chain c) rec) r) = get_balance r + receipt_amount c"
    "map_of (ur_entries (dw_utr (added_to (paid_receipt clock2 t (rc_full_chain c) rec) r))) tid =
       Some (paid_receipt clock2 t (rc_full_chain c) rec)"
    "chain_valid K (rc_full_chain c @ [rec]) t" "dr_nonce rec = nonce"
    "record_with tid (next_hop (rc_full_chain c) (dw_pk r)) (dw_pk s) (dw_pk r) (dk_amount_subunits t)
       (dr_chain_hash (last (rc_full_chain c))) rec"
proof (rule dw_send_cases [OF assms(1-3), of clock nonce tid "dw_pk r"], goal_cases _ paid)
  case (paid c0 t rec u)
  have c0: "c0 = c" using paid(3) assms(4) by simp
  note paid = paid(2-) [unfolded c0]
  have inv: "register_inv K (dw_pk s) (dw_utr s)" using assms(3) by (simp add: dw_inv_def)
  have u: "s\<lparr>dw_utr := u\<rparr> = spent_from tid s" using paid(5) by (simp add: ur_spend_Inr spent_from_def)
  have tid: "dk_token_id t = tid" using register_inv_entry(1) [OF inv assms(4)] paid(3) by (auto simp: receipt_ok_def)
  let ?c = "paid_receipt clock2 t (rc_full_chain c) rec"
  have amount: "receipt_amount ?c = receipt_amount c" "receipt_amount c = dk_amount_subunits t"
    using paid(3) by (simp_all add: receipt_amount_def paid_receipt_def)
  have "dr_receiver_pubkey_hex rec = dw_pk r" using paid(8) by (simp add: record_with_def)
  then have "dw_receive_token K clock1 clock2 t (rc_full_chain c @ [rec]) r = Inr (?c, added_to ?c r)"
    using assms(5-11) paid(3,6,9) tid amount
    by (subst dw_receive_chain) (auto simp: sendable_def simp del: set_map)
  moreover have "get_balance (added_to ?c r) = get_balance r + receipt_amount c"
    using amount by (simp add: get_balance_def total_balance_def added_to_def dict_total_def)
  moreover have "map_of (ur_entries (dw_utr (added_to ?c r))) tid = Some ?c"
  proof -
    have "map_of (ur_entries (dw_utr r)) tid = None"
      using assms(8) by (simp add: map_of_eq_None_iff del: set_map)
    then show ?thesis using tid by (simp add: map_add_def added_to_def paid_receipt_def)
  qed
  moreover have "get_balance (spent_from tid s) = get_balance s - receipt_amount c"
    using register_inv_spend(2) [OF inv paid(5)] u [symmetric] by (simp add: get_balance_def)
  ultimately show ?case using that paid(1,3,6,8,9) unfolding u by blast
qed (use assms(4,5) in blast)

section \<open>A wallet for the witnesses\<close>

text \<open>A wallet with key 2 that has received the token \<open>t1\<close> of ten subunits from the issuer with key 1.\<close>

lemma demo_dw:
  obtains r c w where "dr_verified toy_crypto r"
    "record_with ''t1'' 0 (public_key_hex (demo_kp 1)) (public_key_hex (demo_kp 2)) 10 genesis_hash r"
    "dw_receive_token toy_crypto 0 0 (demo_dk 1 ''t1'') [r] (new_dpc_wallet ''w'' (demo_kp 2)) = Inr (c, w)"
    "dw_step toy_crypto (new_dpc_wallet ''w'' (demo_kp 2)) w" "dw_inv toy_crypto w"
    "dw_keypair w = demo_kp 2" "ur_entries (dw_utr w) = [(''t1'', c)]" "rc_full_chain c = [r]"
    "rc_token c = Some (demo_dk 1 ''t1'')" "rc_final_hop c = r" "total_balance (dw_utr w) = 10"
proof -
  let ?t = "demo_dk 1 ''t1''" and ?w = "new_dpc_wallet ''w'' (demo_kp 2)"
  obtain r where r: "record_with ''t1'' 0 (public_key_hex (demo_kp 1)) (public_key_hex (demo_kp 2)) 10 genesis_hash r"
    "dr_verified toy_crypto r" "chain_valid toy_crypto [r] ?t" by (rule demo_chain)
  let ?c = "\<lparr>rc_token_id = ''t1'', rc_received_at = 0, rc_final_hop = r, rc_full_chain = [r],
      rc_is_redeemed = False, rc_token = Some ?t\<rparr>"
  let ?u = "\<lparr>ur_wallet_id = ''w'', ur_entries = [(''t1'', ?c)], ur_spent_token_ids = {},
      ur_seen_nonces = {dr_nonce r}\<rparr>"
  have "validate_integrity toy_crypto [r] ?t = Inr ()" using r(3) by (simp add: validate_integrity_Inr)
  then have recv: "dw_receive_token toy_crypto 0 0 ?t [r] ?w = Inr (?c, ?w\<lparr>dw_utr := ?u\<rparr>)"
    using r(1) by (simp add: dw_receive_token_def dk_is_expired_def record_with_def new_dpc_wallet_def
        new_register_def add_receipt_def total_balance_def receipt_amount_def
        max_wallet_balance_subunits_def Let_def)
  have step: "dw_step toy_crypto ?w (?w\<lparr>dw_utr := ?u\<rparr>)"
    by (rule dw_step.Receive [OF _ recv]) simp
  have "dw_inv toy_crypto ?w" by (simp add: dw_inv_def new_dpc_wallet_def register_inv_new)
  from dw_receive_inv [OF this recv] have "dw_inv toy_crypto (?w\<lparr>dw_utr := ?u\<rparr>)" by simp
  with that [OF r(2,1) recv step] show thesis
    by (simp add: new_dpc_wallet_def total_balance_def receipt_amount_def)
qed

section \<open>Properties\<close>

text \<open>
  C4: Sending is all or nothing: when \<open>send_token\<close> fails it raises a DPC error, because the token
  is not in the register or is expired, not yet valid, above the transaction cap or out of hops,
  and the register is as it was. Otherwise the token moves from the entries to the spent set, and
  what is returned is its token and its chain with one more record, signed by the wallet, addressed
  to the receiver, with the hop index back to one for a receiver who sent it before, and the
  longer chain validates.
\<close>
theorem send_token_all_or_nothing:
  assumes "dpc_crypto_ok K" and "dpc_keypair_ok K (dw_keypair w)" and "dw_inv K w"
  shows "case dw_send_token K clock nonce tid rpk w of
      (Inl e, w') \<Rightarrow> is_dpc_error e \<and> same_register (dw_utr w') (dw_utr w) \<and>
        \<not> (\<exists>c. map_of (ur_entries (dw_utr w)) tid = Some c \<and> sendable clock c rpk)
    | (Inr (t, chain), w') \<Rightarrow>
        \<exists>c r. map_of (ur_entries (dw_utr w)) tid = Some c \<and> sendable clock c rpk \<and> rc_token c = Some t \<and>
          chain = rc_full_chain c @ [r] \<and> validate_integrity K chain t = Inr () \<and>
          dr_sender_pubkey_hex r = dw_pk w \<and> dr_receiver_pubkey_hex r = rpk \<and>
          dr_hop_index r = next_hop (rc_full_chain c) rpk \<and>
          get_balance w' = get_balance w - dk_amount_subunits t \<and>
          ur_entries (dw_utr w') = AList.delete tid (ur_entries (dw_utr w)) \<and>
          ur_spent_token_ids (dw_utr w') = insert tid (ur_spent_token_ids (dw_utr w))"
proof (rule dw_send_cases [OF assms, of clock nonce tid rpk], goal_cases refused paid)
  case (refused e w')
  then show ?thesis by simp
next
  case (paid c t r u)
  have "register_inv K (dw_pk w) (dw_utr w)" using assms(3) by (simp add: dw_inv_def)
  from register_inv_spend(2) [OF this paid(5)] paid(3)
  have "total_balance u = total_balance (dw_utr w) - dk_amount_subunits t"
    by (simp add: receipt_amount_def)
  with paid show ?thesis
    by (intro case_prodI2) (auto simp: validate_integrity_Inr record_with_def get_balance_def ur_spend_Inr)
qed

lemma send_token_all_or_nothing_witness:
  "\<exists>w t chain w'. dw_inv toy_crypto w \<and>
     dw_send_token toy_crypto 5 ''n1'' ''t1'' (public_key_hex (demo_kp 3)) w = (Inr (t, chain), w') \<and>
     length chain = 2 \<and> get_balance w' = 0"
proof -
  obtain r c w where w: "dr_verified toy_crypto r"
    "record_with ''t1'' 0 (public_key_hex (demo_kp 1)) (public_key_hex (demo_kp 2)) 10 genesis_hash r"
    "dw_inv toy_crypto w" "dw_keypair w = demo_kp 2" "ur_entries (dw_utr w) = [(''t1'', c)]"
    "rc_full_chain c = [r]" "rc_token c = Some (demo_dk 1 ''t1'')" "rc_final_hop c = r"
    "total_balance (dw_utr w) = 10"
    by (rule demo_dw)
  have kp: "dpc_keypair_ok toy_crypto (dw_keypair w)" by (simp add: w(4))
  have "sendable 5 c (public_key_hex (demo_kp 3))"
    using w(2) by (simp add: sendable_def w(6-8) record_with_def next_hop_def max_single_tx_subunits_def
        max_offline_hops_def)
  with send_token_all_or_nothing [OF toy_crypto_ok kp w(3), where clock = 5
      and nonce = "''n1''" and tid = "''t1''" and rpk = "public_key_hex (demo_kp 3)"]
  show ?thesis using w(3,5-9)
    by (intro exI [of _ w]) (auto simp: get_balance_def split: prod.splits sum.splits)
qed

text \<open>
  C10: Whatever a wallet receives (tokens of non-negative amounts), sends or swaps, in any order and
  with any errors on the way: its balance stays within the cap, no token is both unspent and spent,
  and every entry is filed under its token's identifier with a chain that validates and ends with
  this wallet.
\<close>
theorem reachable_register_sound:
  assumes "dpc_crypto_ok K" and "dpc_keypair_ok K kp"
    and "(dw_step K)\<^sup>*\<^sup>* (new_dpc_wallet wallet_id kp) w"
  shows "get_balance w \<le> 1000000 \<and>
    dict_keys (ur_entries (dw_utr w)) \<inter> ur_spent_token_ids (dw_utr w) = {} \<and>
    (\<forall>(k, c) \<in> set (ur_entries (dw_utr w)). \<exists>t. rc_token c = Some t \<and> dk_token_id t = k \<and>
       validate_integrity K (rc_full_chain c) t = Inr () \<and>
       dr_receiver_pubkey_hex (last (rc_full_chain c)) = public_key_hex kp \<and>
       dr_nonce ` set (rc_full_chain c) \<subseteq> ur_seen_nonces (dw_utr w))"
proof -
  have "dw_inv K (new_dpc_wallet wallet_id kp)"
    by (simp add: dw_inv_def new_dpc_wallet_def register_inv_new)
  with dw_run_inv [OF assms(3,1)] assms(2) have "dw_inv K w" "dw_keypair w = kp"
    by (simp_all add: new_dpc_wallet_def)
  then show ?thesis
    unfolding dw_inv_def register_inv_def receipt_ok_def validate_integrity_Inr
    by (fastforce simp: get_balance_def max_wallet_balance_subunits_def)
qed

lemma reachable_register_sound_witness:
  "\<exists>w. (dw_step toy_crypto)\<^sup>*\<^sup>* (new_dpc_wallet ''w'' (demo_kp 2)) w \<and>
     ur_entries (dw_utr w) \<noteq> [] \<and> get_balance w \<le> 1000000"
proof -
  obtain c w where w: "dw_step toy_crypto (new_dpc_wallet ''w'' (demo_kp 2)) w"
    "ur_entries (dw_utr w) = [(''t1'', c)]" by (rule demo_dw)
  then have run: "(dw_step toy_crypto)\<^sup>*\<^sup>* (new_dpc_wallet ''w'' (demo_kp 2)) w" by blast
  from reachable_register_sound [OF toy_crypto_ok demo_kp_ok run] run w(2) show ?thesis by auto
qed

text \<open>
  C29: An honest payment arrives: a sender who holds a token that is in its period of validity,
  within the cap and not out of hops, and a receiver who does not hold it, has room for it, and
  has seen neither the new nonce nor, unless the token comes back to it, the earlier ones: what
  the sender produces is accepted by the receiver, and the amount moves.
\<close>
theorem sent_token_is_received:
  assumes "dpc_crypto_ok K" and "dpc_keypair_ok K (dw_keypair s)" and "dw_inv K s"
    and "map_of (ur_entries (dw_utr s)) tid = Some c" and "sendable clock c (dw_pk r)"
    and "clock \<le> clock1" and "\<forall>t. rc_token c = Some t \<longrightarrow> clock1 \<le> dk_ttl_expiry t"
    and "tid \<notin> dict_keys (ur_entries (dw_utr r))" and "nonce \<notin> ur_seen_nonces (dw_utr r)"
    and "tid \<in> ur_spent_token_ids (dw_utr r) \<or>
      dr_nonce ` set (rc_full_chain c) \<inter> ur_seen_nonces (dw_utr r) = {}"
    and "get_balance r + receipt_amount c \<le> 1000000"
  shows "\<exists>t chain s' c' r'. dw_send_token K clock nonce tid (dw_pk r) s = (Inr (t, chain), s') \<and>
    dw_receive_token K clock1 clock2 t chain r = Inr (c', r') \<and>
    get_balance s' = get_balance s - receipt_amount c \<and> get_balance r' = get_balance r + receipt_amount c \<and>
    map_of (ur_entries (dw_utr r')) tid = Some c'"
proof -
  obtain t rec where p: "rc_token c = Some t"
    "dw_send_token K clock nonce tid (dw_pk r) s = (Inr (t, rc_full_chain c @ [rec]), spent_from tid s)"
    "dw_receive_token K clock1 clock2 t (rc_full_chain c @ [rec]) r =
       Inr (paid_receipt clock2 t (rc_full_chain c) rec, added_to (paid_receipt clock2 t (rc_full_chain c) rec) r)"
    "get_balance (spent_from tid s) = get_balance s - receipt_amount c"
    "get_balance (added_to (paid_receipt clock2 t (rc_full_chain c) rec) r) = get_balance r + receipt_amount c"
    "map_of (ur_entries (dw_utr (added_to (paid_receipt clock2 t (rc_full_chain c) rec) r))) tid =
       Some (paid_receipt clock2 t (rc_full_chain c) rec)"
    by (rule payment_step [OF assms])
  then show ?thesis by blast
qed

lemma sent_token_is_received_witness:
  "\<exists>s t chain s' c' r'. dw_send_token toy_crypto 5 ''n1'' ''t1'' (public_key_hex (demo_kp 3)) s = (Inr (t, chain), s') \<and>
    dw_receive_token toy_crypto 6 6 t chain (new_dpc_wallet ''r'' (demo_kp 3)) = Inr (c', r') \<and>
    get_balance r' = 10"
proof -
  let ?r = "new_dpc_wallet ''r'' (demo_kp 3)"
  obtain r c w where w: "dr_verified toy_crypto r"
    "record_with ''t1'' 0 (public_key_hex (demo_kp 1)) (public_key_hex (demo_kp 2)) 10 genesis_hash r"
    "dw_inv toy_crypto w" "dw_keypair w = demo_kp 2" "ur_entries (dw_utr w) = [(''t1'', c)]"
    "rc_full_chain c = [r]" "rc_token c = Some (demo_dk 1 ''t1'')" "rc_final_hop c = r"
    by (rule demo_dw)
  have kp: "dpc_keypair_ok toy_crypto (dw_keypair w)" by (simp add: w(4))
  have r: "dw_pk ?r = public_key_hex (demo_kp 3)" by (simp add: new_dpc_wallet_def)
  have "\<exists>t chain s' c' r'. dw_send_token toy_crypto 5 ''n1'' ''t1'' (dw_pk ?r) w = (Inr (t, chain), s') \<and>
    dw_receive_token toy_crypto 6 6 t chain ?r = Inr (c', r') \<and>
    get_balance s' = get_balance w - receipt_amount c \<and> get_balance r' = get_balance ?r + receipt_amount c \<and>
    map_of (ur_entries (dw_utr r')) ''t1'' = Some c'"
  proof (rule sent_token_is_received [OF toy_crypto_ok kp w(3)])
    show "sendable 5 c (dw_pk ?r)" unfolding r
      using w(2) by (simp add: sendable_def w(6-8) record_with_def next_hop_def max_single_tx_subunits_def
          max_offline_hops_def)
  qed (simp_all add: w(5-8) new_dpc_wallet_def new_register_def get_balance_def total_balance_def receipt_amount_def)
  moreover have "get_balance ?r + receipt_amount c = 10"
    using w(7) by (simp add: new_dpc_wallet_def new_register_def get_balance_def total_balance_def receipt_amount_def)
  ultimately show ?thesis unfolding r by metis
qed

end
