(* ===== verification/DpcLedger.thy ===== *)
theory DpcLedger
  imports DpcChain Settlement
begin

text \<open>
  \<open>src/dpc/reconciliation_engine.py\<close>: the issuer's ledger with first-valid-claim settlement. A
  claimer who settles a token again gets the settlement that exists; a later claimer is blacklisted
  and its claim filed as pending before the error is raised, so the operation returns the ledger
  beside its result. The ledger is interpreted as a settlement ledger; the main result says which
  claims of a sequence succeed.
\<close>

section \<open>The ledger\<close>

record minted_entry =
  me_amount :: int
  me_issuer_sig :: string
  me_issued_at :: int
  me_ttl :: int

record dpc_settlement =
  ds_token_id :: string
  ds_claimer_pubkey :: string
  ds_chain_depth :: int
  ds_settled_at :: int

record pending_claim =
  pn_claimer_pubkey :: string
  pn_chain_depth :: int
  pn_submitted_at :: int

record issuer_ledger =
  il_minted :: "(string, minted_entry) dict"
  il_settled :: "(string, dpc_settlement) dict"
  il_blacklist :: "string set"
  il_pending :: "(string, pending_claim list) dict"

definition new_ledger :: issuer_ledger where
  "new_ledger = \<lparr>il_minted = [], il_settled = [], il_blacklist = {}, il_pending = []\<rparr>"

definition il_mint_token ::
  "dpc_crypto \<Rightarrow> string \<Rightarrow> string \<Rightarrow> int \<Rightarrow> dpc_keypair \<Rightarrow> string \<Rightarrow> int \<Rightarrow> issuer_ledger \<Rightarrow>
     ((dpc_token \<times> dpc_record list) \<times> issuer_ledger) dres" where
  "il_mint_token K token_id nonce clock issuer_kp receiver_pubkey_hex amount led =
     (if amount \<le> 0 \<or> max_single_tx_subunits < amount then Inl TransactionValueCapError
      else
        let t = mint_unsigned token_id clock (public_key_hex issuer_kp) amount
        in bind_res (keypair_sign K issuer_kp (genesis_payload_bytes t)) (\<lambda>s.
           let t = t\<lparr>dk_issuer_signature := to_hex s\<rparr>
           in bind_res (lift_py (new_dpc_record (dk_token_id t) 0 (public_key_hex issuer_kp)
                receiver_pubkey_hex amount nonce genesis_hash)) (\<lambda>r.
              bind_res (dr_sign K (private_key_bytes issuer_kp) r) (\<lambda>genesis.
              Inr ((t, [genesis]), led\<lparr>il_minted := AList.update (dk_token_id t)
                \<lparr>me_amount = amount, me_issuer_sig = dk_issuer_signature t,
                 me_issued_at = dk_issued_at t, me_ttl = dk_ttl_expiry t\<rparr> (il_minted led)\<rparr>)))))"

text \<open>\<open>clock\<close> is \<open>int(time.time())\<close>, read at most once.\<close>

definition settle_token ::
  "dpc_crypto \<Rightarrow> int \<Rightarrow> string \<Rightarrow> dpc_token \<Rightarrow> dpc_record list \<Rightarrow> issuer_ledger \<Rightarrow>
     dpc_settlement dres \<times> issuer_ledger" where
  "settle_token K clock claimer t chain led =
     (if dk_token_id t \<notin> dict_keys (il_minted led)
      then (Inl (ReconciliationError ''Token was not minted by this issuer''), led)
      else
        case validate_integrity K chain t of
          Inl e \<Rightarrow> (Inl e, led)
        | Inr _ \<Rightarrow>
            if dr_receiver_pubkey_hex (last chain) \<noteq> claimer
            then (Inl (WalletStateError ''Settlement claimer is not final receiver''), led)
            else
              (case map_of (il_settled led) (dk_token_id t) of
                 Some existing \<Rightarrow>
                   if ds_claimer_pubkey existing = claimer then (Inr existing, led)
                   else
                     let earlier = (case map_of (il_pending led) (dk_token_id t) of
                           None \<Rightarrow> [] | Some l \<Rightarrow> l);
                         claim = \<lparr>pn_claimer_pubkey = claimer, pn_chain_depth = int (length chain),
                           pn_submitted_at = clock\<rparr>
                     in (Inl FirstClaimConflictError,
                         led\<lparr>il_blacklist := insert claimer (il_blacklist led),
                           il_pending := AList.update (dk_token_id t) (earlier @ [claim]) (il_pending led)\<rparr>)
               | None \<Rightarrow>
                   let settlement = \<lparr>ds_token_id = dk_token_id t, ds_claimer_pubkey = claimer,
                     ds_chain_depth = int (length chain), ds_settled_at = clock\<rparr>
                   in (Inr settlement,
                       led\<lparr>il_settled := AList.update (dk_token_id t) settlement (il_settled led)\<rparr>)))"

text \<open>The loop; \<open>clk i\<close> is the clock at round \<open>i\<close>. A result is a copy with the proxy's key added.\<close>

fun il_proxy_loop ::
  "dpc_crypto \<Rightarrow> (nat \<Rightarrow> int) \<Rightarrow> nat \<Rightarrow> string \<Rightarrow> (string \<times> dpc_token \<times> dpc_record list) list \<Rightarrow>
     (dpc_settlement \<times> string) list \<Rightarrow> issuer_ledger \<Rightarrow>
     (dpc_settlement \<times> string) list dres \<times> issuer_ledger" where
  "il_proxy_loop K clk i proxy [] results led = (Inr results, led)"
| "il_proxy_loop K clk i proxy ((claimer, t, chain) # subs) results led =
     (case settle_token K (clk i) claimer t chain led of
        (Inl e, led1) \<Rightarrow> (Inl e, led1)
      | (Inr s, led1) \<Rightarrow> il_proxy_loop K clk (i + 1) proxy subs (results @ [(s, proxy)]) led1)"

definition il_proxy_sync ::
  "dpc_crypto \<Rightarrow> (nat \<Rightarrow> int) \<Rightarrow> string \<Rightarrow> (string \<times> dpc_token \<times> dpc_record list) list \<Rightarrow> issuer_ledger \<Rightarrow>
     (dpc_settlement \<times> string) list dres \<times> issuer_ledger" where
  "il_proxy_sync K clk proxy submissions led = il_proxy_loop K clk 0 proxy submissions [] led"

definition get_settled_count :: "issuer_ledger \<Rightarrow> nat" where
  "get_settled_count led = length (il_settled led)"

definition is_blacklisted :: "string \<Rightarrow> issuer_ledger \<Rightarrow> bool" where
  "is_blacklisted pk led \<longleftrightarrow> pk \<in> il_blacklist led"

section \<open>Settling one claim\<close>

record ledger_claim =
  lc_clock :: int
  lc_claimer :: string
  lc_token :: dpc_token
  lc_chain :: "dpc_record list"

abbreviation lc_id :: "ledger_claim \<Rightarrow> string" where
  "lc_id c \<equiv> dk_token_id (lc_token c)"

definition ledger_step :: "dpc_crypto \<Rightarrow> ledger_claim \<Rightarrow> issuer_ledger \<Rightarrow> dpc_settlement dres \<times> issuer_ledger" where
  "ledger_step K c led = settle_token K (lc_clock c) (lc_claimer c) (lc_token c) (lc_chain c) led"

text \<open>A minted token with a valid chain that ends with the claimer.\<close>

definition lc_valid :: "dpc_crypto \<Rightarrow> issuer_ledger \<Rightarrow> ledger_claim \<Rightarrow> bool" where
  "lc_valid K led c \<longleftrightarrow>
     lc_id c \<in> dict_keys (il_minted led) \<and> chain_valid K (lc_chain c) (lc_token c) \<and>
     dr_receiver_pubkey_hex (last (lc_chain c)) = lc_claimer c"

definition lc_settlement :: "ledger_claim \<Rightarrow> dpc_settlement" where
  "lc_settlement c = \<lparr>ds_token_id = lc_id c, ds_claimer_pubkey = lc_claimer c,
     ds_chain_depth = int (length (lc_chain c)), ds_settled_at = lc_clock c\<rparr>"

lemma lc_settlement_sel [simp]: "ds_claimer_pubkey (lc_settlement c) = lc_claimer c"
  "ds_token_id (lc_settlement c) = lc_id c"
  by (simp_all add: lc_settlement_def)

lemma ledger_step_cases:
  obtains (invalid) e where "ledger_step K c led = (Inl e, led)" "\<not> lc_valid K led c"
  | (first) led' where "ledger_step K c led = (Inr (lc_settlement c), led')" "lc_valid K led c"
      "lc_id c \<notin> dict_keys (il_settled led)" "map_of (il_settled led) (lc_id c) = None"
      "il_settled led' = AList.update (lc_id c) (lc_settlement c) (il_settled led)"
      "il_minted led' = il_minted led" "il_blacklist led' = il_blacklist led"
  | (again) s where "ledger_step K c led = (Inr s, led)" "lc_valid K led c"
      "map_of (il_settled led) (lc_id c) = Some s" "ds_claimer_pubkey s = lc_claimer c"
  | (conflict) s led' where "ledger_step K c led = (Inl FirstClaimConflictError, led')" "lc_valid K led c"
      "map_of (il_settled led) (lc_id c) = Some s" "ds_claimer_pubkey s \<noteq> lc_claimer c"
      "il_settled led' = il_settled led" "il_minted led' = il_minted led"
      "il_blacklist led' = insert (lc_claimer c) (il_blacklist led)"
proof (cases "lc_valid K led c")
  case False
  have "\<exists>e. ledger_step K c led = (Inl e, led)"
  proof (cases "validate_integrity K (lc_chain c) (lc_token c)")
    case (Inr u)
    then have "chain_valid K (lc_chain c) (lc_token c)" using validate_integrity_Inr by simp
    with False Inr show ?thesis by (auto simp: ledger_step_def settle_token_def lc_valid_def simp del: set_map)
  qed (auto simp: ledger_step_def settle_token_def)
  with invalid False show thesis by blast
next
  case True
  then have v: "validate_integrity K (lc_chain c) (lc_token c) = Inr ()"
    by (simp add: validate_integrity_Inr lc_valid_def)
  note t = True [unfolded lc_valid_def]
  show thesis
  proof (cases "map_of (il_settled led) (lc_id c)")
    case None
    moreover from this have "lc_id c \<notin> dict_keys (il_settled led)" by (simp add: map_of_eq_None_iff del: set_map)
    ultimately show thesis
      using first t v True
      by (simp add: ledger_step_def settle_token_def lc_settlement_def Let_def del: set_map)
  next
    case (Some s)
    show thesis
    proof (cases "ds_claimer_pubkey s = lc_claimer c")
      case same: True
      with again Some t v True show thesis
        by (simp add: ledger_step_def settle_token_def del: set_map)
    next
      case False
      with conflict Some t v True show thesis
        by (simp add: ledger_step_def settle_token_def Let_def del: set_map)
    qed
  qed
qed

section \<open>The ledger as a settlement ledger\<close>

text \<open>A claim is accepted when it settles a token that was not settled before.\<close>

definition ledger_accept ::
  "dpc_crypto \<Rightarrow> ledger_claim \<Rightarrow> issuer_ledger \<Rightarrow> (dpc_settlement dres \<times> bool) \<times> issuer_ledger" where
  "ledger_accept K c led =
     (let (out, led') = ledger_step K c led in ((out, lc_id c \<in> dict_keys (il_settled led)), led'))"

abbreviation newly_settled :: "dpc_settlement dres \<times> bool \<Rightarrow> bool" where
  "newly_settled out \<equiv> is_ok (fst out) \<and> \<not> snd out"

interpretation ledger: first_claim "ledger_accept K" lc_id newly_settled
  "\<lambda>led. dict_keys (il_settled led)" "\<lambda>_. True" "lc_valid K"
  for K
proof unfold_locales
  fix led :: issuer_ledger and c :: ledger_claim
  have key: "map_of (il_settled led) (lc_id c) = Some s \<Longrightarrow> lc_id c \<in> dict_keys (il_settled led)" for s
    by (metis map_of_eq_None_iff option.distinct(1) set_map)
  note cs = ledger_step_cases [of K c led]
  { assume "newly_settled (fst (ledger_accept K c led))"
    then show "lc_id c \<notin> dict_keys (il_settled led) \<and>
        dict_keys (il_settled (snd (ledger_accept K c led))) = insert (lc_id c) (dict_keys (il_settled led))"
      by (cases rule: cs) (simp_all add: ledger_accept_def key dict_keys_update del: set_map) }
  { assume "\<not> newly_settled (fst (ledger_accept K c led))"
    then show "dict_keys (il_settled (snd (ledger_accept K c led))) = dict_keys (il_settled led)"
      by (cases rule: cs) (simp_all add: ledger_accept_def key del: set_map) }
  show "lc_valid K (snd (ledger_accept K c led)) = lc_valid K led"
    by (cases rule: cs) (simp_all add: ledger_accept_def lc_valid_def fun_eq_iff del: set_map)
  show "newly_settled (fst (ledger_accept K c led)) \<longleftrightarrow>
      lc_valid K led c \<and> lc_id c \<notin> dict_keys (il_settled led)"
    by (cases rule: cs) (simp_all add: ledger_accept_def key del: set_map)
qed simp

section \<open>Minting\<close>

lemma il_mint_returns:
  assumes "dpc_crypto_ok K" and "dpc_keypair_ok K kp" and "0 < amount" and "amount \<le> max_single_tx_subunits"
  obtains t r me where "il_mint_token K tid nonce clock kp rpk amount led =
      Inr ((t, [r]), led\<lparr>il_minted := AList.update tid me (il_minted led)\<rparr>)"
    "dk_token_id t = tid" "dk_amount_subunits t = amount" "dk_issuer_pubkey_hex t = public_key_hex kp"
    "dk_issued_at t = clock" "dk_ttl_expiry t = clock + token_ttl_seconds" "chain_valid K [r] t"
    "record_with tid 0 (public_key_hex kp) rpk amount genesis_hash r" "dr_nonce r = nonce"
proof -
  let ?t = "mint_unsigned tid clock (public_key_hex kp) amount"
  from ed25519_sign_verifies [OF assms(1,2), of "genesis_payload_bytes ?t"] obtain s where
    s: "keypair_sign K kp (genesis_payload_bytes ?t) = Inr s"
      "sig_ok K (public_key_hex kp) (genesis_payload_bytes ?t) (to_hex s)"
    unfolding keypair_sign_eq [symmetric] by (cases "keypair_sign K kp (genesis_payload_bytes ?t)") auto
  obtain r where r: "bind_res (lift_py (new_dpc_record tid 0 (public_key_hex kp) rpk amount nonce genesis_hash))
        (dr_sign K (private_key_bytes kp)) = Inr r"
      "record_with tid 0 (public_key_hex kp) rpk amount genesis_hash r" "dr_verified K r" "dr_nonce r = nonce"
    using signed_record [OF assms(1,2) from_hex_genesis] by metis
  obtain r0 where r0: "new_dpc_record tid 0 (public_key_hex kp) rpk amount nonce genesis_hash = Inr r0"
    "dr_sign K (private_key_bytes kp) r0 = Inr r"
    using r(1) by (auto simp: bind_res_Inr_iff)
  let ?s = "?t\<lparr>dk_issuer_signature := to_hex s\<rparr>"
  have "chain_valid K [r] ?s"
    using s(2) r(2,3) by (intro genesis_record_valid) (simp_all add: mint_unsigned_def genesis_payload_bytes_def dk_genesis_dict_def)
  moreover have "il_mint_token K tid nonce clock kp rpk amount led =
      Inr ((?s, [r]), led\<lparr>il_minted := AList.update tid \<lparr>me_amount = amount, me_issuer_sig = to_hex s,
        me_issued_at = clock, me_ttl = clock + token_ttl_seconds\<rparr> (il_minted led)\<rparr>)"
    using s(1) r0 assms(3,4) by (simp add: il_mint_token_def mint_unsigned_def Let_def)
  ultimately show thesis using r(2,4) by (intro that [of ?s r]) (simp_all add: mint_unsigned_def)
qed

section \<open>Properties\<close>

text \<open>The key that a token belongs to once \<open>cs\<close> have been submitted: the first valid claim.\<close>

definition winner :: "dpc_crypto \<Rightarrow> issuer_ledger \<Rightarrow> ledger_claim list \<Rightarrow> string \<Rightarrow> string option" where
  "winner K led cs tid =
     (case map_of (il_settled led) tid of
        Some s \<Rightarrow> Some (ds_claimer_pubkey s)
      | None \<Rightarrow> map_option lc_claimer (List.find (\<lambda>c. lc_valid K led c \<and> lc_id c = tid) cs))"

lemma lc_valid_step: "lc_valid K (snd (ledger_step K c led)) = lc_valid K led"
  by (cases rule: ledger_step_cases [of K c led]) (simp_all add: lc_valid_def fun_eq_iff del: set_map)

interpretation ledger_owner: first_owner "ledger_step K" lc_id lc_claimer is_ok
  "\<lambda>led tid. map_option ds_claimer_pubkey (map_of (il_settled led) tid)" "lc_valid K"
  for K
proof unfold_locales
  fix led :: issuer_ledger and c :: ledger_claim and tid :: string
  note cs = ledger_step_cases [of K c led]
  show "is_ok (fst (ledger_step K c led)) \<longleftrightarrow> lc_valid K led c \<and>
      map_option ds_claimer_pubkey (map_of (il_settled led) (lc_id c)) \<in> {None, Some (lc_claimer c)}"
    by (cases rule: cs) simp_all
  show "map_option ds_claimer_pubkey (map_of (il_settled (snd (ledger_step K c led))) tid) =
      (if lc_valid K led c \<and> map_option ds_claimer_pubkey (map_of (il_settled led) tid) = None \<and> lc_id c = tid
       then Some (lc_claimer c) else map_option ds_claimer_pubkey (map_of (il_settled led) tid))"
    by (cases rule: cs) (auto simp: dict_get_update simp del: set_map)
qed (rule lc_valid_step)

lemma ledger_runs:
  assumes "i < length cs"
  shows "is_ok (fst (submit_all (ledger_step K) cs led) ! i) \<longleftrightarrow>
    lc_valid K led (cs ! i) \<and> winner K led cs (lc_id (cs ! i)) = Some (lc_claimer (cs ! i))"
proof -
  have "winner K led cs tid = ledger_owner.belongs K led cs tid" for tid
    by (simp add: winner_def first_owner_of_def split: option.split)
  with ledger_owner.run_ok [OF assms, of K led] show ?thesis by simp
qed

lemma blacklist_mono: "il_blacklist led \<subseteq> il_blacklist (snd (submit_all (ledger_step K) cs led))"
proof (induction cs arbitrary: led)
  case (Cons c cs)
  have "il_blacklist led \<subseteq> il_blacklist (snd (ledger_step K c led))"
    by (cases rule: ledger_step_cases [of K c led]) auto
  with Cons.IH show ?case by (simp, blast)
qed simp

lemma losers_blacklisted:
  "i < length cs \<Longrightarrow> lc_valid K led (cs ! i) \<Longrightarrow> \<not> is_ok (fst (submit_all (ledger_step K) cs led) ! i) \<Longrightarrow>
     lc_claimer (cs ! i) \<in> il_blacklist (snd (submit_all (ledger_step K) cs led))"
proof (induction cs arbitrary: led i)
  case (Cons c cs)
  show ?case
  proof (cases i)
    case 0
    with Cons.prems have "lc_claimer c \<in> il_blacklist (snd (ledger_step K c led))"
      by (cases rule: ledger_step_cases [of K c led]) auto
    with blacklist_mono 0 show ?thesis by (simp, blast)
  next
    case (Suc n)
    with Cons show ?thesis by (simp add: lc_valid_step)
  qed
qed simp

text \<open>
  C6: First valid claim wins: in any sequence of claims, a claim returns a settlement exactly when
  its token was minted, its chain validates and ends with the claimer, and the key of the claimer
  is the one the token belongs to: that of the settlement the ledger already had, or else of
  the first valid claim on the token in the sequence. A valid claim that fails blacklists its
  claimer.
\<close>
theorem ledger_first_valid_claim:
  assumes "i < length cs"
  shows "(is_ok (fst (submit_all (ledger_step K) cs led) ! i) \<longleftrightarrow>
      lc_id (cs ! i) \<in> dict_keys (il_minted led) \<and>
      validate_integrity K (lc_chain (cs ! i)) (lc_token (cs ! i)) = Inr () \<and>
      dr_receiver_pubkey_hex (last (lc_chain (cs ! i))) = lc_claimer (cs ! i) \<and>
      winner K led cs (lc_id (cs ! i)) = Some (lc_claimer (cs ! i))) \<and>
    (lc_valid K led (cs ! i) \<and> \<not> is_ok (fst (submit_all (ledger_step K) cs led) ! i) \<longrightarrow>
      is_blacklisted (lc_claimer (cs ! i)) (snd (submit_all (ledger_step K) cs led)))"
  using ledger_runs [OF assms] losers_blacklisted [OF assms]
  by (auto simp: lc_valid_def validate_integrity_Inr is_blacklisted_def simp del: set_map)

lemma ledger_first_valid_claim_witness:
  "\<exists>c d led. is_ok (fst (submit_all (ledger_step toy_crypto) [c, d] led) ! 0) \<and>
     \<not> is_ok (fst (submit_all (ledger_step toy_crypto) [c, d] led) ! 1) \<and>
     is_blacklisted (public_key_hex (demo_kp 3)) (snd (submit_all (ledger_step toy_crypto) [c, d] led))"
proof -
  let ?t = "demo_dk 1 ''t1''"
  obtain r where r: "record_with ''t1'' 0 (public_key_hex (demo_kp 1)) (public_key_hex (demo_kp 2)) 10 genesis_hash r"
    "dr_verified toy_crypto r" "chain_valid toy_crypto [r] ?t" by (rule demo_chain)
  obtain s where s: "record_with ''t1'' 0 (public_key_hex (demo_kp 3)) (public_key_hex (demo_kp 3)) 10 genesis_hash s"
    "dr_verified toy_crypto s"
    using signed_record [OF toy_crypto_ok demo_kp_ok from_hex_genesis] by metis
  then have sv: "chain_valid toy_crypto [s] ?t" by (intro genesis_record_valid) simp_all
  let ?c = "\<lparr>lc_clock = 1, lc_claimer = public_key_hex (demo_kp 2), lc_token = ?t, lc_chain = [r]\<rparr>"
    and ?d = "\<lparr>lc_clock = 2, lc_claimer = public_key_hex (demo_kp 3), lc_token = ?t, lc_chain = [s]\<rparr>"
    and ?led = "new_ledger\<lparr>il_minted := [(''t1'', \<lparr>me_amount = 10, me_issuer_sig = [], me_issued_at = 0,
      me_ttl = 0\<rparr>)]\<rparr>"
  have valid: "lc_valid toy_crypto ?led ?c" "lc_valid toy_crypto ?led ?d"
    using r(1,3) s(1) sv by (simp_all add: lc_valid_def record_with_def)
  have win: "winner toy_crypto ?led [?c, ?d] ''t1'' = Some (public_key_hex (demo_kp 2))"
    using valid by (simp add: winner_def new_ledger_def)
  have "public_key_hex (demo_kp 2) \<noteq> public_key_hex (demo_kp 3)"
    by (simp add: public_key_hex_def demo_kp_def keypair_generate_def)
  with ledger_first_valid_claim [of 0 "[?c, ?d]" toy_crypto ?led]
    ledger_first_valid_claim [of 1 "[?c, ?d]" toy_crypto ?led] win valid r(3)
  show ?thesis
    by (intro exI [of _ ?c] exI [of _ ?d] exI [of _ ?led])
      (simp add: validate_integrity_Inr lc_valid_def del: submit_all.simps)
qed

section \<open>Gaps\<close>

text \<open>
  A minted token that has not been settled goes to whoever claims it first, with a chain of the
  claimer's own making: the key that signs it need not have received the token from anyone.
\<close>

lemma stranger_settles_first:
  assumes "dpc_crypto_ok K" and "dpc_keypair_ok K any_kp" and "dk_token_id t \<in> dict_keys (il_minted led)"
    and "sig_ok K (dk_issuer_pubkey_hex t) (genesis_payload_bytes t) (dk_issuer_signature t)"
    and "dk_token_id t \<notin> dict_keys (il_settled led)"
  shows "\<exists>r led' s. settle_token K clock (public_key_hex any_kp) t [r] led = (Inr s, led') \<and>
    ds_claimer_pubkey s = public_key_hex any_kp"
proof -
  obtain r where r: "dr_receiver_pubkey_hex r = public_key_hex any_kp" "validate_integrity K [r] t = Inr ()"
    using anyone_takes_over [OF assms(1,2,4)] by blast
  have "map_of (il_settled led) (dk_token_id t) = None"
    using assms(5) by (simp add: map_of_eq_None_iff del: set_map)
  with r assms(3) show ?thesis by (intro exI [of _ r]) (simp add: settle_token_def Let_def del: set_map)
qed

end
