(* ===== verification/DpcStore.thy ===== *)
theory DpcStore
  imports DpcWallet DpcLedger
begin

text \<open>
  \<open>save\<close> and \<open>load\<close> of the register of unspent tokens (\<open>src/dpc/wallet.py\<close>) and of the issuer's
  ledger (\<open>src/dpc/reconciliation_engine.py\<close>). Files are their text; the reading of the clock for
  \<open>saved_at\<close> is an argument. A file that is read must hold values of the annotated types: the code
  would only fail on others later. The lemmas show that a saved register or ledger loads again, with
  its dictionaries in key order, and that a reloaded ledger settles as the saved one would.
\<close>

section \<open>Dictionaries and sets as JSON\<close>

definition dict_json :: "('v \<Rightarrow> json) \<Rightarrow> (string, 'v) dict \<Rightarrow> json" where
  "dict_json f d = JObj (map (\<lambda>(k, v). (k, f v)) d)"

definition dict_of_json :: "(json \<Rightarrow> 'v res) \<Rightarrow> json \<Rightarrow> (string, 'v) dict res" where
  "dict_of_json g j =
     bind_res (json_obj j) (map_res (\<lambda>(k, v). map_sum (\<lambda>e. e) (Pair k) (g v)))"

definition strings_json :: "string set \<Rightarrow> json" where
  "strings_json A = JList (map JStr (sorted_list_of_set A))"

definition strings_of_json :: "json \<Rightarrow> string set res" where
  "strings_of_json j = map_sum (\<lambda>e. e) set (bind_res (json_iter j) (map_res json_str))"

lemma dict_json_wf: "dict_wf d \<Longrightarrow> (\<And>v. v \<in> snd ` set d \<Longrightarrow> json_wf (f v)) \<Longrightarrow> json_wf (dict_json f d)"
proof -
  assume d: "dict_wf d" and wf: "\<And>v. v \<in> snd ` set d \<Longrightarrow> json_wf (f v)"
  have keys: "map fst (map (\<lambda>(k, v). (k, f v)) d) = map fst d" by (simp add: split_beta)
  have "json_wf (f v)" if "(k, v) \<in> set d" for k v using wf [of v] that by force
  then show "json_wf (dict_json f d)"
    unfolding dict_json_def json_wf.simps keys using d by (auto simp: list_all_iff)
qed

lemma dict_json_sorted: "sort_keys (dict_json f d) = dict_json (\<lambda>v. sort_keys (f v)) (sort_key fst d)"
  by (simp add: dict_json_def sort_key_map split_beta comp_def)

lemma dict_of_dict_json:
  assumes "\<And>v. v \<in> snd ` set d \<Longrightarrow> g (f v) = Inr v"
  shows "dict_of_json g (dict_json f d) = Inr d"
  using assms by (induction d) (auto simp: dict_of_json_def dict_json_def)

lemma strings_json_ok: "json_wf (strings_json A)" "sort_keys (strings_json A) = strings_json A"
  by (simp_all add: strings_json_def list_all_iff)

lemma strings_of_strings_json: "finite A \<Longrightarrow> strings_of_json (strings_json A) = Inr A"
proof -
  have "map_res json_str (map JStr xs) = Inr xs" for xs by (induction xs) simp_all
  then show "finite A \<Longrightarrow> ?thesis" by (simp add: strings_of_json_def strings_json_def)
qed

text \<open>The envelope both files have: version, time and data.\<close>

definition save_envelope :: "string \<Rightarrow> (string, json) dict \<Rightarrow> string" where
  "save_envelope saved_at data = dumps_sorted (JObj
     [(''dpc_version'', JStr ''1.0''), (''saved_at'', JStr saved_at), (''data'', JObj data)])"

definition load_envelope :: "dpc_exc \<Rightarrow> string \<Rightarrow> (string, json) dict dres" where
  "load_envelope unsupported text =
     bind_res (lift_py (bind_res (parse_json text) json_obj)) (\<lambda>payload.
     if map_of payload ''dpc_version'' \<noteq> Some (JStr ''1.0'') then Inl unsupported
     else lift_py (bind_res (json_field ''data'' payload) json_obj))"

lemma envelope_loads:
  assumes "json_wf (JObj data)" and "sort_keys (JObj data) = JObj data'"
  shows "load_envelope e (save_envelope saved_at data) = Inr data'"
proof -
  have wf: "json_wf (JObj [(''dpc_version'', JStr v), (''saved_at'', JStr s), (''data'', x)])"
    if "json_wf x" for v s x using that by simp
  have outer: "sort_keys (JObj [(''dpc_version'', JStr v), (''saved_at'', JStr s), (''data'', x)]) =
      JObj [(''data'', sort_keys x), (''dpc_version'', JStr v), (''saved_at'', JStr s)]" for v s x
    by (simp add: less_eq_list_code less_list_code)
  show ?thesis
    unfolding load_envelope_def save_envelope_def parse_dumps_sorted [OF wf [OF assms(1)]] outer assms(2)
    by (simp add: json_field_def)
qed

section \<open>The register\<close>

definition ur_save :: "string \<Rightarrow> utr_register \<Rightarrow> string res" where
  "ur_save saved_at u =
     bind_res (map_res (\<lambda>(token_id, c). map_sum (\<lambda>e. e) (Pair token_id) (parse_json (rc_to_json c)))
         (ur_entries u)) (\<lambda>entries.
     Inr (save_envelope saved_at
       [(''wallet_id'', JStr (ur_wallet_id u)),
        (''entries'', JObj entries),
        (''spent_token_ids'', strings_json (ur_spent_token_ids u)),
        (''seen_nonces'', strings_json (ur_seen_nonces u))]))"

definition ur_load :: "string \<Rightarrow> utr_register dres" where
  "ur_load text =
     bind_res (load_envelope (WalletStateError ''Unsupported UTR version'') text) (\<lambda>data. lift_py (
     bind_res (bind_res (json_field ''wallet_id'' data) json_str) (\<lambda>wallet_id.
     bind_res (bind_res (json_field ''entries'' data)
         (dict_of_json (\<lambda>receipt_data. rc_from_json (dumps_sorted receipt_data)))) (\<lambda>entries.
     bind_res (bind_res (json_field ''spent_token_ids'' data) strings_of_json) (\<lambda>spent_token_ids.
     bind_res (bind_res (json_field ''seen_nonces'' data) strings_of_json) (\<lambda>seen_nonces.
     Inr \<lparr>ur_wallet_id = wallet_id, ur_entries = entries, ur_spent_token_ids = spent_token_ids,
       ur_seen_nonces = seen_nonces\<rparr>))))))"

definition receipt_hex :: "receipt \<Rightarrow> bool" where
  "receipt_hex c \<longleftrightarrow> from_hex (dr_prev_hash (rc_final_hop c)) \<noteq> None \<and> records_hex (rc_full_chain c)"

lemma rc_sorted_ok: "json_wf (rc_sorted c)" "sort_keys (rc_sorted c) = rc_sorted c"
  unfolding rc_json_sorted(2) [symmetric] using json_wf_sort_keys [OF rc_json_sorted(1)] by simp_all

lemma rc_from_sorted_text:
  "receipt_hex c \<Longrightarrow> rc_from_json (dumps_sorted (rc_sorted c)) = Inr c"
  by (simp add: rc_from_json_def parse_dumps_sorted rc_sorted_ok rc_from_sorted receipt_hex_def)

lemma ur_save_text:
  "ur_save saved_at u = Inr (save_envelope saved_at
       [(''wallet_id'', JStr (ur_wallet_id u)),
        (''entries'', dict_json rc_sorted (ur_entries u)),
        (''spent_token_ids'', strings_json (ur_spent_token_ids u)),
        (''seen_nonces'', strings_json (ur_seen_nonces u))])"
proof -
  have "map_res (\<lambda>(token_id, c). map_sum (\<lambda>e. e) (Pair token_id) (parse_json (rc_to_json c))) d =
      Inr (map (\<lambda>(k, c). (k, rc_sorted c)) d)" for d :: "(string, receipt) dict"
    by (induction d) (auto simp: rc_to_json_parse)
  then show ?thesis unfolding ur_save_def dict_json_def by (simp only: bind_res.simps)
qed

lemma register_roundtrip:
  assumes "dict_wf (ur_entries u)" and "finite (ur_spent_token_ids u)" and "finite (ur_seen_nonces u)"
    and "\<And>c. c \<in> snd ` set (ur_entries u) \<Longrightarrow> receipt_hex c"
  shows "bind_res (lift_py (ur_save saved_at u)) ur_load = Inr (u\<lparr>ur_entries := sort_key fst (ur_entries u)\<rparr>)"
proof -
  have entries: "json_wf (dict_json rc_sorted (ur_entries u))"
    "sort_keys (dict_json rc_sorted (ur_entries u)) = dict_json rc_sorted (sort_key fst (ur_entries u))"
    using assms(1) by (simp_all add: dict_json_wf dict_json_sorted rc_sorted_ok)
  have wf: "json_wf (JObj [(''wallet_id'', JStr a), (''entries'', x), (''spent_token_ids'', y),
      (''seen_nonces'', z)])" if "json_wf x" "json_wf y" "json_wf z" for a x y z
    using that by simp
  have outer: "sort_keys (JObj [(''wallet_id'', JStr a), (''entries'', x), (''spent_token_ids'', y),
      (''seen_nonces'', z)]) = JObj [(''entries'', sort_keys x), (''seen_nonces'', sort_keys z),
      (''spent_token_ids'', sort_keys y), (''wallet_id'', JStr a)]" for a x y z
    by (simp add: less_eq_list_code less_list_code)
  have "dict_of_json (\<lambda>j. rc_from_json (dumps_sorted j)) (dict_json rc_sorted (sort_key fst (ur_entries u))) =
      Inr (sort_key fst (ur_entries u))"
    using assms(4) by (intro dict_of_dict_json) (auto simp: rc_from_sorted_text)
  moreover note envelope_loads [OF wf [OF entries(1) strings_json_ok(1) strings_json_ok(1)] outer]
  ultimately show ?thesis
    by (simp add: ur_save_text ur_load_def json_field_def entries(2) strings_json_ok(2)
        strings_of_strings_json assms(2,3))
qed

section \<open>The ledger\<close>

definition minted_dict :: "minted_entry \<Rightarrow> (string, json) dict" where
  "minted_dict m = [(''amount'', JInt (me_amount m)), (''issuer_sig'', JStr (me_issuer_sig m)),
     (''issued_at'', JInt (me_issued_at m)), (''ttl'', JInt (me_ttl m))]"

definition settlement_dict :: "dpc_settlement \<Rightarrow> (string, json) dict" where
  "settlement_dict s = [(''token_id'', JStr (ds_token_id s)), (''claimer_pubkey'', JStr (ds_claimer_pubkey s)),
     (''chain_depth'', JInt (ds_chain_depth s)), (''settled_at'', JInt (ds_settled_at s))]"

definition pending_dict :: "pending_claim \<Rightarrow> (string, json) dict" where
  "pending_dict p = [(''claimer_pubkey'', JStr (pn_claimer_pubkey p)),
     (''chain_depth'', JInt (pn_chain_depth p)), (''submitted_at'', JInt (pn_submitted_at p))]"

definition il_save :: "string \<Rightarrow> issuer_ledger \<Rightarrow> string" where
  "il_save saved_at led = save_envelope saved_at
     [(''minted'', dict_json (\<lambda>m. JObj (minted_dict m)) (il_minted led)),
      (''settled'', dict_json (\<lambda>s. JObj (settlement_dict s)) (il_settled led)),
      (''blacklist'', strings_json (il_blacklist led)),
      (''pending'', dict_json (\<lambda>ps. JList (map (\<lambda>p. JObj (pending_dict p)) ps)) (il_pending led))]"

definition minted_of_json :: "json \<Rightarrow> minted_entry res" where
  "minted_of_json j =
     bind_res (json_obj j) (\<lambda>d.
     bind_res (bind_res (json_field ''amount'' d) json_int) (\<lambda>amount.
     bind_res (bind_res (json_field ''issuer_sig'' d) json_str) (\<lambda>issuer_sig.
     bind_res (bind_res (json_field ''issued_at'' d) json_int) (\<lambda>issued_at.
     bind_res (bind_res (json_field ''ttl'' d) json_int) (\<lambda>ttl.
     Inr \<lparr>me_amount = amount, me_issuer_sig = issuer_sig, me_issued_at = issued_at, me_ttl = ttl\<rparr>)))))"

definition settlement_of_json :: "json \<Rightarrow> dpc_settlement res" where
  "settlement_of_json j =
     bind_res (json_obj j) (\<lambda>d.
     bind_res (bind_res (json_field ''token_id'' d) json_str) (\<lambda>token_id.
     bind_res (bind_res (json_field ''claimer_pubkey'' d) json_str) (\<lambda>claimer_pubkey.
     bind_res (bind_res (json_field ''chain_depth'' d) json_int) (\<lambda>chain_depth.
     bind_res (bind_res (json_field ''settled_at'' d) json_int) (\<lambda>settled_at.
     Inr \<lparr>ds_token_id = token_id, ds_claimer_pubkey = claimer_pubkey, ds_chain_depth = chain_depth,
       ds_settled_at = settled_at\<rparr>)))))"

definition pending_of_json :: "json \<Rightarrow> pending_claim res" where
  "pending_of_json j =
     bind_res (json_obj j) (\<lambda>d.
     bind_res (bind_res (json_field ''claimer_pubkey'' d) json_str) (\<lambda>claimer_pubkey.
     bind_res (bind_res (json_field ''chain_depth'' d) json_int) (\<lambda>chain_depth.
     bind_res (bind_res (json_field ''submitted_at'' d) json_int) (\<lambda>submitted_at.
     Inr \<lparr>pn_claimer_pubkey = claimer_pubkey, pn_chain_depth = chain_depth,
       pn_submitted_at = submitted_at\<rparr>))))"

definition il_load :: "string \<Rightarrow> issuer_ledger dres" where
  "il_load text =
     bind_res (load_envelope (ReconciliationError ''Unsupported issuer ledger version'') text) (\<lambda>data. lift_py (
     bind_res (bind_res (json_field ''minted'' data) (dict_of_json minted_of_json)) (\<lambda>minted.
     bind_res (bind_res (json_field ''settled'' data) (dict_of_json settlement_of_json)) (\<lambda>settled.
     bind_res (bind_res (json_field ''blacklist'' data) strings_of_json) (\<lambda>blacklist.
     bind_res (bind_res (json_field ''pending'' data)
         (dict_of_json (\<lambda>j. bind_res (json_list j) (map_res pending_of_json)))) (\<lambda>pending.
     Inr \<lparr>il_minted = minted, il_settled = settled, il_blacklist = blacklist, il_pending = pending\<rparr>))))))"

lemma minted_flat: "list_all (\<lambda>(k, v). json_flat v) (minted_dict m)" "distinct (map fst (minted_dict m))"
  by (simp_all add: minted_dict_def)

lemma settlement_flat:
  "list_all (\<lambda>(k, v). json_flat v) (settlement_dict s)" "distinct (map fst (settlement_dict s))"
  by (simp_all add: settlement_dict_def)

lemma pending_flat: "list_all (\<lambda>(k, v). json_flat v) (pending_dict p)" "distinct (map fst (pending_dict p))"
  by (simp_all add: pending_dict_def)

lemmas minted_sorted = dict_of_sorted [OF minted_flat]
lemmas settlement_sorted = dict_of_sorted [OF settlement_flat]
lemmas pending_sorted = dict_of_sorted [OF pending_flat]

lemma minted_reads: "minted_of_json (sort_keys (JObj (minted_dict m))) = Inr m"
  unfolding minted_sorted(1)
  by (simp add: minted_of_json_def json_field_def minted_sorted(2)) (simp add: minted_dict_def)

lemma settlement_reads: "settlement_of_json (sort_keys (JObj (settlement_dict s))) = Inr s"
  unfolding settlement_sorted(1)
  by (simp add: settlement_of_json_def json_field_def settlement_sorted(2)) (simp add: settlement_dict_def)

lemma pending_reads:
  "bind_res (json_list (sort_keys (JList (map (\<lambda>p. JObj (pending_dict p)) ps)))) (map_res pending_of_json) = Inr ps"
proof -
  have "pending_of_json (sort_keys (JObj (pending_dict p))) = Inr p" for p
    unfolding pending_sorted(1)
    by (simp add: pending_of_json_def json_field_def pending_sorted(2)) (simp add: pending_dict_def)
  then show ?thesis by (induction ps) (simp_all del: sort_keys.simps(2))
qed

definition ledger_wf :: "issuer_ledger \<Rightarrow> bool" where
  "ledger_wf led \<longleftrightarrow> dict_wf (il_minted led) \<and> dict_wf (il_settled led) \<and> dict_wf (il_pending led) \<and>
     finite (il_blacklist led)"

definition sorted_ledger :: "issuer_ledger \<Rightarrow> issuer_ledger" where
  "sorted_ledger led = led\<lparr>il_minted := sort_key fst (il_minted led),
     il_settled := sort_key fst (il_settled led), il_pending := sort_key fst (il_pending led)\<rparr>"

lemma ledger_roundtrip:
  assumes "ledger_wf led"
  shows "il_load (il_save saved_at led) = Inr (sorted_ledger led)"
proof -
  let ?m = "dict_json (\<lambda>m. JObj (minted_dict m)) (il_minted led)"
    and ?s = "dict_json (\<lambda>s. JObj (settlement_dict s)) (il_settled led)"
    and ?p = "dict_json (\<lambda>ps. JList (map (\<lambda>p. JObj (pending_dict p)) ps)) (il_pending led)"
  have dw: "dict_wf (il_minted led)" "dict_wf (il_settled led)" "dict_wf (il_pending led)"
    "finite (il_blacklist led)" using assms by (simp_all add: ledger_wf_def)
  have wfs: "json_wf ?m" "json_wf ?s" "json_wf ?p"
    using dict_json_wf [OF dw(1)] dict_json_wf [OF dw(2)] dict_json_wf [OF dw(3)]
      minted_sorted(3) settlement_sorted(3) pending_sorted(3)
    by (auto simp: list_all_iff simp del: json_wf.simps(2))
  have wf: "json_wf (JObj [(''minted'', x), (''settled'', y), (''blacklist'', b), (''pending'', z)])"
    if "json_wf x" "json_wf y" "json_wf b" "json_wf z" for x y b z
    using that by simp
  have outer: "sort_keys (JObj [(''minted'', x), (''settled'', y), (''blacklist'', b), (''pending'', z)]) =
      JObj [(''blacklist'', sort_keys b), (''minted'', sort_keys x), (''pending'', sort_keys z),
        (''settled'', sort_keys y)]" for x y b z
    by (simp add: less_eq_list_code less_list_code)
  note reads = dict_of_dict_json [where g = minted_of_json, OF minted_reads]
    dict_of_dict_json [where g = settlement_of_json, OF settlement_reads]
    dict_of_dict_json [where g = "\<lambda>j. bind_res (json_list j) (map_res pending_of_json)", OF pending_reads]
  show ?thesis
    unfolding il_load_def il_save_def
      envelope_loads [OF wf [OF wfs(1,2) strings_json_ok(1) wfs(3)] outer] bind_res.simps
      dict_json_sorted strings_json_ok(2)
    by (simp add: json_field_def reads strings_of_strings_json dw(4) sorted_ledger_def
        del: sort_keys.simps)
qed

section \<open>A reloaded ledger settles the same\<close>

definition same_books :: "issuer_ledger \<Rightarrow> issuer_ledger \<Rightarrow> bool" where
  "same_books a b \<longleftrightarrow>
     dict_keys (il_minted a) = dict_keys (il_minted b) \<and> map_of (il_settled a) = map_of (il_settled b) \<and>
     il_blacklist a = il_blacklist b"

lemma same_books_step:
  assumes "same_books a b"
  shows "fst (ledger_step K c a) = fst (ledger_step K c b) \<and>
    same_books (snd (ledger_step K c a)) (snd (ledger_step K c b))"
proof -
  have eq: "dict_keys (il_minted a) = dict_keys (il_minted b)" "map_of (il_settled a) = map_of (il_settled b)"
    "il_blacklist a = il_blacklist b" using assms by (simp_all add: same_books_def)
  have upd: "map_of (AList.update k v (il_settled a)) = map_of (AList.update k v (il_settled b))" for k v
    by (simp add: fun_eq_iff dict_get_update eq(2))
  show ?thesis
  proof (cases "lc_id c \<in> dict_keys (il_minted b)")
    case False
    then show ?thesis using assms by (simp add: ledger_step_def settle_token_def eq(1) del: set_map)
  next
    case True
    then show ?thesis
      using assms
      by (cases "validate_integrity K (lc_chain c) (lc_token c)"; cases "map_of (il_settled b) (lc_id c)")
        (simp_all add: ledger_step_def settle_token_def same_books_def Let_def eq upd del: set_map)
  qed
qed

lemma same_books_run:
  "same_books a b \<Longrightarrow> fst (submit_all (ledger_step K) cs a) = fst (submit_all (ledger_step K) cs b) \<and>
     same_books (snd (submit_all (ledger_step K) cs a)) (snd (submit_all (ledger_step K) cs b))"
proof (induction cs arbitrary: a b)
  case (Cons c cs)
  note step = same_books_step [OF Cons.prems, of K c]
  from step Cons.IH [OF step [THEN conjunct2]] show ?case by (simp only: submit_all_Cons simp_thms)
qed simp

lemma same_books_sorted: "ledger_wf led \<Longrightarrow> same_books (sorted_ledger led) led"
proof -
  have "dict_keys (sort_key fst d) = dict_keys d" for d :: "('a :: linorder, 'b) dict"
    by simp
  then show "ledger_wf led \<Longrightarrow> ?thesis"
    using map_of_sort_key [of "il_settled led"] by (simp add: same_books_def sorted_ledger_def ledger_wf_def del: set_map)
qed

section \<open>Properties\<close>

text \<open>
  A register survives being saved and loaded: it loads as the same register with its entries
  in the order of the token identifiers, so the balance and every lookup are the same.
\<close>
theorem register_save_load:
  assumes "dict_wf (ur_entries u)" and "finite (ur_spent_token_ids u)" and "finite (ur_seen_nonces u)"
    and "\<forall>(tid, c) \<in> set (ur_entries u). \<forall>r \<in> insert (rc_final_hop c) (set (rc_full_chain c)).
      from_hex (dr_prev_hash r) \<noteq> None"
  shows "\<exists>u'. bind_res (lift_py (ur_save saved_at u)) ur_load = Inr u' \<and>
    u' = u\<lparr>ur_entries := sort_key fst (ur_entries u)\<rparr> \<and>
    total_balance u' = total_balance u \<and> (\<forall>tid. get_receipt tid u' = get_receipt tid u)"
proof -
  have "receipt_hex c" if "c \<in> snd ` set (ur_entries u)" for c
    using that assms(4) by (fastforce simp: receipt_hex_def records_hex_def)
  from register_roundtrip [OF assms(1-3) this] map_of_sort_key [OF assms(1)]
  show ?thesis
    by (simp add: get_receipt_def total_balance_def dict_total_values sum_list_sort_key)
qed

lemma register_save_load_witness:
  "\<exists>c d. bind_res (lift_py (ur_save ''now'' \<lparr>ur_wallet_id = ''w'', ur_entries = [(''t2'', c), (''t1'', d)],
       ur_spent_token_ids = {''t0''}, ur_seen_nonces = {''n''}\<rparr>)) ur_load =
     Inr \<lparr>ur_wallet_id = ''w'', ur_entries = [(''t1'', d), (''t2'', c)], ur_spent_token_ids = {''t0''},
       ur_seen_nonces = {''n''}\<rparr>"
proof -
  obtain r where "dr_verified toy_crypto r" using demo_chain by blast
  then have hex: "from_hex (dr_prev_hash r) \<noteq> None" by (simp add: dr_verified_def dr_hashed_def)
  let ?c = "\<lambda>tid. \<lparr>rc_token_id = tid, rc_received_at = 5, rc_final_hop = r, rc_full_chain = [r],
      rc_is_redeemed = False, rc_token = None\<rparr>"
  let ?u = "\<lparr>ur_wallet_id = ''w'', ur_entries = [(''t2'', ?c ''t2''), (''t1'', ?c ''t1'')],
       ur_spent_token_ids = {''t0''}, ur_seen_nonces = {''n''}\<rparr>"
  from register_save_load [of ?u "''now''"] hex show ?thesis
    by (intro exI [of _ "?c ''t2''"] exI [of _ "?c ''t1''"]) (simp add: less_eq_list_code less_list_code)
qed

text \<open>
  C31: A ledger survives being saved and loaded: it loads, and any sequence of claims settled
  on the loaded ledger gives the results, and blacklists the keys, that it would have on the
  one that was saved.
\<close>
theorem ledger_save_load:
  assumes "ledger_wf led"
  shows "\<exists>led'. il_load (il_save saved_at led) = Inr led' \<and>
    fst (submit_all (ledger_step K) cs led') = fst (submit_all (ledger_step K) cs led) \<and>
    (\<forall>pk. is_blacklisted pk (snd (submit_all (ledger_step K) cs led')) =
       is_blacklisted pk (snd (submit_all (ledger_step K) cs led)))"
  using ledger_roundtrip [OF assms] same_books_run [OF same_books_sorted [OF assms], of K cs]
  by (auto simp: same_books_def is_blacklisted_def)

lemma ledger_save_load_witness:
  "\<exists>led led'. il_load (il_save ''now'' led) = Inr led' \<and> is_blacklisted ''k2'' led' \<and>
     il_minted led \<noteq> [] \<and> il_pending led \<noteq> []"
proof -
  let ?led = "\<lparr>il_minted = [(''t1'', \<lparr>me_amount = 10, me_issuer_sig = ''aa'', me_issued_at = 0, me_ttl = 9\<rparr>)],
      il_settled = [(''t1'', \<lparr>ds_token_id = ''t1'', ds_claimer_pubkey = ''k1'', ds_chain_depth = 2, ds_settled_at = 5\<rparr>)],
      il_blacklist = {''k2''},
      il_pending = [(''t1'', [\<lparr>pn_claimer_pubkey = ''k2'', pn_chain_depth = 2, pn_submitted_at = 6\<rparr>])]\<rparr>"
  have "ledger_wf ?led" by (simp add: ledger_wf_def)
  from ledger_save_load [OF this, of "''now''" toy_crypto "[]"] obtain led' where
    "il_load (il_save ''now'' ?led) = Inr led'" "is_blacklisted ''k2'' led'"
    by (auto simp: is_blacklisted_def)
  then show ?thesis by (intro exI [of _ ?led] exI [of _ led']) simp
qed

end
