(* ===== verification/DpcBle.thy ===== *)
theory DpcBle
  imports DpcChain
begin

text \<open>
  \<open>src/dpc/ble_session_simulator.py\<close>: the encrypted session over which a token and its chain go
  from payer to payee. Ephemeral keys and nonces are arguments. The lemmas show that a handshake
  succeeds, that what is encrypted in a session decrypts in it to the same token and chain, and
  which errors a payload that does not come from the session gives.
\<close>

section \<open>The session\<close>

record ble_session =
  bs_payer_keypair :: dpc_keypair
  bs_payee_keypair :: dpc_keypair
  bs_session_key :: "bytes option"

definition new_ble_session :: "dpc_keypair \<Rightarrow> dpc_keypair \<Rightarrow> ble_session" where
  "new_ble_session payer_keypair payee_keypair =
     \<lparr>bs_payer_keypair = payer_keypair, bs_payee_keypair = payee_keypair, bs_session_key = None\<rparr>"

text \<open>The fresh values of a handshake.\<close>

record ble_fresh =
  bf_payer_eph :: bytes
  bf_payee_eph :: bytes
  bf_payer_nonce :: bytes
  bf_payee_nonce :: bytes

definition ble_handshake ::
  "dpc_crypto \<Rightarrow> ble_fresh \<Rightarrow> ble_session \<Rightarrow> ((bytes \<times> bytes) \<times> ble_session) dres" where
  "ble_handshake K f s =
     (let session_nonce = bf_payer_nonce f @ bf_payee_nonce f
      in bind_res (dpc_derive_session_key K (bf_payer_eph f) (dc_x_public K (bf_payee_eph f)) session_nonce)
           (\<lambda>payer_session_key.
         bind_res (dpc_derive_session_key K (bf_payee_eph f) (dc_x_public K (bf_payer_eph f)) session_nonce)
           (\<lambda>payee_session_key.
         if payer_session_key \<noteq> payee_session_key then Inl (PyError AssertionError)
         else Inr ((payer_session_key, payee_session_key), s\<lparr>bs_session_key := Some payer_session_key\<rparr>))))"

text \<open>\<open>nonce\<close> is \<open>secrets.token_bytes(12)\<close>.\<close>

definition encrypt_payload ::
  "dpc_crypto \<Rightarrow> bytes \<Rightarrow> ble_session \<Rightarrow> dpc_token \<Rightarrow> dpc_record list \<Rightarrow> bytes dres" where
  "encrypt_payload K nonce s t chain =
     (case bs_session_key s of
        None \<Rightarrow> Inl (SessionDecryptionError ''Session key not established'')
      | Some key \<Rightarrow>
          bind_res (lift_py (parse_json (dk_to_json t))) (\<lambda>token.
          let payload = JObj [(''token'', token), (''chain'', JList (map (\<lambda>r. JObj (dr_to_dict r)) chain))];
              plaintext = utf8_encode (dumps_sorted payload)
          in bind_res (lift_py (of_option (ValueError ''chacha20poly1305'') (dc_encrypt K key nonce plaintext)))
               (\<lambda>ciphertext. Inr (nonce @ ciphertext))))"

definition decrypt_payload ::
  "dpc_crypto \<Rightarrow> ble_session \<Rightarrow> bytes \<Rightarrow> (dpc_token \<times> dpc_record list) dres" where
  "decrypt_payload K s encrypted_bytes =
     (case bs_session_key s of
        None \<Rightarrow> Inl (SessionDecryptionError ''Session key not established'')
      | Some key \<Rightarrow>
          if length encrypted_bytes < 13
          then Inl (SessionDecryptionError ''Encrypted payload is too short'')
          else
            case dc_decrypt K key (take 12 encrypted_bytes) (drop 12 encrypted_bytes) of
              None \<Rightarrow> Inl (SessionDecryptionError ''BLE payload authentication failed'')
            | Some plaintext \<Rightarrow>
                lift_py (bind_res (of_option (ValueError ''UnicodeDecodeError'') (utf8_decode plaintext)) (\<lambda>text.
                  bind_res (bind_res (parse_json text) json_obj) (\<lambda>payload.
                  bind_res (bind_res (json_field ''token'' payload) dk_from_kwargs) (\<lambda>t.
                  bind_res (bind_res (bind_res (json_field ''chain'' payload) json_iter)
                      (map_res dr_from_dict)) (\<lambda>chain.
                  Inr (t, chain)))))))"

text \<open>The session keeps the key of the handshake even when a later step raises.\<close>

definition simulate_transfer ::
  "dpc_crypto \<Rightarrow> ble_fresh \<Rightarrow> bytes \<Rightarrow> dpc_token \<Rightarrow> dpc_record list \<Rightarrow> ble_session \<Rightarrow>
     (dpc_token \<times> dpc_record list) dres \<times> ble_session" where
  "simulate_transfer K f nonce t chain s =
     (case ble_handshake K f s of
        Inl e \<Rightarrow> (Inl e, s)
      | Inr (_, s1) \<Rightarrow>
          (bind_res (bind_res (encrypt_payload K nonce s1 t chain) (decrypt_payload K s1))
             (\<lambda>(received_token, received_chain).
               if dk_token_id received_token \<noteq> dk_token_id t
               then Inl (PyError AssertionError)
               else Inr (received_token, received_chain)), s1))"

section \<open>Handshake and round trip\<close>

lemma ble_handshake_succeeds:
  assumes "dpc_crypto_ok K" and "length (bf_payer_eph f) = 32" and "length (bf_payee_eph f) = 32"
  shows "\<exists>key. length key = 32 \<and> ble_handshake K f s = Inr ((key, key), s\<lparr>bs_session_key := Some key\<rparr>)"
proof -
  from assms obtain shared where
    "dc_x_exchange K (bf_payer_eph f) (dc_x_public K (bf_payee_eph f)) = Some shared"
    "dc_x_exchange K (bf_payee_eph f) (dc_x_public K (bf_payer_eph f)) = Some shared"
    unfolding dpc_crypto_ok_def by blast
  moreover have "length (dc_hkdf K salt info shared) = 32" for salt info
    using assms(1) by (simp add: dpc_crypto_ok_def)
  ultimately show ?thesis by (simp add: ble_handshake_def dpc_derive_session_key_def Let_def)
qed

lemma ble_payload_json:
  "parse_json (dumps_sorted (JObj [(''token'', sort_keys (JObj (dk_to_dict t))),
      (''chain'', JList (map (\<lambda>r. JObj (dr_to_dict r)) chain))])) =
   Inr (JObj [(''chain'', JList (map (\<lambda>r. JObj (sort_key fst (dr_to_dict r))) chain)),
      (''token'', JObj (sort_key fst (dk_to_dict t)))])"
proof -
  let ?chain = "JList (map (\<lambda>r. JObj (dr_to_dict r)) chain)"
    and ?token = "sort_keys (JObj (dk_to_dict t))"
  have wf: "json_wf ?chain" "json_wf ?token"
    using dr_dict(3) json_wf_sort_keys [OF dk_dict(3)] by (auto simp: list_all_iff simp del: json_wf.simps(2) sort_keys.simps)
  have outer_wf: "json_wf (JObj [(''token'', x), (''chain'', y)])" if "json_wf x" "json_wf y" for x y
    using that by simp
  have outer: "sort_keys (JObj [(''token'', x), (''chain'', y)]) =
      JObj [(''chain'', sort_keys y), (''token'', sort_keys x)]" for x y
    by (simp add: less_eq_list_code less_list_code)
  have "sort_keys ?chain = JList (map (\<lambda>r. JObj (sort_key fst (dr_to_dict r))) chain)"
    using dr_dict(1) by (simp del: sort_keys.simps(2))
  then show ?thesis
    unfolding parse_dumps_sorted [OF outer_wf [OF wf(2,1)]] outer sort_keys_idem by (simp only: dk_dict(1))
qed

lemma ble_payload_roundtrip:
  assumes "dpc_crypto_ok K" and "bs_session_key s = Some key" and "length key = 32"
    and "length nonce = 12" and "records_hex chain"
  shows "bind_res (encrypt_payload K nonce s t chain) (decrypt_payload K s) = Inr (t, chain)"
proof -
  let ?text = "dumps_sorted (JObj [(''token'', sort_keys (JObj (dk_to_dict t))),
      (''chain'', JList (map (\<lambda>r. JObj (dr_to_dict r)) chain))])"
  have token: "parse_json (dk_to_json t) = Inr (sort_keys (JObj (dk_to_dict t)))"
    unfolding dk_to_json_def by (rule parse_dumps_sorted [OF dk_dict(3)])
  from assms(1,3,4) obtain c where c: "dc_encrypt K key nonce (utf8_encode ?text) = Some c"
    "length c = length (utf8_encode ?text) + 16" "dc_decrypt K key nonce c = Some (utf8_encode ?text)"
    unfolding dpc_crypto_ok_def by blast
  have enc: "encrypt_payload K nonce s t chain = Inr (nonce @ c)"
    using assms(2) c(1) token by (simp add: encrypt_payload_def Let_def del: sort_keys.simps)
  have dec: "decrypt_payload K s (nonce @ c) = lift_py (bind_res (bind_res (parse_json ?text) json_obj) (\<lambda>payload.
      bind_res (bind_res (json_field ''token'' payload) dk_from_kwargs) (\<lambda>t.
      bind_res (bind_res (bind_res (json_field ''chain'' payload) json_iter) (map_res dr_from_dict)) (\<lambda>chain.
      Inr (t, chain)))))"
    using assms(2,4) c(2,3) by (simp add: decrypt_payload_def utf8_roundtrip del: sort_keys.simps)
  show ?thesis
    unfolding enc bind_res.simps dec ble_payload_json
    by (simp add: json_field_def dr_from_sorted_list [OF assms(5)])
qed

lemma ble_delivers:
  assumes "dpc_crypto_ok K" and "length (bf_payer_eph f) = 32" and "length (bf_payee_eph f) = 32"
    and "length nonce = 12" and "validate_integrity K chain t = Inr ()"
  shows "\<exists>key. length key = 32 \<and> simulate_transfer K f nonce t chain s = (Inr (t, chain), s\<lparr>bs_session_key := Some key\<rparr>)"
proof -
  obtain key where key: "length key = 32"
    "ble_handshake K f s = Inr ((key, key), s\<lparr>bs_session_key := Some key\<rparr>)"
    using ble_handshake_succeeds [OF assms(1-3)] by blast
  have "records_hex chain"
    using assms(5) by (simp add: validate_integrity_Inr chain_valid_def records_of_def records_hex_def
        dr_verified_def dr_hashed_def)
  from ble_payload_roundtrip [OF assms(1) _ key(1) assms(4) this, of "s\<lparr>bs_session_key := Some key\<rparr>" t] key
  show ?thesis by (auto simp: simulate_transfer_def)
qed

section \<open>Properties\<close>

text \<open>
  C30: A session delivers: with fresh keys and nonces of the right lengths, a token with a chain that
  validates arrives unchanged, token and chain, and the session then holds a key of 32 bytes. Before
  a handshake nothing decrypts, and a payload shorter than a nonce and one byte is refused.
\<close>
theorem ble_transfer_delivers:
  assumes "dpc_crypto_ok K" and "length (bf_payer_eph f) = 32" and "length (bf_payee_eph f) = 32"
    and "length nonce = 12" and "validate_integrity K chain t = Inr ()"
  shows "(\<exists>key. length key = 32 \<and> simulate_transfer K f nonce t chain s =
        (Inr (t, chain), s\<lparr>bs_session_key := Some key\<rparr>) \<and>
      (\<forall>data. length data < 13 \<longrightarrow> decrypt_payload K (s\<lparr>bs_session_key := Some key\<rparr>) data =
        Inl (SessionDecryptionError ''Encrypted payload is too short''))) \<and>
    (\<forall>data. decrypt_payload K (new_ble_session payer payee) data =
      Inl (SessionDecryptionError ''Session key not established''))"
  using ble_delivers [OF assms, of s] by (auto simp: decrypt_payload_def new_ble_session_def)

lemma ble_transfer_delivers_witness:
  "\<exists>r. fst (simulate_transfer toy_crypto \<lparr>bf_payer_eph = replicate 32 5, bf_payee_eph = replicate 32 6,
       bf_payer_nonce = replicate 16 7, bf_payee_nonce = replicate 16 8\<rparr> (replicate 12 9)
       (demo_dk 1 ''t1'') [r] (new_ble_session (demo_kp 1) (demo_kp 2))) = Inr (demo_dk 1 ''t1'', [r])"
proof -
  obtain r where "chain_valid toy_crypto [r] (demo_dk 1 ''t1'')" using demo_chain by blast
  then have valid: "validate_integrity toy_crypto [r] (demo_dk 1 ''t1'') = Inr ()"
    by (simp add: validate_integrity_Inr)
  let ?f = "\<lparr>bf_payer_eph = replicate 32 5, bf_payee_eph = replicate 32 6,
      bf_payer_nonce = replicate 16 7, bf_payee_nonce = replicate 16 8\<rparr>"
    and ?s = "new_ble_session (demo_kp 1) (demo_kp 2)"
  from ble_transfer_delivers [OF toy_crypto_ok _ _ _ valid, of ?f "replicate 12 9" ?s "demo_kp 1" "demo_kp 2"]
  have "\<exists>key. simulate_transfer toy_crypto ?f (replicate 12 9) (demo_dk 1 ''t1'') [r] ?s =
      (Inr (demo_dk 1 ''t1'', [r]), ?s\<lparr>bs_session_key := Some key\<rparr>)" by fastforce
  then show ?thesis by (intro exI [of _ r]) auto
qed

end
