(* ===== verification/DpcScenarios.thy ===== *)
theory DpcScenarios
  imports DpcWallet DpcLedger DpcBle Programs
begin

text \<open>
  \<open>src/dpc/run_tests.py\<close>: the functional tests of the stack, as programs over a world of one ledger
  and any number of wallets. What is printed is left out, and so is the look into the message of a
  \<open>HopLimitExceededError\<close>, which is the same wherever it is raised. Keys, identifiers, nonces and clock
  readings come from a supply that is indexed by the number of operations done so far. The main
  result is that all tests pass, whatever the primitives, keys, nonces and times, under what the
  script itself relies on: fresh values differ, and the clock does not run backwards or for more
  than ten seconds.
\<close>

section \<open>Programs\<close>

record dpc_world =
  wl_ledger :: issuer_ledger
  wl_wallets :: "nat \<Rightarrow> dpc_wallet"
  wl_tick :: nat

type_synonym 'a run = "(dpc_world, dpc_exc, 'a) prog"

text \<open>
  \<open>secrets.token_hex\<close> and the clock may be called several times by an operation, so an operation
  at tick \<open>n\<close> uses the values from \<open>4 * n\<close> on.
\<close>

record dpc_supply =
  fr_seed :: "nat \<Rightarrow> bytes"
  fr_hex :: "nat \<Rightarrow> string"
  fr_now :: "nat \<Rightarrow> int"
  fr_ble :: ble_fresh
  fr_ble_nonce :: bytes

definition hex_at :: "dpc_supply \<Rightarrow> dpc_world \<Rightarrow> nat \<Rightarrow> string" where
  "hex_at F w k = fr_hex F (4 * wl_tick w + k)"

definition now_at :: "dpc_supply \<Rightarrow> dpc_world \<Rightarrow> nat \<Rightarrow> int" where
  "now_at F w k = fr_now F (4 * wl_tick w + k)"

abbreviation run_assert :: "(dpc_world \<Rightarrow> bool) \<Rightarrow> unit run" where
  "run_assert \<equiv> run_check (PyError AssertionError)"

text \<open>
  \<open>try: m; raise AssertionError\<close> with an \<open>except\<close> clause for the errors in \<open>p\<close>; the error is the result.
\<close>

definition run_raises :: "(dpc_exc \<Rightarrow> bool) \<Rightarrow> 'a run \<Rightarrow> dpc_exc run" where
  "run_raises p m w =
     (case m w of
        (Inr _, w1) \<Rightarrow> (Inl (PyError AssertionError), w1)
      | (Inl e, w1) \<Rightarrow> (if p e then Inr e else Inl e, w1))"

section \<open>Operations\<close>

abbreviation wallet_pk :: "dpc_world \<Rightarrow> nat \<Rightarrow> string" where
  "wallet_pk w i \<equiv> dw_pk (wl_wallets w i)"

definition next_tick :: "dpc_world \<Rightarrow> dpc_world" where
  "next_tick w = w\<lparr>wl_tick := wl_tick w + 1\<rparr>"

definition put_wallet :: "nat \<Rightarrow> dpc_wallet \<Rightarrow> dpc_world \<Rightarrow> dpc_world" where
  "put_wallet i x w = w\<lparr>wl_wallets := (wl_wallets w)(i := x)\<rparr>"

definition put_ledger :: "issuer_ledger \<Rightarrow> dpc_world \<Rightarrow> dpc_world" where
  "put_ledger led w = w\<lparr>wl_ledger := led\<rparr>"

text \<open>\<open>_wallet\<close>; the issuer has the first key, wallet \<open>i\<close> the one after \<open>i\<close> others.\<close>

definition issuer_kp :: "dpc_crypto \<Rightarrow> dpc_supply \<Rightarrow> dpc_keypair" where
  "issuer_kp K F = keypair_generate K (fr_seed F 0)"

definition start_world :: "dpc_crypto \<Rightarrow> dpc_supply \<Rightarrow> (nat \<Rightarrow> string) \<Rightarrow> dpc_world" where
  "start_world K F names =
     \<lparr>wl_ledger = new_ledger,
      wl_wallets = (\<lambda>i. new_dpc_wallet (names i) (keypair_generate K (fr_seed F (Suc i)))),
      wl_tick = 0\<rparr>"

definition run_mint :: "dpc_crypto \<Rightarrow> dpc_supply \<Rightarrow> nat \<Rightarrow> int \<Rightarrow> (dpc_token \<times> dpc_record list) run" where
  "run_mint K F i amount w =
     (case il_mint_token K (hex_at F w 0) (hex_at F w 1) (now_at F w 0) (issuer_kp K F) (wallet_pk w i) amount
             (wl_ledger w) of
        Inl e \<Rightarrow> (Inl e, next_tick w)
      | Inr (out, led) \<Rightarrow> (Inr out, put_ledger led (next_tick w)))"

definition run_receive :: "dpc_crypto \<Rightarrow> dpc_supply \<Rightarrow> nat \<Rightarrow> dpc_token \<times> dpc_record list \<Rightarrow> receipt run" where
  "run_receive K F i p w =
     (case dw_receive_token K (now_at F w 0) (now_at F w 1) (fst p) (snd p) (wl_wallets w i) of
        Inl e \<Rightarrow> (Inl e, next_tick w)
      | Inr (c, x) \<Rightarrow> (Inr c, put_wallet i x (next_tick w)))"

text \<open>Wallet \<open>i\<close> sends to the key of wallet \<open>j\<close>.\<close>

definition run_send :: "dpc_crypto \<Rightarrow> dpc_supply \<Rightarrow> nat \<Rightarrow> string \<Rightarrow> nat \<Rightarrow> (dpc_token \<times> dpc_record list) run" where
  "run_send K F i token_id j w =
     (let (out, x) = dw_send_token K (now_at F w 0) (hex_at F w 0) token_id (wallet_pk w j) (wl_wallets w i)
      in (out, put_wallet i x (next_tick w)))"

definition run_swap :: "dpc_crypto \<Rightarrow> dpc_supply \<Rightarrow> nat \<Rightarrow> string \<Rightarrow> int \<Rightarrow> nat \<Rightarrow> nat \<Rightarrow> swap_result run" where
  "run_swap K F i token_id amount j issuer w =
     (let st = \<lparr>sw_payment_id = hex_at F w 0, sw_change_id = hex_at F w 1, sw_payment_nonce = hex_at F w 2,
            sw_change_nonce = hex_at F w 3, sw_now = now_at F w 0\<rparr>;
          (out, x) = swap_change K st token_id amount (wallet_pk w j) (wallet_pk w issuer) (wl_wallets w i)
      in (out, put_wallet i x (next_tick w)))"

definition run_settle ::
  "dpc_crypto \<Rightarrow> dpc_supply \<Rightarrow> nat \<Rightarrow> dpc_token \<times> dpc_record list \<Rightarrow> dpc_settlement run" where
  "run_settle K F i p w =
     (let (out, led) = settle_token K (now_at F w 0) (wallet_pk w i) (fst p) (snd p) (wl_ledger w)
      in (out, put_ledger led (next_tick w)))"

definition run_receipt :: "nat \<Rightarrow> string \<Rightarrow> receipt run" where
  "run_receipt i token_id w = (get_receipt token_id (dw_utr (wl_wallets w i)), w)"

text \<open>Attributes of a token that is \<open>None\<close>.\<close>

definition attribute_of :: "'a option \<Rightarrow> 'a dres" where
  "attribute_of x = of_option (PyError (AttributeError ''NoneType'')) x"

text \<open>\<open>xs[-1]\<close>\<close>

definition at_last :: "'a list \<Rightarrow> 'a dres" where
  "at_last xs = (if xs = [] then Inl (PyError IndexError) else Inr (last xs))"

text \<open>The receipt a wallet holds is changed from outside.\<close>

definition put_receipt :: "nat \<Rightarrow> string \<Rightarrow> receipt \<Rightarrow> unit run" where
  "put_receipt i token_id c w =
     (let x = wl_wallets w i; u = dw_utr x
      in (Inr (), put_wallet i (x\<lparr>dw_utr := u\<lparr>ur_entries := AList.update token_id c (ur_entries u)\<rparr>\<rparr>) w))"

definition mint_to :: "dpc_crypto \<Rightarrow> dpc_supply \<Rightarrow> nat \<Rightarrow> int \<Rightarrow> string run" where
  "mint_to K F i amount =
     run_bind (run_mint K F i amount) (\<lambda>p.
     run_bind (run_receive K F i p) (\<lambda>_. run_return (dk_token_id (fst p))))"

definition hand_over :: "dpc_crypto \<Rightarrow> dpc_supply \<Rightarrow> nat \<Rightarrow> string \<Rightarrow> nat \<Rightarrow> (dpc_token \<times> dpc_record list) run" where
  "hand_over K F i token_id j =
     run_bind (run_send K F i token_id j) (\<lambda>p. run_bind (run_receive K F j p) (\<lambda>_. run_return p))"

text \<open>The token goes from \<open>i\<close> along the list; the result is the chain the last wallet received.\<close>

fun relay :: "dpc_crypto \<Rightarrow> dpc_supply \<Rightarrow> string \<Rightarrow> nat \<Rightarrow> nat list \<Rightarrow> dpc_record list \<Rightarrow> dpc_record list run" where
  "relay K F token_id i [] chain = run_return chain"
| "relay K F token_id i (j # js) chain =
     run_bind (hand_over K F i token_id j) (\<lambda>p. relay K F token_id j js (snd p))"

abbreviation lists_token :: "nat \<Rightarrow> string \<Rightarrow> dpc_world \<Rightarrow> bool" where
  "lists_token i token_id w \<equiv> token_id \<in> set (list_tokens (dw_utr (wl_wallets w i)))"

section \<open>The tests\<close>

definition test_T1 :: "dpc_crypto \<Rightarrow> dpc_supply \<Rightarrow> unit run" where
  "test_T1 K F =
     run_bind (mint_to K F 0 50000) (\<lambda>token_id.
     run_bind (relay K F token_id 0 [1..<8] []) (\<lambda>chain.
     run_bind (run_result (at_last chain)) (\<lambda>hop.
     run_bind (run_assert (\<lambda>_. dr_hop_index hop = 7)) (\<lambda>_.
     run_bind (run_raises (\<lambda>e. e = HopLimitExceededError) (run_send K F 7 token_id 8)) (\<lambda>_.
     run_bind (run_assert (lists_token 7 token_id)) (\<lambda>_.
     run_bind (run_send K F 7 token_id 0) (\<lambda>(token, chain).
     run_bind (run_result (at_last chain)) (\<lambda>hop.
     run_assert (\<lambda>_. dr_hop_index hop = 1)))))))))"

fun mint_times :: "dpc_crypto \<Rightarrow> dpc_supply \<Rightarrow> nat \<Rightarrow> int \<Rightarrow> nat \<Rightarrow> unit run" where
  "mint_times K F i amount 0 = run_return ()"
| "mint_times K F i amount (Suc n) = run_bind (mint_to K F i amount) (\<lambda>_. mint_times K F i amount n)"

definition test_T2 :: "dpc_crypto \<Rightarrow> dpc_supply \<Rightarrow> unit run" where
  "test_T2 K F =
     run_bind (mint_times K F 0 100000 10) (\<lambda>_.
     run_bind (run_mint K F 0 1) (\<lambda>(token, chain).
     run_bind (run_raises (\<lambda>e. e = WalletBalanceCapError) (run_receive K F 0 (token, chain))) (\<lambda>_.
     run_bind (run_assert (\<lambda>w. get_balance (wl_wallets w 0) = 1000000)) (\<lambda>_.
     run_assert (\<lambda>w. \<not> lists_token 0 (dk_token_id token) w)))))"

definition with_last_amount :: "int \<Rightarrow> receipt \<Rightarrow> receipt" where
  "with_last_amount amount c =
     c\<lparr>rc_final_hop := (rc_final_hop c)\<lparr>dr_amount_subunits := amount\<rparr>,
       rc_full_chain := butlast (rc_full_chain c) @ [(last (rc_full_chain c))\<lparr>dr_amount_subunits := amount\<rparr>]\<rparr>"

fun is_chain_integrity_error :: "dpc_exc \<Rightarrow> bool" where
  "is_chain_integrity_error (ChainIntegrityError _) = True"
| "is_chain_integrity_error _ = False"

fun is_token_expired_error :: "dpc_exc \<Rightarrow> bool" where
  "is_token_expired_error (TokenExpiredError _) = True"
| "is_token_expired_error _ = False"

definition test_T3 :: "dpc_crypto \<Rightarrow> dpc_supply \<Rightarrow> unit run" where
  "test_T3 K F =
     run_bind (run_raises (\<lambda>e. e = TransactionValueCapError) (run_mint K F 0 110000)) (\<lambda>_.
     run_bind (mint_to K F 0 100000) (\<lambda>token_id.
     run_bind (hand_over K F 0 token_id 1) (\<lambda>_.
     run_bind (mint_to K F 0 100000) (\<lambda>token_id.
     run_bind (run_receipt 0 token_id) (\<lambda>receipt.
     let receipt = with_last_amount 100100 receipt in
     run_bind (put_receipt 0 token_id receipt) (\<lambda>_.
     run_bind (run_raises (\<lambda>e. e = TransactionValueCapError) (run_send K F 0 token_id 1)) (\<lambda>_.
     run_bind (run_assert (lists_token 0 token_id)) (\<lambda>_.
     run_bind (run_raises is_chain_integrity_error (run_result (bind_res (attribute_of (rc_token receipt))
       (validate_integrity K (rc_full_chain receipt))))) (\<lambda>_. run_return ())))))))))"

text \<open>\<open>ttl_expiry = int(time.time()) + offset\<close>, signed anew by the issuer.\<close>

definition renew_ttl :: "dpc_crypto \<Rightarrow> dpc_supply \<Rightarrow> nat \<Rightarrow> string \<Rightarrow> int \<Rightarrow> unit run" where
  "renew_ttl K F i token_id offset =
     run_bind (run_receipt i token_id) (\<lambda>c.
     run_bind (run_result (attribute_of (rc_token c))) (\<lambda>t w.
     run_bind (run_result (keypair_sign K (issuer_kp K F)
         (genesis_payload_bytes (t\<lparr>dk_ttl_expiry := now_at F w 0 + offset\<rparr>)))) (\<lambda>s.
     put_receipt i token_id (c\<lparr>rc_token := Some (t\<lparr>dk_ttl_expiry := now_at F w 0 + offset,
       dk_issuer_signature := to_hex s\<rparr>)\<rparr>)) (next_tick w)))"

definition test_T4 :: "dpc_crypto \<Rightarrow> dpc_supply \<Rightarrow> unit run" where
  "test_T4 K F =
     run_bind (mint_to K F 0 10000) (\<lambda>token_id.
     run_bind (renew_ttl K F 0 token_id (- 1)) (\<lambda>_.
     run_bind (run_raises is_token_expired_error (run_send K F 0 token_id 1)) (\<lambda>_.
     run_bind (run_assert (lists_token 0 token_id)) (\<lambda>_.
     run_bind (mint_to K F 0 10000) (\<lambda>token_id2.
     run_bind (run_receipt 0 token_id2) (\<lambda>c.
     run_bind (run_result (attribute_of (rc_token c))) (\<lambda>token2.
     run_bind (run_raises is_token_expired_error
       (run_result (dk_is_expired 0 (Some (dk_issued_at token2 - 1)) token2))) (\<lambda>e.
     run_bind (run_assert (\<lambda>_. e = TokenExpiredError ''Clock rollback detected'')) (\<lambda>_.
     run_bind (mint_to K F 0 10000) (\<lambda>token_id3.
     run_bind (renew_ttl K F 0 token_id3 10) (\<lambda>_.
     run_bind (hand_over K F 0 token_id3 1) (\<lambda>_. run_return ()))))))))))))"

definition run_proxy_sync ::
  "dpc_crypto \<Rightarrow> dpc_supply \<Rightarrow> nat \<Rightarrow> (nat \<times> dpc_token \<times> dpc_record list) list \<Rightarrow>
     (dpc_settlement \<times> string) list run" where
  "run_proxy_sync K F proxy subs w =
     (let (out, led) = il_proxy_sync K (now_at F w) (wallet_pk w proxy)
            (map (\<lambda>(i, p). (wallet_pk w i, p)) subs) (wl_ledger w)
      in (out, put_ledger led (next_tick w)))"

definition test_T5 :: "dpc_crypto \<Rightarrow> dpc_supply \<Rightarrow> unit run" where
  "test_T5 K F =
     run_bind (mint_to K F 0 10000) (\<lambda>tid_a.
     run_bind (mint_to K F 1 20000) (\<lambda>tid_b.
     run_bind (mint_to K F 2 30000) (\<lambda>tid_c.
     run_bind (hand_over K F 0 tid_a 1) (\<lambda>_.
     run_bind (hand_over K F 1 tid_a 2) (\<lambda>(token_a, chain_a).
     run_bind (hand_over K F 2 tid_c 0) (\<lambda>(token_c, chain_c).
     run_bind (run_receipt 1 tid_b) (\<lambda>receipt_b.
     run_bind (run_result (attribute_of (rc_token receipt_b))) (\<lambda>token_b.
     run_bind (run_proxy_sync K F 3 [(2, token_a, chain_a), (1, token_b, rc_full_chain receipt_b),
       (0, token_c, chain_c)]) (\<lambda>results.
     run_assert (\<lambda>w. get_settled_count (wl_ledger w) = 3))))))))))"

definition test_T6 :: "dpc_crypto \<Rightarrow> dpc_supply \<Rightarrow> unit run" where
  "test_T6 K F =
     run_bind (mint_to K F 0 10000) (\<lambda>token_id.
     run_bind (relay K F token_id 0 [1, 2, 0] []) (\<lambda>chain.
     run_bind (run_result (at_last chain)) (\<lambda>hop.
     run_bind (run_assert (\<lambda>_. dr_hop_index hop = 1)) (\<lambda>_.
     run_bind (relay K F token_id 0 [3, 4, 5, 6, 7, 8] chain) (\<lambda>_.
     run_bind (run_raises (\<lambda>e. e = HopLimitExceededError) (run_send K F 8 token_id 9)) (\<lambda>_.
     run_assert (lists_token 8 token_id)))))))"

definition test_T7 :: "dpc_crypto \<Rightarrow> dpc_supply \<Rightarrow> unit run" where
  "test_T7 K F =
     run_bind (mint_to K F 0 100000) (\<lambda>token_id.
     run_bind (run_swap K F 0 token_id 35000 1 0) (\<lambda>(payment_token, payment_chain, change_token, change_chain).
     run_bind (run_receive K F 1 (payment_token, payment_chain)) (\<lambda>_.
     run_bind (run_receive K F 0 (change_token, change_chain)) (\<lambda>_.
     run_bind (run_assert (\<lambda>w. get_balance (wl_wallets w 1) = 35000)) (\<lambda>_.
     run_bind (run_assert (\<lambda>w. get_balance (wl_wallets w 0) = 65000)) (\<lambda>_.
     run_bind (run_result (validate_integrity K payment_chain payment_token)) (\<lambda>_.
     run_result (validate_integrity K change_chain change_token))))))))"

text \<open>The record \<open>wallet_a\<close> forges; the nonce and the settlements are drawn from the supply.\<close>

definition forge :: "dpc_crypto \<Rightarrow> dpc_supply \<Rightarrow> dpc_token \<Rightarrow> dpc_record list \<Rightarrow> dpc_record run" where
  "forge K F t chain w =
     (bind_res (at_last chain) (\<lambda>hop.
      bind_res (lift_py (new_dpc_record (dk_token_id t) 1 (wallet_pk w 0) (wallet_pk w 2) (dk_amount_subunits t)
        (hex_at F w 0) (dr_chain_hash hop)))
        (dr_sign K (private_key_bytes (dw_keypair (wl_wallets w 0))))), next_tick w)"

definition run_ble :: "dpc_crypto \<Rightarrow> dpc_supply \<Rightarrow> nat \<Rightarrow> nat \<Rightarrow> dpc_token \<times> dpc_record list \<Rightarrow>
    (dpc_token \<times> dpc_record list) run" where
  "run_ble K F i j p w =
     (fst (simulate_transfer K (fr_ble F) (fr_ble_nonce F) (fst p) (snd p)
        (new_ble_session (dw_keypair (wl_wallets w i)) (dw_keypair (wl_wallets w j)))), w)"

definition test_T8 :: "dpc_crypto \<Rightarrow> dpc_supply \<Rightarrow> unit run" where
  "test_T8 K F =
     run_bind (mint_to K F 0 10000) (\<lambda>token_id.
     run_bind (run_receipt 0 token_id) (\<lambda>original.
     run_bind (hand_over K F 0 token_id 1) (\<lambda>(token_b, chain_b).
     run_bind (run_result (attribute_of (rc_token original))) (\<lambda>token.
     run_bind (forge K F token (rc_full_chain original)) (\<lambda>forged.
     let chain_c = rc_full_chain original @ [forged] in
     run_bind (run_settle K F 1 (token_b, chain_b)) (\<lambda>result.
     run_bind (run_assert (\<lambda>_. ds_chain_depth result = int (length chain_b))) (\<lambda>_.
     run_bind (run_raises (\<lambda>e. e = FirstClaimConflictError) (run_settle K F 2 (token, chain_c))) (\<lambda>_.
     run_bind (run_assert (\<lambda>w. is_blacklisted (wallet_pk w 2) (wl_ledger w))) (\<lambda>_.
     run_bind (run_assert (\<lambda>w. \<not> is_blacklisted (wallet_pk w 1) (wl_ledger w))) (\<lambda>_.
     run_bind (run_result (lift_py (map_res (\<lambda>r. dr_from_dict (JObj (dr_to_dict r))) chain_b))) (\<lambda>copies.
     run_bind (run_result (case copies of [] \<Rightarrow> Inl (PyError IndexError)
       | r # rs \<Rightarrow> Inr (r\<lparr>dr_amount_subunits := 1\<rparr> # rs))) (\<lambda>tampered.
     run_bind (run_raises is_chain_integrity_error (run_settle K F 1 (token_b, tampered))) (\<lambda>_.
     run_bind (run_ble K F 0 1 (token_b, chain_b)) (\<lambda>(received_token, received_chain).
     run_bind (run_assert (\<lambda>_. dk_token_id received_token = dk_token_id token_b)) (\<lambda>_.
     run_assert (\<lambda>_. length received_chain = length chain_b))))))))))))))))"

text \<open>The main program: every test on a new world and with the same supply; the numbers of passed and failed tests.\<close>

definition letter_names :: "nat \<Rightarrow> string" where
  "letter_names i = [char_of (65 + i)]"

definition functional_tests :: "dpc_crypto \<Rightarrow> dpc_supply \<Rightarrow> (unit run \<times> (nat \<Rightarrow> string)) list" where
  "functional_tests K F =
     [(test_T1 K F, \<lambda>i. CHR ''W'' # dec_nat i), (test_T2 K F, letter_names), (test_T3 K F, letter_names),
      (test_T4 K F, letter_names), (test_T5 K F, letter_names(3 := ''P'')), (test_T6 K F, letter_names),
      (test_T7 K F, letter_names), (test_T8 K F, letter_names)]"

definition run_tests_main :: "dpc_crypto \<Rightarrow> dpc_supply \<Rightarrow> nat \<times> nat" where
  "run_tests_main K F =
     (let results = map (\<lambda>(test, names). fst (test (start_world K F names))) (functional_tests K F)
      in (length (filter is_ok results), length (filter (\<lambda>r. \<not> is_ok r) results)))"

section \<open>Symbolic execution\<close>

lemma run_raises_Inl: "m w = (Inl e, w1) \<Longrightarrow> p e \<Longrightarrow> run_raises p m w = (Inr e, w1)"
  by (simp add: run_raises_def)

lemma world_simps [simp]:
  "wl_wallets (put_wallet i x w) = (wl_wallets w)(i := x)" "wl_ledger (put_wallet i x w) = wl_ledger w"
  "wl_tick (put_wallet i x w) = wl_tick w"
  "wl_wallets (put_ledger led w) = wl_wallets w" "wl_ledger (put_ledger led w) = led"
  "wl_tick (put_ledger led w) = wl_tick w"
  "wl_wallets (next_tick w) = wl_wallets w" "wl_ledger (next_tick w) = wl_ledger w"
  "wl_tick (next_tick w) = Suc (wl_tick w)"
  by (simp_all add: put_wallet_def put_ledger_def next_tick_def)

section \<open>Worlds\<close>

text \<open>What the script relies on. A test has at most eleven keys and thirty operations.\<close>

definition supply_ok :: "dpc_crypto \<Rightarrow> dpc_supply \<Rightarrow> bool" where
  "supply_ok K F \<longleftrightarrow>
     (\<forall>i. length (fr_seed F i) = 32) \<and> inj_on (\<lambda>i. ed_public (dc_ed25519 K) (fr_seed F i)) {..10} \<and>
     inj_on (fr_hex F) {..<120} \<and>
     (\<forall>i j. i \<le> j \<longrightarrow> fr_now F i \<le> fr_now F j) \<and> (\<forall>i. fr_now F i \<le> fr_now F 0 + 10) \<and>
     length (bf_payer_eph (fr_ble F)) = 32 \<and> length (bf_payee_eph (fr_ble F)) = 32 \<and>
     length (fr_ble_nonce F) = 12"

definition wallet_kp :: "dpc_crypto \<Rightarrow> dpc_supply \<Rightarrow> nat \<Rightarrow> dpc_keypair" where
  "wallet_kp K F i = keypair_generate K (fr_seed F (Suc i))"

definition drawn :: "dpc_supply \<Rightarrow> dpc_world \<Rightarrow> string set" where
  "drawn F w = fr_hex F ` {..<4 * wl_tick w}"

definition wallet_names :: "dpc_wallet \<Rightarrow> string set" where
  "wallet_names x = dict_keys (ur_entries (dw_utr x)) \<union> ur_spent_token_ids (dw_utr x) \<union> ur_seen_nonces (dw_utr x)"

text \<open>Keys as at the start, registers in order, and no identifier or nonce that has not been drawn.\<close>

definition world_ok :: "dpc_crypto \<Rightarrow> dpc_supply \<Rightarrow> dpc_world \<Rightarrow> bool" where
  "world_ok K F w \<longleftrightarrow>
     (\<forall>i. dw_keypair (wl_wallets w i) = wallet_kp K F i \<and> dw_inv K (wl_wallets w i) \<and>
        wallet_names (wl_wallets w i) \<subseteq> drawn F w)"

lemma supply_keys:
  assumes "supply_ok K F"
  shows "dpc_keypair_ok K (issuer_kp K F)" and "dpc_keypair_ok K (wallet_kp K F i)"
    and "i < 10 \<Longrightarrow> j < 10 \<Longrightarrow> public_key_hex (wallet_kp K F i) = public_key_hex (wallet_kp K F j) \<longleftrightarrow> i = j"
    and "i < 10 \<Longrightarrow> public_key_hex (wallet_kp K F i) \<noteq> public_key_hex (issuer_kp K F)"
proof -
  have inj: "inj_on (\<lambda>i. ed_public (dc_ed25519 K) (fr_seed F i)) {..10}" using assms by (simp add: supply_ok_def)
  show "dpc_keypair_ok K (issuer_kp K F)" "dpc_keypair_ok K (wallet_kp K F i)"
    using assms by (simp_all add: supply_ok_def issuer_kp_def wallet_kp_def dpc_keypair_ok_def keypair_generate_def)
  show "public_key_hex (wallet_kp K F i) = public_key_hex (wallet_kp K F j) \<longleftrightarrow> i = j" if "i < 10" "j < 10"
    using that inj_on_eq_iff [OF inj, of "Suc i" "Suc j"]
    by (simp add: wallet_kp_def public_key_hex_def keypair_generate_def to_hex_inject)
  show "public_key_hex (wallet_kp K F i) \<noteq> public_key_hex (issuer_kp K F)" if "i < 10"
    using that inj_on_eq_iff [OF inj, of "Suc i" 0]
    by (simp add: wallet_kp_def issuer_kp_def public_key_hex_def keypair_generate_def to_hex_inject)
qed

lemma supply_fresh: "supply_ok K F \<Longrightarrow> wl_tick w < 30 \<Longrightarrow> k < 4 \<Longrightarrow> hex_at F w k \<notin> drawn F w"
  unfolding supply_ok_def drawn_def hex_at_def
  by (auto simp: image_iff dest!: inj_onD [of "fr_hex F" "{..<120}"])

lemma supply_fresh_eq:
  "supply_ok K F \<Longrightarrow> wl_tick w < 30 \<Longrightarrow> k < 4 \<Longrightarrow> l < 4 \<Longrightarrow> hex_at F w k = hex_at F w l \<longleftrightarrow> k = l"
  unfolding supply_ok_def hex_at_def by (subst inj_on_eq_iff [of "fr_hex F" "{..<120}"]) auto

lemma supply_mono: "supply_ok K F \<Longrightarrow> wl_tick w < wl_tick w' \<Longrightarrow> k < 4 \<Longrightarrow> now_at F w k \<le> now_at F w' l"
  "supply_ok K F \<Longrightarrow> k \<le> l \<Longrightarrow> now_at F w k \<le> now_at F w l"
  by (simp_all add: supply_ok_def now_at_def)

lemma supply_span: "supply_ok K F \<Longrightarrow> fr_now F i \<le> fr_now F j + 10"
proof -
  assume "supply_ok K F"
  then have "fr_now F i \<le> fr_now F 0 + 10" "fr_now F 0 \<le> fr_now F j" by (simp_all add: supply_ok_def)
  then show ?thesis by linarith
qed

lemma supply_window: "supply_ok K F \<Longrightarrow> now_at F w k \<le> now_at F w' l + 10"
  unfolding now_at_def by (rule supply_span)

lemma start_world_ok: "world_ok K F (start_world K F names)"
proof -
  have "wallet_names (new_dpc_wallet n kp) = {}" for n kp
    by (simp add: wallet_names_def new_dpc_wallet_def new_register_def)
  then show ?thesis
    by (simp add: world_ok_def start_world_def wallet_kp_def) (simp add: new_dpc_wallet_def dw_inv_def register_inv_new)
qed

lemma drawn_mono: "wl_tick w \<le> wl_tick w' \<Longrightarrow> drawn F w \<subseteq> drawn F w'"
  by (auto simp: drawn_def)

lemma drawn_next: "k < 4 \<Longrightarrow> wl_tick w < wl_tick w' \<Longrightarrow> hex_at F w k \<in> drawn F w'"
  by (simp add: drawn_def hex_at_def)

lemma world_ok_wallet:
  assumes "world_ok K F w"
  shows "dw_keypair (wl_wallets w i) = wallet_kp K F i" and "dw_inv K (wl_wallets w i)"
    and "wallet_names (wl_wallets w i) \<subseteq> drawn F w"
  using assms by (simp_all add: world_ok_def)

lemma world_ok_put:
  assumes "world_ok K F w" and "wl_tick w \<le> wl_tick w'" and "wl_wallets w' = (wl_wallets w)(i := x)"
    and "dw_keypair x = wallet_kp K F i" and "dw_inv K x" and "wallet_names x \<subseteq> drawn F w'"
  shows "world_ok K F w'"
  using assms drawn_mono [OF assms(2), of F] by (auto simp: world_ok_def)

lemma world_ok_next: "world_ok K F w \<Longrightarrow> world_ok K F (next_tick w)" "world_ok K F (put_ledger led w) = world_ok K F w"
  using drawn_mono [of w "next_tick w" F] by (fastforce simp: world_ok_def, simp add: world_ok_def drawn_def)

lemma wallet_names_fresh:
  assumes "world_ok K F w" and "supply_ok K F" and "wl_tick w < 30" and "k < 4"
  shows "hex_at F w k \<notin> dict_keys (ur_entries (dw_utr (wl_wallets w i)))"
    and "hex_at F w k \<notin> ur_spent_token_ids (dw_utr (wl_wallets w i))"
    and "hex_at F w k \<notin> ur_seen_nonces (dw_utr (wl_wallets w i))"
  using world_ok_wallet(3) [OF assms(1), of i] supply_fresh [OF assms(2-4)] by (auto simp: wallet_names_def)

text \<open>A token of the amount, minted now, with its chain.\<close>

definition minted :: "dpc_crypto \<Rightarrow> dpc_supply \<Rightarrow> nat \<Rightarrow> int \<Rightarrow> dpc_world \<Rightarrow> dpc_token \<Rightarrow> dpc_record \<Rightarrow> bool" where
  "minted K F i amount w t r \<longleftrightarrow>
     dk_token_id t = hex_at F w 0 \<and> dk_amount_subunits t = amount \<and> dk_issuer_pubkey_hex t = public_key_hex (issuer_kp K F) \<and>
     dk_issued_at t = now_at F w 0 \<and> dk_ttl_expiry t = now_at F w 0 + token_ttl_seconds \<and> chain_valid K [r] t \<and>
     record_with (hex_at F w 0) 0 (public_key_hex (issuer_kp K F)) (wallet_pk w i) amount genesis_hash r \<and>
     dr_nonce r = hex_at F w 1"

lemma run_mint_returns:
  assumes "dpc_crypto_ok K" and "supply_ok K F" and "0 < amount" and "amount \<le> 100000"
  obtains t r me where "run_mint K F i amount w = (Inr (t, [r]), put_ledger
      ((wl_ledger w)\<lparr>il_minted := AList.update (hex_at F w 0) me (il_minted (wl_ledger w))\<rparr>) (next_tick w))"
    "minted K F i amount w t r"
proof -
  have "amount \<le> max_single_tx_subunits" using assms(4) by (simp add: max_single_tx_subunits_def)
  then obtain t r me where "il_mint_token K (hex_at F w 0) (hex_at F w 1) (now_at F w 0) (issuer_kp K F) (wallet_pk w i)
      amount (wl_ledger w) =
      Inr ((t, [r]), (wl_ledger w)\<lparr>il_minted := AList.update (hex_at F w 0) me (il_minted (wl_ledger w))\<rparr>)"
    "minted K F i amount w t r"
    unfolding minted_def
    by (rule il_mint_returns [OF assms(1) supply_keys(1) [OF assms(2)] assms(3),
      of "hex_at F w 0" "hex_at F w 1" "now_at F w 0" "wallet_pk w i" "wl_ledger w"]) blast
  then show thesis by (intro that) (simp_all add: run_mint_def)
qed

lemma run_receive_minted:
  assumes "dpc_crypto_ok K" and "supply_ok K F" and "world_ok K F w" and "minted K F i amount w t r"
    and "wl_tick w < 29" and "w' = put_ledger led (next_tick w)" and "0 < amount"
  shows "run_receive K F i (t, [r]) w' =
    (if get_balance (wl_wallets w i) + amount \<le> 1000000
     then (Inr (paid_receipt (now_at F w' 1) t [] r),
       put_wallet i (added_to (paid_receipt (now_at F w' 1) t [] r) (wl_wallets w i)) (next_tick w'))
     else (Inl WalletBalanceCapError, next_tick w'))"
proof -
  have "wl_tick w < 30" using assms(5) by simp
  note fresh = wallet_names_fresh [OF assms(3,2) this, of _ i]
  have t: "dk_token_id t = hex_at F w 0" "dk_amount_subunits t = amount" "dk_issued_at t = now_at F w 0"
    "dk_ttl_expiry t = now_at F w 0 + 604800" "chain_valid K ([] @ [r]) t" "dr_nonce r = hex_at F w 1"
    "dr_receiver_pubkey_hex r = wallet_pk w i"
    using assms(4) by (simp_all add: minted_def token_ttl_seconds_def record_with_def)
  have "now_at F w 0 \<le> now_at F w' 0" "now_at F w' 0 \<le> now_at F w 0 + 604800"
    using supply_mono(1) [OF assms(2), of w w' 0 0] supply_window [OF assms(2), of w' 0 w 0] assms(6) by simp_all
  then have "dw_receive_token K (now_at F w' 0) (now_at F w' 1) t ([] @ [r]) (wl_wallets w i) =
    (if get_balance (wl_wallets w i) + dk_amount_subunits t \<le> 1000000
     then Inr (paid_receipt (now_at F w' 1) t [] r, added_to (paid_receipt (now_at F w' 1) t [] r) (wl_wallets w i))
     else Inl WalletBalanceCapError)"
    using t fresh [of 0] fresh [of 1] by (intro dw_receive_chain) simp_all
  then show ?thesis using assms(6) t(2) by (simp add: run_receive_def)
qed

lemma receive_world_ok:
  assumes "world_ok K F w" and "run_receive K F i (t, chain) w = (Inr c, w')" and "0 \<le> dk_amount_subunits t"
    and "insert (dk_token_id t) (dr_nonce ` set chain) \<subseteq> drawn F (next_tick w)"
  shows "world_ok K F w'" and "wl_tick w' = Suc (wl_tick w)"
proof -
  obtain x where x: "dw_receive_token K (now_at F w 0) (now_at F w 1) t chain (wl_wallets w i) = Inr (c, x)"
    "w' = put_wallet i x (next_tick w)"
    using assms(2) by (auto simp: run_receive_def split: sum.splits)
  note i = world_ok_wallet [OF assms(1), of i]
  note r = dw_receive_Inr [OF x(1)] and inv = dw_receive_inv [OF i(2) x(1) assms(3)]
  note u = add_receipt_Inr(3) [OF r(6)]
  have "wallet_names x \<subseteq> wallet_names (wl_wallets w i) \<union> insert (dk_token_id t) (dr_nonce ` set chain)"
    unfolding wallet_names_def u r(5) by auto
  also have "\<dots> \<subseteq> drawn F w'"
    using i(3) assms(4) drawn_mono [of w "next_tick w" F] x(2) by (auto simp: drawn_def)
  finally show "world_ok K F w'"
    using inv i(1) x(2) by (intro world_ok_put [OF assms(1), of w' i x]) auto
  show "wl_tick w' = Suc (wl_tick w)" by (simp add: x(2))
qed

lemma mint_to_returns:
  assumes "dpc_crypto_ok K" and "supply_ok K F" and "world_ok K F w" and "wl_tick w < 29"
    and "0 < amount" and "amount \<le> 100000" and "get_balance (wl_wallets w i) + amount \<le> 1000000"
  obtains t r me clock w' where "mint_to K F i amount w = (Inr (hex_at F w 0), w')" "minted K F i amount w t r"
    "world_ok K F w'" "wl_tick w' = Suc (Suc (wl_tick w))"
    "wl_wallets w' = (wl_wallets w)(i := added_to (paid_receipt clock t [] r) (wl_wallets w i))"
    "wl_ledger w' = (wl_ledger w)\<lparr>il_minted := AList.update (hex_at F w 0) me (il_minted (wl_ledger w))\<rparr>"
proof -
  obtain t r me where mint: "run_mint K F i amount w = (Inr (t, [r]), put_ledger
      ((wl_ledger w)\<lparr>il_minted := AList.update (hex_at F w 0) me (il_minted (wl_ledger w))\<rparr>) (next_tick w))"
    and m: "minted K F i amount w t r"
    by (rule run_mint_returns [OF assms(1,2,5,6)])
  define w1 where "w1 = put_ledger
      ((wl_ledger w)\<lparr>il_minted := AList.update (hex_at F w 0) me (il_minted (wl_ledger w))\<rparr>) (next_tick w)"
  let ?c = "paid_receipt (now_at F w1 1) t [] r"
  define w2 where "w2 = put_wallet i (added_to ?c (wl_wallets w i)) (next_tick w1)"
  have receive: "run_receive K F i (t, [r]) w1 = (Inr ?c, w2)"
    using run_receive_minted [OF assms(1-3) m assms(4) w1_def assms(5)] assms(7) by (simp add: w2_def)
  have t: "dk_token_id t = hex_at F w 0" "dk_amount_subunits t = amount" "dr_nonce r = hex_at F w 1"
    using m by (simp_all add: minted_def)
  have "world_ok K F w1" using assms(3) by (simp add: world_ok_next w1_def)
  moreover have "{hex_at F w 0, hex_at F w 1} \<subseteq> drawn F (next_tick w1)"
    by (simp add: drawn_next w1_def)
  ultimately have "world_ok K F w2"
    using receive_world_ok(1) [OF _ receive] t assms(5) by simp
  moreover have "mint_to K F i amount w = (Inr (hex_at F w 0), w2)"
    by (simp add: mint_to_def run_steps mint [folded w1_def] receive t(1))
  ultimately show thesis by (intro that [OF _ m, of w2]) (simp_all add: w2_def w1_def)
qed

lemma send_world_ok:
  assumes "dpc_crypto_ok K" and "supply_ok K F" and "world_ok K F w" and "run_send K F i tid j w = (out, w')"
  shows "world_ok K F w'" and "wl_tick w' = Suc (wl_tick w)"
proof -
  obtain x where x: "dw_send_token K (now_at F w 0) (hex_at F w 0) tid (wallet_pk w j) (wl_wallets w i) = (out, x)"
    "w' = put_wallet i x (next_tick w)"
    using assms(4) by (auto simp: run_send_def split: prod.splits)
  note i = world_ok_wallet [OF assms(3), of i]
  have kp: "dpc_keypair_ok K (dw_keypair (wl_wallets w i))" using i(1) supply_keys(2) [OF assms(2)] by simp
  have inv: "dw_inv K x \<and> dw_keypair x = wallet_kp K F i"
    using dw_step_inv [OF dw_step.Send [OF x(1)] assms(1) kp i(2)] i(1) by simp
  have "wallet_names x \<subseteq> wallet_names (wl_wallets w i)"
  proof (rule dw_send_cases [OF assms(1) kp i(2), of "now_at F w 0" "hex_at F w 0" tid "wallet_pk w j"])
    fix e w1 assume "dw_send_token K (now_at F w 0) (hex_at F w 0) tid (wallet_pk w j) (wl_wallets w i) = (Inl e, w1)"
      "same_register (dw_utr w1) (dw_utr (wl_wallets w i))"
    with x(1) show ?thesis by (auto simp: same_register_def wallet_names_def)
  next
    fix c t r u assume "dw_send_token K (now_at F w 0) (hex_at F w 0) tid (wallet_pk w j) (wl_wallets w i) =
        (Inr (t, rc_full_chain c @ [r]), (wl_wallets w i)\<lparr>dw_utr := u\<rparr>)"
      and "ur_spend tid (dw_utr (wl_wallets w i)) = Inr (c, u)"
    then have "x = spent_from tid (wl_wallets w i)" "map_of (ur_entries (dw_utr (wl_wallets w i))) tid = Some c"
      using x(1) by (simp_all add: ur_spend_Inr spent_from_def)
    moreover from this(2) have "tid \<in> dict_keys (ur_entries (dw_utr (wl_wallets w i)))"
      by (metis map_of_eq_None_iff option.distinct(1) set_map)
    ultimately show ?thesis
      by (auto simp: wallet_names_def spent_from_def dict_keys_delete simp del: set_map)
  qed
  also have "\<dots> \<subseteq> drawn F w'" using i(3) drawn_mono [of w w' F] x(2) by auto
  finally show "world_ok K F w'"
    using inv x(2) by (intro world_ok_put [OF assms(3), of w' i x]) auto
  show "wl_tick w' = Suc (wl_tick w)" by (simp add: x(2))
qed

text \<open>A receipt of wallet \<open>i\<close> for a token of a payable amount that does not expire during the run.\<close>

definition holds :: "dpc_supply \<Rightarrow> dpc_world \<Rightarrow> nat \<Rightarrow> string \<Rightarrow> receipt \<Rightarrow> dpc_token \<Rightarrow> bool" where
  "holds F w i tid c t \<longleftrightarrow> map_of (ur_entries (dw_utr (wl_wallets w i))) tid = Some c \<and> rc_token c = Some t \<and>
     dk_token_id t = tid \<and> dk_issued_at t \<le> now_at F w 0 \<and> (\<forall>n. fr_now F n \<le> dk_ttl_expiry t) \<and>
     dk_amount_subunits t \<le> 100000"

lemma holds_receipt:
  assumes "supply_ok K F" and "world_ok K F w" and "holds F w i tid c t"
  shows "receipt_ok K (dw_pk (wl_wallets w i)) (ur_seen_nonces (dw_utr (wl_wallets w i))) tid c"
    and "receipt_amount c = dk_amount_subunits t" and "dr_amount_subunits (rc_final_hop c) = dk_amount_subunits t"
    and "0 \<le> dk_amount_subunits t" and "dr_nonce ` set (rc_full_chain c) \<subseteq> drawn F w" and "tid \<in> drawn F w"
    and "chain_valid K (rc_full_chain c) t"
proof -
  have inv: "register_inv K (dw_pk (wl_wallets w i)) (dw_utr (wl_wallets w i))"
    using world_ok_wallet(2) [OF assms(2)] by (simp add: dw_inv_def)
  have entry: "map_of (ur_entries (dw_utr (wl_wallets w i))) tid = Some c" using assms(3) by (simp add: holds_def)
  show ok: "receipt_ok K (dw_pk (wl_wallets w i)) (ur_seen_nonces (dw_utr (wl_wallets w i))) tid c"
    using register_inv_entry(1) [OF inv entry] .
  show "receipt_amount c = dk_amount_subunits t" using assms(3) by (simp add: holds_def receipt_amount_def)
  with receipt_ok_amount [OF ok] show "dr_amount_subunits (rc_final_hop c) = dk_amount_subunits t"
    "0 \<le> dk_amount_subunits t" by simp_all
  show "dr_nonce ` set (rc_full_chain c) \<subseteq> drawn F w"
    using ok world_ok_wallet(3) [OF assms(2), of i] unfolding receipt_ok_def wallet_names_def by blast
  have "tid \<in> dict_keys (ur_entries (dw_utr (wl_wallets w i)))"
    using entry by (metis map_of_eq_None_iff option.distinct(1) set_map)
  with world_ok_wallet(3) [OF assms(2), of i] show "tid \<in> drawn F w" unfolding wallet_names_def by blast
  show "chain_valid K (rc_full_chain c) t" using ok assms(3) by (auto simp: receipt_ok_def holds_def)
qed

lemma hand_over_returns:
  assumes "dpc_crypto_ok K" and "supply_ok K F" and "world_ok K F w" and "wl_tick w < 29" and "i \<noteq> j"
    and "holds F w i tid c t" and "next_hop (rc_full_chain c) (wallet_pk w j) \<le> 7"
    and "tid \<notin> dict_keys (ur_entries (dw_utr (wl_wallets w j)))"
    and "tid \<in> ur_spent_token_ids (dw_utr (wl_wallets w j)) \<or>
      dr_nonce ` set (rc_full_chain c) \<inter> ur_seen_nonces (dw_utr (wl_wallets w j)) = {}"
    and "get_balance (wl_wallets w j) + dk_amount_subunits t \<le> 1000000"
  obtains rec clock w' where "hand_over K F i tid j w = (Inr (t, rc_full_chain c @ [rec]), w')"
    "world_ok K F w'" "wl_tick w' = Suc (Suc (wl_tick w))" "wl_ledger w' = wl_ledger w"
    "wl_wallets w' = (wl_wallets w)(i := spent_from tid (wl_wallets w i),
       j := added_to (paid_receipt clock t (rc_full_chain c) rec) (wl_wallets w j))"
    "chain_valid K (rc_full_chain c @ [rec]) t" "dr_nonce rec = hex_at F w 0"
    "record_with tid (next_hop (rc_full_chain c) (wallet_pk w j)) (wallet_pk w i) (wallet_pk w j)
       (dk_amount_subunits t) (dr_chain_hash (last (rc_full_chain c))) rec"
proof -
  let ?s = "wl_wallets w i" and ?r = "wl_wallets w j"
  note i = world_ok_wallet [OF assms(3), of i]
  note held = holds_receipt [OF assms(2,3,6)]
  have kp: "dpc_keypair_ok K (dw_keypair ?s)" using i(1) supply_keys(2) [OF assms(2)] by simp
  have t: "rc_token c = Some t" "dk_issued_at t \<le> now_at F w 0" "\<forall>n. fr_now F n \<le> dk_ttl_expiry t"
    "dk_amount_subunits t \<le> 100000" "map_of (ur_entries (dw_utr ?s)) tid = Some c" "dk_token_id t = tid"
    using assms(6) by (simp_all add: holds_def)
  have sendable: "sendable (now_at F w 0) c (dw_pk ?r)"
    using t assms(7) held(3) by (simp add: sendable_def now_at_def max_single_tx_subunits_def max_offline_hops_def)
  define w1 where "w1 = put_wallet i (spent_from tid ?s) (next_tick w)"
  have clock: "now_at F w 0 \<le> now_at F w1 0" using supply_mono(1) [OF assms(2)] by (simp add: w1_def)
  have fresh: "hex_at F w 0 \<notin> ur_seen_nonces (dw_utr ?r)" using wallet_names_fresh(3) [OF assms(3,2)] assms(4) by simp
  have ttl: "\<forall>t'. rc_token c = Some t' \<longrightarrow> now_at F w1 0 \<le> dk_ttl_expiry t'" using t by (simp add: now_at_def)
  have room: "get_balance ?r + receipt_amount c \<le> 1000000" using assms(10) held(2) by simp
  obtain t' rec where t': "rc_token c = Some t'" and p':
    "dw_send_token K (now_at F w 0) (hex_at F w 0) tid (dw_pk ?r) ?s = (Inr (t', rc_full_chain c @ [rec]), spent_from tid ?s)"
    "dw_receive_token K (now_at F w1 0) (now_at F w1 1) t' (rc_full_chain c @ [rec]) ?r =
       Inr (paid_receipt (now_at F w1 1) t' (rc_full_chain c) rec,
         added_to (paid_receipt (now_at F w1 1) t' (rc_full_chain c) rec) ?r)"
    "chain_valid K (rc_full_chain c @ [rec]) t'" "dr_nonce rec = hex_at F w 0"
    "record_with tid (next_hop (rc_full_chain c) (dw_pk ?r)) (dw_pk ?s) (dw_pk ?r) (dk_amount_subunits t')
       (dr_chain_hash (last (rc_full_chain c))) rec"
    by (rule payment_step [OF assms(1) kp i(2) t(5) sendable clock ttl assms(8) fresh assms(9) room, of "now_at F w1 1"])
  have "t' = t" using t' t(1) by simp
  note p = p' [unfolded this]
  have send: "run_send K F i tid j w = (Inr (t, rc_full_chain c @ [rec]), w1)"
    using p(1) by (simp add: run_send_def w1_def)
  let ?x = "added_to (paid_receipt (now_at F w1 1) t (rc_full_chain c) rec) ?r"
  define w2 where "w2 = put_wallet j ?x (next_tick w1)"
  have receive: "run_receive K F j (t, rc_full_chain c @ [rec]) w1 =
      (Inr (paid_receipt (now_at F w1 1) t (rc_full_chain c) rec), w2)"
    using p(2) assms(5) by (simp add: run_receive_def w2_def w1_def now_at_def)
  have "insert (dk_token_id t) (dr_nonce ` set (rc_full_chain c @ [rec])) \<subseteq> drawn F (next_tick w1)"
    using held(5,6) t(6) p(4) drawn_mono [of w "next_tick w1" F] by (auto simp: drawn_next w1_def)
  with receive_world_ok(1) [OF send_world_ok(1) [OF assms(1-3) send] receive held(4)]
  have "world_ok K F w2" by simp
  moreover have "hand_over K F i tid j w = (Inr (t, rc_full_chain c @ [rec]), w2)"
    by (simp add: hand_over_def run_steps send receive)
  ultimately show thesis using p(3-5) by (intro that [of rec w2 "now_at F w1 1"]) (simp_all add: w2_def w1_def)
qed

text \<open>A payment refused with an error of the package leaves the wallet as it was.\<close>

lemma send_refused:
  assumes "dpc_crypto_ok K" and "supply_ok K F" and "world_ok K F w"
    and "map_of (ur_entries (dw_utr (wl_wallets w i))) tid = Some c"
    and "send_body K (now_at F w 0) (hex_at F w 0) (dw_keypair (wl_wallets w i)) c (wallet_pk w j) = Inl e" and "is_dpc_error e"
  obtains w' where "run_send K F i tid j w = (Inl e, w')" "world_ok K F w'" "wl_tick w' = Suc (wl_tick w)"
    "wl_ledger w' = wl_ledger w" "lists_token i tid w'" "map_of (ur_entries (dw_utr (wl_wallets w' i))) tid = Some c"
    "get_balance (wl_wallets w' i) = get_balance (wl_wallets w i)"
    "\<And>k. k \<noteq> i \<Longrightarrow> wl_wallets w' k = wl_wallets w k"
proof -
  let ?s = "wl_wallets w i"
  have inv: "register_inv K (dw_pk ?s) (dw_utr ?s)" using world_ok_wallet(2) [OF assms(3)] by (simp add: dw_inv_def)
  obtain u where u: "ur_spend tid (dw_utr ?s) = Inr (c, u)" using assms(4) by (simp add: ur_spend_Inr)
  have same: "same_register (restore_unspent c u) (dw_utr ?s)"
    using restore_after_spend(1) [OF u _ register_inv_entry(3,2) [OF inv assms(4)]] inv by (simp add: register_inv_def)
  define w1 where "w1 = put_wallet i (?s\<lparr>dw_utr := restore_unspent c u\<rparr>) (next_tick w)"
  have send: "run_send K F i tid j w = (Inl e, w1)"
    using assms(5,6) u by (simp add: run_send_def dw_send_token_def w1_def)
  have entry: "map_of (ur_entries (restore_unspent c u)) tid = Some c" using same assms(4) by (simp add: same_register_def)
  then have "lists_token i tid w1" by (force simp: list_tokens_def w1_def dest: map_of_SomeD)
  with entry same send_world_ok(1) [OF assms(1-3) send] show thesis
    by (intro that [OF send]) (simp_all add: w1_def get_balance_def same_register_def)
qed

lemma holds_body:
  assumes "dpc_crypto_ok K" and "supply_ok K F" and "world_ok K F w" and "holds F w i tid c t"
    and "7 < next_hop (rc_full_chain c) (wallet_pk w j)"
  shows "send_body K (now_at F w 0) (hex_at F w 0) (dw_keypair (wl_wallets w i)) c (wallet_pk w j) = Inl HopLimitExceededError"
proof -
  have kp: "dpc_keypair_ok K (dw_keypair (wl_wallets w i))"
    using world_ok_wallet(1) [OF assms(3)] supply_keys(2) [OF assms(2)] by simp
  obtain t' r where "rc_token c = Some t'" "send_body K (now_at F w 0) (hex_at F w 0) (dw_keypair (wl_wallets w i)) c (wallet_pk w j) =
       bind_res (dk_is_expired (now_at F w 0) None t') (\<lambda>expired.
         if expired then Inl (TokenExpiredError ''Token has expired'')
         else if max_single_tx_subunits < dk_amount_subunits t' then Inl TransactionValueCapError
         else if max_offline_hops < next_hop (rc_full_chain c) (wallet_pk w j) then Inl HopLimitExceededError
         else Inr (t', rc_full_chain c @ [r]))"
    by (rule send_body_eq [OF assms(1) kp holds_receipt(1) [OF assms(2-4)]])
  moreover have "now_at F w 0 \<le> dk_ttl_expiry t" using assms(4) by (simp add: holds_def now_at_def)
  ultimately show ?thesis using assms(4,5)
    by (simp add: holds_def dk_is_expired_def max_single_tx_subunits_def max_offline_hops_def)
qed

lemma send_over_hop_limit:
  assumes "dpc_crypto_ok K" and "supply_ok K F" and "world_ok K F w" and "holds F w i tid c t"
    and "7 < next_hop (rc_full_chain c) (wallet_pk w j)"
  obtains w' where "run_send K F i tid j w = (Inl HopLimitExceededError, w')" "world_ok K F w'"
    "wl_tick w' = Suc (wl_tick w)" "wl_ledger w' = wl_ledger w" "lists_token i tid w'" "holds F w' i tid c t"
    "\<And>k. k \<noteq> i \<Longrightarrow> wl_wallets w' k = wl_wallets w k"
proof -
  have entry: "map_of (ur_entries (dw_utr (wl_wallets w i))) tid = Some c" using assms(4) by (simp add: holds_def)
  have "is_dpc_error HopLimitExceededError" by simp
  from send_refused [OF assms(1-3) entry holds_body [OF assms] this]
  obtain w' where w': "run_send K F i tid j w = (Inl HopLimitExceededError, w')" "world_ok K F w'"
    "wl_tick w' = Suc (wl_tick w)" "wl_ledger w' = wl_ledger w" "lists_token i tid w'"
    "map_of (ur_entries (dw_utr (wl_wallets w' i))) tid = Some c" "\<And>k. k \<noteq> i \<Longrightarrow> wl_wallets w' k = wl_wallets w k"
    by metis
  have "holds F w' i tid c t"
    using assms(4) w'(6) supply_mono(1) [OF assms(2), of w w' 0 0] w'(3) by (simp add: holds_def)
  with w' show thesis by (intro that)
qed

section \<open>A token that goes from wallet to wallet\<close>

text \<open>Wallet \<open>i\<close> holds the token, after those in \<open>V\<close>; every other wallet can take it.\<close>

definition carried :: "dpc_crypto \<Rightarrow> dpc_supply \<Rightarrow> dpc_world \<Rightarrow> string \<Rightarrow> nat \<Rightarrow> receipt \<Rightarrow> dpc_token \<Rightarrow> nat set \<Rightarrow> bool" where
  "carried K F w tid i c t V \<longleftrightarrow>
     world_ok K F w \<and> holds F w i tid c t \<and> i < 10 \<and> V \<subseteq> {..<10} \<and>
     (\<forall>j < 10. j \<noteq> i \<longrightarrow> tid \<notin> dict_keys (ur_entries (dw_utr (wl_wallets w j))) \<and>
        get_balance (wl_wallets w j) + dk_amount_subunits t \<le> 1000000 \<and>
        (if j \<in> V then tid \<in> ur_spent_token_ids (dw_utr (wl_wallets w j))
         else dr_nonce ` set (rc_full_chain c) \<inter> ur_seen_nonces (dw_utr (wl_wallets w j)) = {})) \<and>
     dr_sender_pubkey_hex ` set (rc_full_chain c) =
       insert (public_key_hex (issuer_kp K F)) ((\<lambda>j. public_key_hex (wallet_kp K F j)) ` V)"

abbreviation last_hop :: "receipt \<Rightarrow> int" where
  "last_hop c \<equiv> dr_hop_index (last (rc_full_chain c))"

lemma carried_next_hop:
  assumes "supply_ok K F" and "carried K F w tid i c t V" and "j < 10"
  shows "next_hop (rc_full_chain c) (wallet_pk w j) = (if j \<in> V then 1 else last_hop c + 1)"
proof -
  have pk: "wallet_pk w j = public_key_hex (wallet_kp K F j)"
    using assms(2) by (simp add: carried_def world_ok_def)
  have "public_key_hex (wallet_kp K F j) \<in> dr_sender_pubkey_hex ` set (rc_full_chain c) \<longleftrightarrow> j \<in> V"
    using assms(2,3) supply_keys(3,4) [OF assms(1)] unfolding carried_def by blast
  then show ?thesis by (simp add: next_hop_def pk)
qed

text \<open>
  What the handling of another token does to the wallets: it adds the nonces \<open>N\<close> and at most the amount.
\<close>

definition aside :: "dpc_world \<Rightarrow> dpc_world \<Rightarrow> string \<Rightarrow> string set \<Rightarrow> int \<Rightarrow> bool" where
  "aside w w' tid N amount \<longleftrightarrow> wl_tick w < wl_tick w' \<and>
     (\<forall>k x. x \<noteq> tid \<longrightarrow>
        map_of (ur_entries (dw_utr (wl_wallets w' k))) x = map_of (ur_entries (dw_utr (wl_wallets w k))) x \<and>
        (x \<in> ur_spent_token_ids (dw_utr (wl_wallets w k)) \<longrightarrow> x \<in> ur_spent_token_ids (dw_utr (wl_wallets w' k)))) \<and>
     (\<forall>k. ur_seen_nonces (dw_utr (wl_wallets w' k)) \<subseteq> ur_seen_nonces (dw_utr (wl_wallets w k)) \<union> N \<and>
        get_balance (wl_wallets w' k) \<le> get_balance (wl_wallets w k) + amount)"

lemma added_balance: "get_balance (added_to c x) = get_balance x + receipt_amount c"
  by (simp add: added_to_def get_balance_def total_balance_def dict_total_def)

lemma spent_balance:
  assumes "world_ok K F w" and "map_of (ur_entries (dw_utr (wl_wallets w i))) tid = Some c"
  shows "get_balance (spent_from tid (wl_wallets w i)) = get_balance (wl_wallets w i) - receipt_amount c"
proof -
  have inv: "register_inv K (dw_pk (wl_wallets w i)) (dw_utr (wl_wallets w i))"
    using world_ok_wallet(2) [OF assms(1)] by (simp add: dw_inv_def)
  have "ur_spend tid (dw_utr (wl_wallets w i)) = Inr (c, dw_utr (spent_from tid (wl_wallets w i)))"
    using assms(2) by (simp add: ur_spend_Inr spent_from_def)
  from register_inv_spend(2) [OF inv this] show ?thesis by (simp add: get_balance_def)
qed

lemma carried_aside:
  assumes "supply_ok K F" and "carried K F w tid i c t V" and "aside w w' tid' N amount" and "tid \<noteq> tid'" and "world_ok K F w'"
    and "N \<inter> dr_nonce ` set (rc_full_chain c) = {}"
    and "\<forall>j < 10. get_balance (wl_wallets w j) + amount + dk_amount_subunits t \<le> 1000000"
  shows "carried K F w' tid i c t V"
  unfolding carried_def
proof (intro conjI allI impI)
  note c = assms(2) [unfolded carried_def] and a = assms(3) [unfolded aside_def]
  show "world_ok K F w'" "i < 10" "V \<subseteq> {..<10}" using assms(5) c by simp_all
  show "holds F w' i tid c t" using c a assms(4) supply_mono(1) [OF assms(1), of w w' 0 0] by (simp add: holds_def)
  show "dr_sender_pubkey_hex ` set (rc_full_chain c) =
    insert (public_key_hex (issuer_kp K F)) ((\<lambda>j. public_key_hex (wallet_kp K F j)) ` V)" using c by blast
  fix j assume j: "j < 10" "j \<noteq> i"
  have old: "tid \<notin> dict_keys (ur_entries (dw_utr (wl_wallets w j)))"
    "if j \<in> V then tid \<in> ur_spent_token_ids (dw_utr (wl_wallets w j))
         else dr_nonce ` set (rc_full_chain c) \<inter> ur_seen_nonces (dw_utr (wl_wallets w j)) = {}"
    using c j by blast+
  show "tid \<notin> dict_keys (ur_entries (dw_utr (wl_wallets w' j)))"
    using old(1) a assms(4) by (simp add: map_of_eq_None_iff [symmetric] del: set_map)
  have "get_balance (wl_wallets w' j) \<le> get_balance (wl_wallets w j) + amount" using a by simp
  with assms(7) j(1) show "get_balance (wl_wallets w' j) + dk_amount_subunits t \<le> 1000000" by fastforce
  have seen: "ur_seen_nonces (dw_utr (wl_wallets w' j)) \<subseteq> ur_seen_nonces (dw_utr (wl_wallets w j)) \<union> N" using a by blast
  show "if j \<in> V then tid \<in> ur_spent_token_ids (dw_utr (wl_wallets w' j))
         else dr_nonce ` set (rc_full_chain c) \<inter> ur_seen_nonces (dw_utr (wl_wallets w' j)) = {}"
  proof (cases "j \<in> V")
    case True
    with old(2) a assms(4) show ?thesis by simp
  next
    case False
    with old(2) have "dr_nonce ` set (rc_full_chain c) \<inter> ur_seen_nonces (dw_utr (wl_wallets w j)) = {}" by simp
    with False seen assms(6) show ?thesis by auto
  qed
qed

lemma carried_others:
  assumes "carried K F w tid i c t V" and "k < 10" and "k \<noteq> i"
  shows "tid \<notin> dict_keys (ur_entries (dw_utr (wl_wallets w k)))"
    and "get_balance (wl_wallets w k) + dk_amount_subunits t \<le> 1000000"
    and "if k \<in> V then tid \<in> ur_spent_token_ids (dw_utr (wl_wallets w k))
      else dr_nonce ` set (rc_full_chain c) \<inter> ur_seen_nonces (dw_utr (wl_wallets w k)) = {}"
  using assms unfolding carried_def by blast+

text \<open>The wallets after a payment of the token from \<open>i\<close> to \<open>j\<close>.\<close>

abbreviation paid_wallets ::
  "dpc_world \<Rightarrow> string \<Rightarrow> nat \<Rightarrow> nat \<Rightarrow> receipt \<Rightarrow> (nat \<Rightarrow> dpc_wallet)" where
  "paid_wallets w tid i j c \<equiv> (wl_wallets w)(i := spent_from tid (wl_wallets w i), j := added_to c (wl_wallets w j))"

lemma carried_payment:
  assumes "dpc_crypto_ok K" and "supply_ok K F" and "carried K F w tid i c t V" and "wl_tick w < 29"
    and "j < 10" and "j \<noteq> i" and "(if j \<in> V then 1 else last_hop c + 1) \<le> 7"
  obtains rec clock w' where "hand_over K F i tid j w = (Inr (t, rc_full_chain c @ [rec]), w')"
    "world_ok K F w'" "wl_tick w' = Suc (Suc (wl_tick w))" "wl_ledger w' = wl_ledger w"
    "wl_wallets w' = paid_wallets w tid i j (paid_receipt clock t (rc_full_chain c) rec)"
    "holds F w' j tid (paid_receipt clock t (rc_full_chain c) rec) t" "dr_nonce rec = hex_at F w 0"
    "dr_hop_index rec = (if j \<in> V then 1 else last_hop c + 1)" "dr_sender_pubkey_hex rec = wallet_pk w i"
proof -
  have c: "world_ok K F w" "holds F w i tid c t" using assms(3) by (simp_all add: carried_def)
  note hop = carried_next_hop [OF assms(2,3,5)] and j = carried_others [OF assms(3,5,6)]
  have seen: "tid \<in> ur_spent_token_ids (dw_utr (wl_wallets w j)) \<or>
      dr_nonce ` set (rc_full_chain c) \<inter> ur_seen_nonces (dw_utr (wl_wallets w j)) = {}"
    using j(3) by (auto split: if_splits)
  have le: "next_hop (rc_full_chain c) (wallet_pk w j) \<le> 7" using hop assms(7) by simp
  obtain rec clock w' where h: "hand_over K F i tid j w = (Inr (t, rc_full_chain c @ [rec]), w')"
    "world_ok K F w'" "wl_tick w' = Suc (Suc (wl_tick w))" "wl_ledger w' = wl_ledger w"
    "wl_wallets w' = paid_wallets w tid i j (paid_receipt clock t (rc_full_chain c) rec)"
    "chain_valid K (rc_full_chain c @ [rec]) t" "dr_nonce rec = hex_at F w 0"
    "record_with tid (next_hop (rc_full_chain c) (wallet_pk w j)) (wallet_pk w i) (wallet_pk w j)
       (dk_amount_subunits t) (dr_chain_hash (last (rc_full_chain c))) rec"
    by (rule hand_over_returns [OF assms(1,2) c(1) assms(4) assms(6) [symmetric] c(2) le j(1) seen j(2)])
  have "map_of (ur_entries (dw_utr (wl_wallets w j))) tid = None" using j(1) by (simp add: map_of_eq_None_iff del: set_map)
  then have "holds F w' j tid (paid_receipt clock t (rc_full_chain c) rec) t"
    using c(2) supply_mono(1) [OF assms(2), of w w' 0 0] h(3)
    by (simp add: holds_def h(5) added_to_def paid_receipt_def map_add_def)
  moreover have "dr_hop_index rec = (if j \<in> V then 1 else last_hop c + 1)" "dr_sender_pubkey_hex rec = wallet_pk w i"
    using h(8) hop unfolding record_with_def by simp_all
  ultimately show thesis using h(1-5,7) by (intro that)
qed

lemma payment_aside:
  assumes "supply_ok K F" and "world_ok K F w" and "holds F w i tid c t" and "wl_tick w < wl_tick w'"
    and "wl_wallets w' = paid_wallets w tid i j (paid_receipt clock t rs rec)"
  shows "aside w w' tid (dr_nonce ` set (rs @ [rec])) (dk_amount_subunits t)"
  unfolding aside_def
proof (intro conjI allI impI)
  fix k x
  have tid: "dk_token_id t = tid" "map_of (ur_entries (dw_utr (wl_wallets w i))) tid = Some c"
    using assms(3) by (simp_all add: holds_def)
  show "map_of (ur_entries (dw_utr (wl_wallets w' k))) x = map_of (ur_entries (dw_utr (wl_wallets w k))) x"
    if "x \<noteq> tid" using that
    by (auto simp: assms(5) spent_from_def added_to_def paid_receipt_def tid(1) map_add_def delete_conv' split: option.split)
  show "x \<in> ur_spent_token_ids (dw_utr (wl_wallets w' k))"
    if "x \<noteq> tid" "x \<in> ur_spent_token_ids (dw_utr (wl_wallets w k))"
    using that by (auto simp: assms(5) spent_from_def added_to_def paid_receipt_def tid(1))
  show "ur_seen_nonces (dw_utr (wl_wallets w' k)) \<subseteq> ur_seen_nonces (dw_utr (wl_wallets w k)) \<union> dr_nonce ` set (rs @ [rec])"
    by (auto simp: assms(5) spent_from_def added_to_def paid_receipt_def)
  show "get_balance (wl_wallets w' k) \<le> get_balance (wl_wallets w k) + dk_amount_subunits t"
    using spent_balance [OF assms(2) tid(2)] holds_receipt(2,4) [OF assms(1-3)]
    by (simp add: assms(5) added_balance) (simp add: receipt_amount_def paid_receipt_def)
qed (rule assms(4))

lemma carried_step:
  assumes "dpc_crypto_ok K" and "supply_ok K F" and "carried K F w tid i c t V" and "wl_tick w < 29"
    and "j < 10" and "j \<noteq> i" and "(if j \<in> V then 1 else last_hop c + 1) \<le> 7"
  obtains c' w' where "hand_over K F i tid j w = (Inr (t, rc_full_chain c'), w')"
    "carried K F w' tid j c' t (insert i V)" "last_hop c' = (if j \<in> V then 1 else last_hop c + 1)"
    "wl_tick w' = Suc (Suc (wl_tick w))" "wl_ledger w' = wl_ledger w" "rc_full_chain c' \<noteq> []"
    "aside w w' tid (dr_nonce ` set (rc_full_chain c')) (dk_amount_subunits t)"
    "dr_nonce ` set (rc_full_chain c') = insert (hex_at F w 0) (dr_nonce ` set (rc_full_chain c))"
proof -
  have c: "world_ok K F w" "holds F w i tid c t" "i < 10" "V \<subseteq> {..<10}"
    and senders: "dr_sender_pubkey_hex ` set (rc_full_chain c) =
       insert (public_key_hex (issuer_kp K F)) ((\<lambda>j. public_key_hex (wallet_kp K F j)) ` V)"
    using assms(3) unfolding carried_def by blast+
  obtain rec clock w' where h: "hand_over K F i tid j w = (Inr (t, rc_full_chain c @ [rec]), w')"
    "world_ok K F w'" "wl_tick w' = Suc (Suc (wl_tick w))" "wl_ledger w' = wl_ledger w"
    and w': "wl_wallets w' = paid_wallets w tid i j (paid_receipt clock t (rc_full_chain c) rec)"
    and held: "holds F w' j tid (paid_receipt clock t (rc_full_chain c) rec) t"
    and rec: "dr_nonce rec = hex_at F w 0" "dr_hop_index rec = (if j \<in> V then 1 else last_hop c + 1)"
      "dr_sender_pubkey_hex rec = wallet_pk w i"
    by (rule carried_payment [OF assms])
  let ?c = "paid_receipt clock t (rc_full_chain c) rec"
  have chain: "rc_full_chain ?c = rc_full_chain c @ [rec]" by (simp add: paid_receipt_def)
  have "wl_tick w < wl_tick w'" by (simp add: h(3))
  note aside = payment_aside [OF assms(2) c(1,2) this w']
  have bal: "get_balance (wl_wallets w' i) + dk_amount_subunits t \<le> 1000000"
    using spent_balance [OF c(1), of i tid c] holds_receipt(2) [OF assms(2) c(1,2)] c(2) assms(6) world_ok_wallet(2) [OF c(1), of i]
    by (simp add: w' holds_def get_balance_def dw_inv_def register_inv_def max_wallet_balance_subunits_def)
  have "carried K F w' tid j ?c t (insert i V)"
    unfolding carried_def
  proof (intro conjI allI impI)
    show "world_ok K F w'" "holds F w' j tid ?c t" "j < 10" "insert i V \<subseteq> {..<10}" using h(2) held assms(5) c(3,4) by auto
    have "dw_pk (wl_wallets w i) = public_key_hex (wallet_kp K F i)" using c(1) by (simp add: world_ok_def)
    with senders rec(3) show "dr_sender_pubkey_hex ` set (rc_full_chain ?c) =
        insert (public_key_hex (issuer_kp K F)) ((\<lambda>j. public_key_hex (wallet_kp K F j)) ` insert i V)"
      by (simp add: chain insert_commute)
    fix k assume k: "k < 10" "k \<noteq> j"
    note others = carried_others [OF assms(3) k(1)]
    show "tid \<notin> dict_keys (ur_entries (dw_utr (wl_wallets w' k)))"
      using others k(2) assms(6) by (cases "k = i") (auto simp: w' spent_from_def dict_keys_delete simp del: set_map)
    show "get_balance (wl_wallets w' k) + dk_amount_subunits t \<le> 1000000"
      using others k(2) bal by (cases "k = i") (auto simp: w')
    have "hex_at F w 0 \<notin> ur_seen_nonces (dw_utr (wl_wallets w k))"
      using wallet_names_fresh(3) [OF c(1) assms(2)] assms(4) by simp
    then show "if k \<in> insert i V then tid \<in> ur_spent_token_ids (dw_utr (wl_wallets w' k))
         else dr_nonce ` set (rc_full_chain ?c) \<inter> ur_seen_nonces (dw_utr (wl_wallets w' k)) = {}"
      using others k(2) rec(1) assms(6)
      by (cases "k = i") (auto simp: w' spent_from_def paid_receipt_def split: if_splits)
  qed
  with h aside rec(1,2) show thesis by (intro that [of ?c w']) (simp_all add: chain)
qed

text \<open>The hop index at the end of a path, if no step exceeds the limit.\<close>

fun path_hop :: "nat set \<Rightarrow> nat \<Rightarrow> int \<Rightarrow> nat list \<Rightarrow> int option" where
  "path_hop V i h [] = Some h"
| "path_hop V i h (j # js) =
     (let h' = (if j \<in> V then 1 else h + 1)
      in if j < 10 \<and> j \<noteq> i \<and> h' \<le> 7 then path_hop (insert i V) j h' js else None)"

lemma relay_returns:
  assumes "dpc_crypto_ok K" and "supply_ok K F"
  shows "carried K F w tid i c t V \<Longrightarrow> path_hop V i (last_hop c) js = Some h \<Longrightarrow>
    wl_tick w + 2 * length js < 30 \<Longrightarrow>
    \<exists>c' w'. relay K F tid i js chain w = (Inr (if js = [] then chain else rc_full_chain c'), w') \<and>
      carried K F w' tid (last (i # js)) c' t (V \<union> set (butlast (i # js))) \<and> last_hop c' = h \<and>
      wl_tick w' = wl_tick w + 2 * length js \<and> wl_ledger w' = wl_ledger w \<and> rc_full_chain c' \<noteq> []"
proof (induction js arbitrary: w i c V chain)
  case Nil
  then have "world_ok K F w" "holds F w i tid c t" by (simp_all add: carried_def)
  from holds_receipt(7) [OF assms(2) this] have "rc_full_chain c \<noteq> []" by (simp add: chain_valid_def)
  with Nil show ?case by (intro exI [of _ c] exI [of _ w]) simp
next
  case (Cons j js)
  from Cons.prems(2) have hop: "j < 10" "j \<noteq> i" "(if j \<in> V then 1 else last_hop c + 1) \<le> 7"
    "path_hop (insert i V) j (if j \<in> V then 1 else last_hop c + 1) js = Some h"
    by (simp_all add: Let_def split: if_splits)
  have tick: "wl_tick w < 29" using Cons.prems(3) by simp
  obtain c1 w1 where step: "hand_over K F i tid j w = (Inr (t, rc_full_chain c1), w1)"
    "carried K F w1 tid j c1 t (insert i V)" "last_hop c1 = (if j \<in> V then 1 else last_hop c + 1)"
    "wl_tick w1 = Suc (Suc (wl_tick w))" "wl_ledger w1 = wl_ledger w" "rc_full_chain c1 \<noteq> []"
    by (rule carried_step [OF assms Cons.prems(1) tick hop(1-3)]) auto
  have "path_hop (insert i V) j (last_hop c1) js = Some h" "wl_tick w1 + 2 * length js < 30"
    using hop(4) step(3,4) Cons.prems(3) by simp_all
  from Cons.IH [OF step(2) this, of "rc_full_chain c1"]
  obtain c' w' where rest: "relay K F tid j js (rc_full_chain c1) w1 =
      (Inr (if js = [] then rc_full_chain c1 else rc_full_chain c'), w')"
    "carried K F w' tid (last (j # js)) c' t (insert i V \<union> set (butlast (j # js)))" "last_hop c' = h"
    "wl_tick w' = wl_tick w1 + 2 * length js" "wl_ledger w' = wl_ledger w1" "rc_full_chain c' \<noteq> []"
    by blast
  show ?case
  proof (cases "js = []")
    case True
    with step rest hop(4) show ?thesis
      by (intro exI [of _ c1] exI [of _ w1]) (simp add: run_steps)
  next
    case False
    with step rest show ?thesis
      by (intro exI [of _ c'] exI [of _ w']) (simp add: run_steps insert_commute)
  qed
qed

declare relay.simps [simp del]

lemma minted_holds:
  assumes "supply_ok K F" and "minted K F i amount w t r" and "amount \<le> 100000" and "wl_tick w < wl_tick w'"
    and "wl_wallets w' i = added_to (paid_receipt clock t [] r) x" and "hex_at F w 0 \<notin> dict_keys (ur_entries (dw_utr x))"
  shows "holds F w' i (hex_at F w 0) (paid_receipt clock t [] r) t"
proof -
  have "map_of (ur_entries (dw_utr x)) (hex_at F w 0) = None" using assms(6) by (simp add: map_of_eq_None_iff del: set_map)
  moreover have "fr_now F n \<le> now_at F w 0 + 604800" for n
    using supply_span [OF assms(1), of n "4 * wl_tick w + 0"] by (simp add: now_at_def)
  ultimately show ?thesis
    using assms(2-5) supply_mono(1) [OF assms(1) assms(4), of 0 0]
    by (simp add: holds_def minted_def added_to_def paid_receipt_def map_add_def token_ttl_seconds_def)
qed

lemma mint_to_carried:
  assumes "dpc_crypto_ok K" and "supply_ok K F" and "world_ok K F w" and "wl_tick w < 29"
    and "0 < amount" and "amount \<le> 100000" and "\<forall>j < 10. get_balance (wl_wallets w j) + amount \<le> 1000000" and "i < 10"
  obtains c t me w' where "mint_to K F i amount w = (Inr (hex_at F w 0), w')" "carried K F w' (hex_at F w 0) i c t {}"
    "dk_amount_subunits t = amount" "last_hop c = 0" "wl_tick w' = Suc (Suc (wl_tick w))"
    "wl_ledger w' = (wl_ledger w)\<lparr>il_minted := AList.update (hex_at F w 0) me (il_minted (wl_ledger w))\<rparr>"
    "aside w w' (hex_at F w 0) {hex_at F w 1} amount" "dr_nonce ` set (rc_full_chain c) = {hex_at F w 1}"
proof -
  have room: "get_balance (wl_wallets w i) + amount \<le> 1000000" using assms(7,8) by blast
  obtain t r me clock w' where mint: "mint_to K F i amount w = (Inr (hex_at F w 0), w')" "minted K F i amount w t r"
    "world_ok K F w'" "wl_tick w' = Suc (Suc (wl_tick w))"
    and w': "wl_wallets w' = (wl_wallets w)(i := added_to (paid_receipt clock t [] r) (wl_wallets w i))"
    and led: "wl_ledger w' = (wl_ledger w)\<lparr>il_minted := AList.update (hex_at F w 0) me (il_minted (wl_ledger w))\<rparr>"
    by (rule mint_to_returns [OF assms(1-6) room])
  have tick: "wl_tick w < 30" using assms(4) by simp
  note fresh = wallet_names_fresh [OF assms(3,2) tick]
  have "holds F w' i (hex_at F w 0) (paid_receipt clock t [] r) t"
    by (rule minted_holds [OF assms(2) mint(2) assms(6) _ _ fresh(1)]) (simp_all add: mint(4) w')
  then have "carried K F w' (hex_at F w 0) i (paid_receipt clock t [] r) t {}"
    using mint(2,3) assms(7,8) fresh
    by (auto simp: carried_def w' paid_receipt_def minted_def record_with_def simp del: set_map)
  moreover have t: "dk_token_id t = hex_at F w 0" "dk_amount_subunits t = amount" "dr_nonce r = hex_at F w 1" "dr_hop_index r = 0"
    using mint(2) by (simp_all add: minted_def record_with_def)
  moreover have "aside w w' (hex_at F w 0) {hex_at F w 1} amount"
    using mint(4) assms(5) t(1-3)
    by (auto simp: aside_def w' added_balance added_to_def paid_receipt_def receipt_amount_def map_add_def
        get_balance_def total_balance_def dict_total_def split: option.split)
  ultimately show thesis using mint led
    by (intro that [where c = "paid_receipt clock t [] r" and t = t and w' = w' and me = me])
      (simp_all add: paid_receipt_def)
qed

lemma carried_send:
  assumes "dpc_crypto_ok K" and "supply_ok K F" and "carried K F w tid i c t V" and "wl_tick w < 30" and "j < 10"
    and "(if j \<in> V then 1 else last_hop c + 1) \<le> 7"
  shows "\<exists>r w'. run_send K F i tid j w = (Inr (t, rc_full_chain c @ [r]), w') \<and>
    dr_hop_index r = (if j \<in> V then 1 else last_hop c + 1)"
proof -
  have c: "world_ok K F w" "holds F w i tid c t" using assms(3) by (simp_all add: carried_def)
  note i = world_ok_wallet [OF c(1), of i] and hop = carried_next_hop [OF assms(2,3,5)]
  have kp: "dpc_keypair_ok K (dw_keypair (wl_wallets w i))" using i(1) supply_keys(2) [OF assms(2)] by simp
  have s: "map_of (ur_entries (dw_utr (wl_wallets w i))) tid = Some c" "rc_token c = Some t"
    "sendable (now_at F w 0) c (wallet_pk w j)"
    using c(2) holds_receipt(3) [OF assms(2) c] hop assms(6)
    by (simp_all add: holds_def sendable_def now_at_def max_single_tx_subunits_def max_offline_hops_def)
  show ?thesis
    by (rule dw_send_cases [OF assms(1) kp i(2), of "now_at F w 0" "hex_at F w 0" tid "wallet_pk w j"])
      (use s hop in \<open>auto simp: run_send_def record_with_def\<close>)
qed

lemma start_balance [simp]: "get_balance (wl_wallets (start_world K F names) i) = 0" "wl_tick (start_world K F names) = 0"
  by (simp_all add: start_world_def new_dpc_wallet_def get_balance_def new_register_def total_balance_def)

section \<open>The tests pass\<close>

lemma T1_passes:
  assumes "dpc_crypto_ok K" and "supply_ok K F"
  shows "fst (test_T1 K F (start_world K F names)) = Inr ()"
proof -
  let ?w = "start_world K F names"
  let ?tid = "hex_at F ?w 0"
  obtain c t w1 where mint: "mint_to K F 0 50000 ?w = (Inr ?tid, w1)" "carried K F w1 ?tid 0 c t {}"
    "last_hop c = 0" "wl_tick w1 = Suc (Suc 0)"
    by (rule mint_to_carried [OF assms start_world_ok, of names 50000 0]) auto
  have path: "path_hop {} 0 (last_hop c) [1..<8] = Some 7" by (simp add: upt_rec mint(3))
  have path_end: "last (0 # [1..<8]) = 7" "set (butlast (0 # [1..<8])) = {0..<7}" "[1..<8] \<noteq> []"
    by (auto simp: upt_rec)
  obtain c2 w2 where relay: "relay K F ?tid 0 [1..<8] [] w1 = (Inr (rc_full_chain c2), w2)"
    "carried K F w2 ?tid 7 c2 t {0..<7}" "last_hop c2 = 7" "wl_tick w2 = 16" "rc_full_chain c2 \<noteq> []"
    using relay_returns [OF assms mint(2) path, of "[]"] mint(4) unfolding path_end by auto
  have "8 < (10 :: nat)" "8 \<notin> {0..<7 :: nat}" by simp_all
  with carried_next_hop [OF assms(2) relay(2)] relay(3) have over: "7 < next_hop (rc_full_chain c2) (wallet_pk w2 8)"
    by simp
  have c2: "world_ok K F w2" "holds F w2 7 ?tid c2 t" using relay(2) by (simp_all add: carried_def)
  obtain w3 where blocked: "run_send K F 7 ?tid 8 w2 = (Inl HopLimitExceededError, w3)" "world_ok K F w3"
    "wl_tick w3 = Suc (wl_tick w2)" "lists_token 7 ?tid w3" "holds F w3 7 ?tid c2 t"
    "\<And>k. k \<noteq> 7 \<Longrightarrow> wl_wallets w3 k = wl_wallets w2 k"
    by (rule send_over_hop_limit [OF assms c2 over]) auto
  have "carried K F w3 ?tid 7 c2 t {0..<7}" using relay(2) blocked(2,5,6) by (simp add: carried_def)
  from carried_send [OF assms this, of 0] blocked(3) relay(4) obtain r w4 where
    return: "run_send K F 7 ?tid 0 w3 = (Inr (t, rc_full_chain c2 @ [r]), w4)" "dr_hop_index r = 1" by auto
  show ?thesis
    using mint(1) relay(1,3,5) blocked(1,4) return
    by (simp add: test_T1_def run_steps run_raises_def at_last_def)
qed

lemma T6_passes:
  assumes "dpc_crypto_ok K" and "supply_ok K F"
  shows "fst (test_T6 K F (start_world K F names)) = Inr ()"
proof -
  let ?w = "start_world K F names"
  let ?tid = "hex_at F ?w 0"
  obtain c t w1 where mint: "mint_to K F 0 10000 ?w = (Inr ?tid, w1)" "carried K F w1 ?tid 0 c t {}"
    "last_hop c = 0" "wl_tick w1 = Suc (Suc 0)"
    by (rule mint_to_carried [OF assms start_world_ok, of names 10000 0]) auto
  have "path_hop {} 0 (last_hop c) [1, 2, 0] = Some 1" by (simp add: mint(3))
  from relay_returns [OF assms mint(2) this, of "[]"] mint(4) obtain c2 w2 where
    there: "relay K F ?tid 0 [1, 2, 0] [] w1 = (Inr (rc_full_chain c2), w2)"
    "carried K F w2 ?tid 0 c2 t {0, 1, 2}" "last_hop c2 = 1" "wl_tick w2 = 8" "rc_full_chain c2 \<noteq> []"
    by auto
  have "path_hop {0, 1, 2} 0 (last_hop c2) [3, 4, 5, 6, 7, 8] = Some 7" by (simp add: there(3))
  from relay_returns [OF assms there(2) this, of "rc_full_chain c2"] there(4) obtain c3 w3 V where
    on: "relay K F ?tid 0 [3, 4, 5, 6, 7, 8] (rc_full_chain c2) w2 = (Inr (rc_full_chain c3), w3)"
    "carried K F w3 ?tid 8 c3 t V" "last_hop c3 = 7" "wl_tick w3 = 20" "9 \<notin> V" "rc_full_chain c3 \<noteq> []"
    by auto
  from carried_next_hop [OF assms(2) on(2), of 9] on(3,5) have over: "7 < next_hop (rc_full_chain c3) (wallet_pk w3 9)"
    by simp
  have c3: "world_ok K F w3" "holds F w3 8 ?tid c3 t" using on(2) by (simp_all add: carried_def)
  obtain w4 where "run_send K F 8 ?tid 9 w3 = (Inl HopLimitExceededError, w4)" "lists_token 8 ?tid w4"
    by (rule send_over_hop_limit [OF assms c3 over])
  with mint(1) there(1,3,5) on(1) show ?thesis
    by (simp add: test_T6_def run_steps run_raises_def at_last_def)
qed

lemma mint_times_returns:
  assumes "dpc_crypto_ok K" and "supply_ok K F" and "0 < amount" and "amount \<le> 100000"
  shows "world_ok K F w \<Longrightarrow> wl_tick w + 2 * n < 30 \<Longrightarrow> get_balance (wl_wallets w i) + int n * amount \<le> 1000000 \<Longrightarrow>
    \<exists>w'. mint_times K F i amount n w = (Inr (), w') \<and> world_ok K F w' \<and> wl_tick w' = wl_tick w + 2 * n \<and>
      get_balance (wl_wallets w' i) = get_balance (wl_wallets w i) + int n * amount"
proof (induction n arbitrary: w)
  case (Suc n)
  have room: "get_balance (wl_wallets w i) + amount \<le> 1000000" "wl_tick w < 29"
  proof -
    have "0 \<le> int n * amount" using assms(3) by simp
    with Suc.prems(3) show "get_balance (wl_wallets w i) + amount \<le> 1000000" by (simp add: algebra_simps)
    show "wl_tick w < 29" using Suc.prems(2) by simp
  qed
  obtain t r me clock w1 where mint: "mint_to K F i amount w = (Inr (hex_at F w 0), w1)" "minted K F i amount w t r"
    "world_ok K F w1" "wl_tick w1 = Suc (Suc (wl_tick w))"
    and w1: "wl_wallets w1 = (wl_wallets w)(i := added_to (paid_receipt clock t [] r) (wl_wallets w i))"
    by (rule mint_to_returns [OF assms(1,2) Suc.prems(1) room(2) assms(3,4) room(1)])
  have "get_balance (wl_wallets w1 i) = get_balance (wl_wallets w i) + amount"
    using mint(2) by (simp add: w1 added_to_def get_balance_def total_balance_def dict_total_def receipt_amount_def
        paid_receipt_def minted_def)
  with Suc.IH [OF mint(3)] Suc.prems(2,3) mint(1,4) show ?case
    by (auto simp: run_steps algebra_simps)
qed simp

lemma T2_passes:
  assumes "dpc_crypto_ok K" and "supply_ok K F"
  shows "fst (test_T2 K F (start_world K F names)) = Inr ()"
proof -
  let ?w = "start_world K F names"
  obtain w1 where fill: "mint_times K F 0 100000 10 ?w = (Inr (), w1)" "world_ok K F w1" "wl_tick w1 = 20"
    "get_balance (wl_wallets w1 0) = 1000000"
    using mint_times_returns [OF assms, of 100000 ?w 10 0] start_world_ok by fastforce
  obtain t r me where mint: "run_mint K F 0 1 w1 = (Inr (t, [r]), put_ledger
      ((wl_ledger w1)\<lparr>il_minted := AList.update (hex_at F w1 0) me (il_minted (wl_ledger w1))\<rparr>) (next_tick w1))"
    "minted K F 0 1 w1 t r"
    by (rule run_mint_returns [OF assms, of 1]) auto
  define w2 where "w2 = put_ledger
      ((wl_ledger w1)\<lparr>il_minted := AList.update (hex_at F w1 0) me (il_minted (wl_ledger w1))\<rparr>) (next_tick w1)"
  have full: "run_receive K F 0 (t, [r]) w2 = (Inl WalletBalanceCapError, next_tick w2)"
    using run_receive_minted [OF assms fill(2) mint(2) _ w2_def] fill(3,4) by simp
  have "hex_at F w1 0 \<notin> dict_keys (ur_entries (dw_utr (wl_wallets w1 0)))"
    using wallet_names_fresh(1) [OF fill(2) assms(2)] fill(3) by simp
  then have "\<not> lists_token 0 (dk_token_id t) w2"
    using mint(2) by (simp add: w2_def list_tokens_def minted_def)
  with fill(1,4) mint(1) full show ?thesis
    by (simp add: test_T2_def run_steps run_raises_def w2_def [symmetric]) (simp add: w2_def)
qed

lemma tampered_amount:
  assumes "chain_valid K (r # rs) t" and "a \<noteq> dk_amount_subunits t"
  shows "validate_integrity K (r\<lparr>dr_amount_subunits := a\<rparr> # rs) t =
    Inl (ChainIntegrityError ''Transfer amount does not match token amount'')"
  using assms
  by (auto simp: validate_integrity_def verify_issuer_signature_def ed25519_verify_cases chain_valid_def records_of_def
      split: if_splits)

lemma T3_passes:
  assumes "dpc_crypto_ok K" and "supply_ok K F"
  shows "fst (test_T3 K F (start_world K F names)) = Inr ()"
proof -
  let ?w = "start_world K F names"
  have refused: "run_mint K F 0 110000 ?w = (Inl TransactionValueCapError, next_tick ?w)"
    by (simp add: run_mint_def il_mint_token_def max_single_tx_subunits_def)
  have w1: "world_ok K F (next_tick ?w)" by (simp add: world_ok_next start_world_ok)
  define tid where "tid = hex_at F (next_tick ?w) 0"
  obtain c t w2 where mint: "mint_to K F 0 100000 (next_tick ?w) = (Inr tid, w2)" "carried K F w2 tid 0 c t {}"
    "dk_amount_subunits t = 100000" "last_hop c = 0" "wl_tick w2 = 3"
    unfolding tid_def by (rule mint_to_carried [OF assms w1, of 100000 0]) auto
  obtain c3 w3 where pay: "hand_over K F 0 tid 1 w2 = (Inr (t, rc_full_chain c3), w3)" "carried K F w3 tid 1 c3 t {0}"
    "wl_tick w3 = 5"
    by (rule carried_step [OF assms mint(2), of 1]) (use mint(4,5) in auto)
  have w3: "world_ok K F w3" "get_balance (wl_wallets w3 0) + 100000 \<le> 1000000"
    using pay(2) mint(3) unfolding carried_def by auto
  define tid2 where "tid2 = hex_at F w3 0"
  obtain t2 r2 clock w4 where mint2: "mint_to K F 0 100000 w3 = (Inr tid2, w4)" "minted K F 0 100000 w3 t2 r2"
    "wl_tick w4 = 7"
    and w4: "wl_wallets w4 = (wl_wallets w3)(0 := added_to (paid_receipt clock t2 [] r2) (wl_wallets w3 0))"
    unfolding tid2_def by (rule mint_to_returns [OF assms w3(1) _ _ _ w3(2)]) (use pay(3) in auto)
  let ?c = "paid_receipt clock t2 [] r2"
  have "wl_tick w3 < 30" using pay(3) by simp
  note fresh = wallet_names_fresh(1) [OF w3(1) assms(2) this, of 0 0]
  have held: "holds F w4 0 tid2 ?c t2"
    unfolding tid2_def by (rule minted_holds [OF assms(2) mint2(2) _ _ _ fresh]) (simp_all add: mint2(3) pay(3) w4)
  define w5 where "w5 = snd (put_receipt 0 tid2 (with_last_amount 100100 ?c) w4)"
  have put: "put_receipt 0 tid2 (with_last_amount 100100 ?c) w4 = (Inr (), w5)"
    by (simp add: w5_def put_receipt_def Let_def)
  have t2: "dk_token_id t2 = tid2" "dk_amount_subunits t2 = 100000" "chain_valid K [r2] t2"
    using mint2(2) by (simp_all add: minted_def tid2_def)
  have entry: "map_of (ur_entries (dw_utr (wl_wallets w5 0))) tid2 = Some (with_last_amount 100100 ?c)"
    by (simp add: w5_def put_receipt_def Let_def dict_get_update)
  have "now_at F w4 0 \<le> now_at F w5 0" by (simp add: now_at_def w5_def put_receipt_def Let_def)
  then have now: "dk_issued_at t2 \<le> now_at F w5 0" "now_at F w5 0 \<le> dk_ttl_expiry t2"
    using held by (simp_all add: holds_def now_at_def)
  have "send_body K (now_at F w5 0) n kp (with_last_amount 100100 ?c) rpk = Inl TransactionValueCapError" for n kp rpk
    using now by (simp add: send_body_def require_token_def with_last_amount_def paid_receipt_def dk_is_expired_def
        max_single_tx_subunits_def Let_def)
  then have blocked: "\<exists>w6. run_send K F 0 tid2 1 w5 = (Inl TransactionValueCapError, w6) \<and> lists_token 0 tid2 w6"
    using entry t2(1)
    by (simp add: run_send_def dw_send_token_def ur_spend_def list_tokens_def restore_unspent_def dict_keys_update
        with_last_amount_def paid_receipt_def)
  have "validate_integrity K (rc_full_chain (with_last_amount 100100 ?c)) t2 =
      Inl (ChainIntegrityError ''Transfer amount does not match token amount'')"
    using tampered_amount [OF t2(3), of 100100] t2(2) by (simp add: with_last_amount_def paid_receipt_def)
  moreover have "attribute_of (rc_token (with_last_amount 100100 ?c)) = Inr t2"
    by (simp add: attribute_of_def with_last_amount_def paid_receipt_def)
  moreover have "run_receipt 0 tid2 w4 = (Inr ?c, w4)"
    using held by (simp add: run_receipt_def get_receipt_def holds_def)
  ultimately show ?thesis
    using refused mint(1) pay(1) mint2(1) put blocked
    by (auto simp: test_T3_def run_steps run_raises_def Let_def)
qed

lemma renew_returns:
  assumes "dpc_crypto_ok K" and "supply_ok K F" and "world_ok K F w"
    and "map_of (ur_entries (dw_utr (wl_wallets w i))) tid = Some c" and "rc_token c = Some t"
    and "dk_issuer_pubkey_hex t = public_key_hex (issuer_kp K F)"
  obtains t' w' where "renew_ttl K F i tid offset w = (Inr (), w')" "world_ok K F w'" "wl_tick w' = Suc (wl_tick w)"
    "map_of (ur_entries (dw_utr (wl_wallets w' i))) tid = Some (c\<lparr>rc_token := Some t'\<rparr>)"
    "get_balance (wl_wallets w' i) = get_balance (wl_wallets w i)"
    "dk_token_id t' = dk_token_id t" "dk_amount_subunits t' = dk_amount_subunits t" "dk_issued_at t' = dk_issued_at t"
    "dk_ttl_expiry t' = now_at F w 0 + offset" "\<And>k. k \<noteq> i \<Longrightarrow> wl_wallets w' k = wl_wallets w k"
proof -
  let ?x = "wl_wallets w i" and ?u = "dw_utr (wl_wallets w i)"
  let ?t = "t\<lparr>dk_ttl_expiry := now_at F w 0 + offset\<rparr>"
  obtain s where s: "keypair_sign K (issuer_kp K F) (genesis_payload_bytes ?t) = Inr s"
    "sig_ok K (public_key_hex (issuer_kp K F)) (genesis_payload_bytes ?t) (to_hex s)"
    using keypair_sign_returns [OF assms(1) supply_keys(1) [OF assms(2)]] by blast
  define t' where "t' = ?t\<lparr>dk_issuer_signature := to_hex s\<rparr>"
  let ?c = "c\<lparr>rc_token := Some t'\<rparr>"
  let ?y = "?x\<lparr>dw_utr := ?u\<lparr>ur_entries := AList.update tid ?c (ur_entries ?u)\<rparr>\<rparr>"
  define w' where "w' = put_wallet i ?y (next_tick w)"
  note i = world_ok_wallet [OF assms(3), of i]
  have inv: "register_inv K (dw_pk ?x) ?u" using i(2) by (simp add: dw_inv_def)
  have "genesis_payload_bytes t' = genesis_payload_bytes ?t" unfolding t'_def by simp
  then have "chain_valid K (rc_full_chain c) t'" if "chain_valid K (rc_full_chain c) t"
    using that s(2) assms(6) by (simp add: chain_valid_def records_of_def t'_def)
  then have ok: "receipt_ok K (dw_pk ?x) (ur_seen_nonces ?u) tid ?c"
    using register_inv_entry(1) [OF inv assms(4)] assms(5) by (auto simp: receipt_ok_def t'_def)
  have amount: "receipt_amount ?c = receipt_amount c" using assms(5) by (simp add: receipt_amount_def t'_def)
  have wf: "dict_wf (ur_entries ?u)" using inv by (simp add: register_inv_def)
  have bal: "total_balance (dw_utr ?y) = total_balance ?u"
    using dict_total_update [OF wf, of receipt_amount tid ?c] assms(4) amount by (simp add: total_balance_def)
  have held: "tid \<in> dict_keys (ur_entries ?u)"
    using assms(4) by (metis map_of_eq_None_iff option.distinct(1) set_map)
  have "dw_inv K ?y"
    using inv ok bal held
    by (auto simp: dw_inv_def register_inv_def dict_keys_update dict_wf_update insert_absorb dest!: dict_in_update simp del: set_map)
  moreover have "wallet_names ?y \<subseteq> drawn F w'"
    using i(3) held drawn_mono [of w w' F] by (auto simp: wallet_names_def dict_keys_update insert_absorb w'_def simp del: set_map)
  ultimately have "world_ok K F w'"
    using i(1) by (intro world_ok_put [OF assms(3), of w' i ?y]) (simp_all add: w'_def)
  moreover have "renew_ttl K F i tid offset w = (Inr (), w')"
  proof -
    have "put_wallet i x (next_tick w) = next_tick (put_wallet i x w)" for x
      by (simp add: put_wallet_def next_tick_def)
    then show ?thesis
      using s(1) assms(4,5)
      by (simp add: renew_ttl_def run_steps run_receipt_def get_receipt_def attribute_of_def put_receipt_def w'_def t'_def Let_def)
  qed
  ultimately show thesis
    using bal by (intro that [where t' = t' and w' = w']) (simp_all add: w'_def t'_def get_balance_def dict_get_update)
qed

text \<open>A token just minted to wallet \<open>i\<close>.\<close>

lemma mint_to_holds:
  assumes "dpc_crypto_ok K" and "supply_ok K F" and "world_ok K F w" and "wl_tick w < 29"
    and "0 < amount" and "amount \<le> 100000" and "get_balance (wl_wallets w i) + amount \<le> 1000000"
  obtains c t r me w' where "mint_to K F i amount w = (Inr (hex_at F w 0), w')" "world_ok K F w'"
    "wl_tick w' = Suc (Suc (wl_tick w))" "holds F w' i (hex_at F w 0) c t" "minted K F i amount w t r"
    "rc_full_chain c = [r]" "get_balance (wl_wallets w' i) = get_balance (wl_wallets w i) + amount"
    "\<And>k. k \<noteq> i \<Longrightarrow> wl_wallets w' k = wl_wallets w k"
    "\<And>k tid. tid \<noteq> hex_at F w 0 \<Longrightarrow> map_of (ur_entries (dw_utr (wl_wallets w' k))) tid =
       map_of (ur_entries (dw_utr (wl_wallets w k))) tid"
    "wl_ledger w' = (wl_ledger w)\<lparr>il_minted := AList.update (hex_at F w 0) me (il_minted (wl_ledger w))\<rparr>"
proof -
  obtain t r me clock w' where mint: "mint_to K F i amount w = (Inr (hex_at F w 0), w')" "minted K F i amount w t r"
    "world_ok K F w'" "wl_tick w' = Suc (Suc (wl_tick w))"
    and w': "wl_wallets w' = (wl_wallets w)(i := added_to (paid_receipt clock t [] r) (wl_wallets w i))"
    and led: "wl_ledger w' = (wl_ledger w)\<lparr>il_minted := AList.update (hex_at F w 0) me (il_minted (wl_ledger w))\<rparr>"
    by (rule mint_to_returns [OF assms])
  have "wl_tick w < 30" using assms(4) by simp
  note fresh = wallet_names_fresh(1) [OF assms(3,2) this, of 0 i]
  have "holds F w' i (hex_at F w 0) (paid_receipt clock t [] r) t"
    by (rule minted_holds [OF assms(2) mint(2) assms(6) _ _ fresh]) (simp_all add: mint(4) w')
  then show thesis
    using mint led by (intro that [where c = "paid_receipt clock t [] r" and w' = w' and t = t and r = r and me = me])
      (auto simp: w' minted_def added_to_def get_balance_def total_balance_def dict_total_def receipt_amount_def
        paid_receipt_def map_add_def split: option.split)
qed

lemma T4_passes:
  assumes "dpc_crypto_ok K" and "supply_ok K F"
  shows "fst (test_T4 K F (start_world K F names)) = Inr ()"
proof -
  let ?w = "start_world K F names"
  define tid where "tid = hex_at F ?w 0"
  obtain c t r w1 where mint: "mint_to K F 0 10000 ?w = (Inr tid, w1)" "world_ok K F w1" "wl_tick w1 = 2"
    "holds F w1 0 tid c t" "minted K F 0 10000 ?w t r" "get_balance (wl_wallets w1 0) = 10000"
    "\<And>k. k \<noteq> 0 \<Longrightarrow> wl_wallets w1 k = wl_wallets ?w k"
    unfolding tid_def by (rule mint_to_holds [OF assms start_world_ok, of names 10000 0]) auto
  have c: "map_of (ur_entries (dw_utr (wl_wallets w1 0))) tid = Some c" "rc_token c = Some t"
    "dk_issuer_pubkey_hex t = public_key_hex (issuer_kp K F)" "dk_issued_at t \<le> now_at F w1 0"
    using mint(4,5) by (simp_all add: holds_def minted_def)
  obtain t' w2 where renew: "renew_ttl K F 0 tid (- 1) w1 = (Inr (), w2)" "world_ok K F w2" "wl_tick w2 = 3"
    "map_of (ur_entries (dw_utr (wl_wallets w2 0))) tid = Some (c\<lparr>rc_token := Some t'\<rparr>)"
    "get_balance (wl_wallets w2 0) = 10000" "dk_issued_at t' = dk_issued_at t"
    "dk_ttl_expiry t' = now_at F w1 0 - 1" "\<And>k. k \<noteq> 0 \<Longrightarrow> wl_wallets w2 k = wl_wallets ?w k"
    by (rule renew_returns [OF assms mint(2) c(1-3), of "- 1"]) (use mint in auto)
  have now: "now_at F w1 0 \<le> now_at F w2 0" using supply_mono(1) [OF assms(2)] mint(3) renew(3) by simp
  have body: "send_body K (now_at F w2 0) n kp (c\<lparr>rc_token := Some t'\<rparr>) rpk = Inl (TokenExpiredError ''Token has expired'')"
    for n kp rpk
    using now c(4) renew(6,7) by (simp add: send_body_def require_token_def dk_is_expired_def Let_def)
  have "is_dpc_error (TokenExpiredError ''Token has expired'')" by simp
  then obtain w3 where
    expired: "run_send K F 0 tid 1 w2 = (Inl (TokenExpiredError ''Token has expired''), w3)" "world_ok K F w3"
    "wl_tick w3 = 4" "lists_token 0 tid w3" "get_balance (wl_wallets w3 0) = 10000"
    "\<And>k. k \<noteq> 0 \<Longrightarrow> wl_wallets w3 k = wl_wallets ?w k"
    by (rule send_refused [OF assms renew(2,4) body, of 1]) (use renew(3,5,8) in auto)
  define tid2 where "tid2 = hex_at F w3 0"
  obtain c2 t2 r2 w4 where mint2: "mint_to K F 0 10000 w3 = (Inr tid2, w4)" "world_ok K F w4" "wl_tick w4 = 6"
    "holds F w4 0 tid2 c2 t2" "get_balance (wl_wallets w4 0) = 20000"
    "\<And>k. k \<noteq> 0 \<Longrightarrow> wl_wallets w4 k = wl_wallets ?w k"
    unfolding tid2_def by (rule mint_to_holds [OF assms expired(2), of 10000 0]) (use expired in auto)
  have rollback: "dk_is_expired 0 (Some (dk_issued_at t2 - 1)) t2 = Inl (TokenExpiredError ''Clock rollback detected'')"
    by (simp add: dk_is_expired_def)
  define tid3 where "tid3 = hex_at F w4 0"
  obtain c3 t3 r3 w5 where mint3: "mint_to K F 0 10000 w4 = (Inr tid3, w5)" "world_ok K F w5" "wl_tick w5 = 8"
    "holds F w5 0 tid3 c3 t3" "minted K F 0 10000 w4 t3 r3" "rc_full_chain c3 = [r3]"
    "\<And>k. k \<noteq> 0 \<Longrightarrow> wl_wallets w5 k = wl_wallets ?w k"
    unfolding tid3_def by (rule mint_to_holds [OF assms mint2(2), of 10000 0]) (use mint2 in auto)
  have c3: "map_of (ur_entries (dw_utr (wl_wallets w5 0))) tid3 = Some c3" "rc_token c3 = Some t3"
    "dk_issuer_pubkey_hex t3 = public_key_hex (issuer_kp K F)"
    using mint3(4,5) by (simp_all add: holds_def minted_def)
  obtain t3' w6 where renew3: "renew_ttl K F 0 tid3 10 w5 = (Inr (), w6)" "world_ok K F w6" "wl_tick w6 = 9"
    "map_of (ur_entries (dw_utr (wl_wallets w6 0))) tid3 = Some (c3\<lparr>rc_token := Some t3'\<rparr>)"
    "dk_token_id t3' = dk_token_id t3" "dk_amount_subunits t3' = dk_amount_subunits t3" "dk_issued_at t3' = dk_issued_at t3"
    "dk_ttl_expiry t3' = now_at F w5 0 + 10" "wl_wallets w6 1 = wl_wallets ?w 1"
    by (rule renew_returns [OF assms mint3(2) c3, of 10]) (use mint3(3,7) in auto)
  have held: "holds F w6 0 tid3 (c3\<lparr>rc_token := Some t3'\<rparr>) t3'"
    using mint3(4) renew3(3-8) supply_span [OF assms(2)] supply_mono(1) [OF assms(2), of w5 w6 0 0] mint3(3)
    by (simp add: holds_def now_at_def)
  have r3: "dr_hop_index r3 = 0" using mint3(5) by (simp add: minted_def record_with_def)
  have empty: "tid3 \<notin> dict_keys (ur_entries (dw_utr (wl_wallets w6 1)))"
    "ur_seen_nonces (dw_utr (wl_wallets w6 1)) = {}" "get_balance (wl_wallets w6 1) = 0"
    unfolding renew3(9) by (simp_all add: start_balance) (simp_all add: start_world_def new_dpc_wallet_def new_register_def)
  have le: "next_hop (rc_full_chain (c3\<lparr>rc_token := Some t3'\<rparr>)) (wallet_pk w6 1) \<le> 7"
    using mint3(6) r3 by (simp add: next_hop_def)
  have room: "get_balance (wl_wallets w6 1) + dk_amount_subunits t3' \<le> 1000000"
    using mint3(4) renew3(6) empty(3) by (simp add: holds_def)
  have unseen: "tid3 \<in> ur_spent_token_ids (dw_utr (wl_wallets w6 1)) \<or>
      dr_nonce ` set (rc_full_chain (c3\<lparr>rc_token := Some t3'\<rparr>)) \<inter> ur_seen_nonces (dw_utr (wl_wallets w6 1)) = {}"
    unfolding empty(2) by simp
  have "wl_tick w6 < 29" "(0::nat) \<noteq> 1" using renew3(3) by simp_all
  then obtain rec w7 where pay: "hand_over K F 0 tid3 1 w6 = (Inr (t3', rc_full_chain (c3\<lparr>rc_token := Some t3'\<rparr>) @ [rec]), w7)"
    by (rule hand_over_returns [OF assms renew3(2) _ _ held le empty(1) unseen room]) auto
  have "run_receipt 0 tid2 w4 = (Inr c2, w4)" "attribute_of (rc_token c2) = Inr t2"
    using mint2(4) by (simp_all add: run_receipt_def get_receipt_def attribute_of_def holds_def)
  with mint(1) renew(1) expired(1,4) mint2(1) rollback mint3(1) renew3(1) pay show ?thesis
    by (simp add: test_T4_def run_steps run_raises_def)
qed

text \<open>A wallet takes a half of a swap that was labelled with the key that signed it.\<close>

lemma receive_split:
  assumes "split_token K pk pk tid nonce amount clock ttl (wallet_pk w i) t r"
    and "clock \<le> now_at F w 0" and "now_at F w 0 \<le> ttl" and "tid \<notin> dict_keys (ur_entries (dw_utr (wl_wallets w i)))"
    and "nonce \<notin> ur_seen_nonces (dw_utr (wl_wallets w i))" and "get_balance (wl_wallets w i) + amount \<le> 1000000"
  shows "\<exists>x c. run_receive K F i (t, [r]) w = (Inr c, put_wallet i x (next_tick w)) \<and>
    get_balance x = get_balance (wl_wallets w i) + amount \<and> chain_valid K [r] t"
proof -
  have t: "chain_valid K ([] @ [r]) t" "dr_receiver_pubkey_hex r = wallet_pk w i" "dk_issued_at t \<le> now_at F w 0"
    "now_at F w 0 \<le> dk_ttl_expiry t" "dk_token_id t \<notin> dict_keys (ur_entries (dw_utr (wl_wallets w i)))"
    "dr_nonce r \<notin> ur_seen_nonces (dw_utr (wl_wallets w i))"
    "dk_token_id t \<in> ur_spent_token_ids (dw_utr (wl_wallets w i)) \<or>
       dr_nonce ` set [] \<inter> ur_seen_nonces (dw_utr (wl_wallets w i)) = {}" "dk_amount_subunits t = amount"
    using assms(1-5) by (simp_all add: split_token_def record_with_def)
  have "receipt_amount (paid_receipt c t [] r) = amount" for c
    using t(8) by (simp add: receipt_amount_def paid_receipt_def)
  with dw_receive_chain [OF t(1-7), of "now_at F w 1"] t(1,8) assms(6) show ?thesis
    by (auto simp: run_receive_def added_balance)
qed

declare One_nat_def [simp del]

lemma T7_passes:
  assumes "dpc_crypto_ok K" and "supply_ok K F"
  shows "fst (test_T7 K F (start_world K F names)) = Inr ()"
proof -
  let ?w = "start_world K F names"
  define tid where "tid = hex_at F ?w 0"
  obtain c t r w1 where mint: "mint_to K F 0 100000 ?w = (Inr tid, w1)" "world_ok K F w1" "wl_tick w1 = 2"
    "holds F w1 0 tid c t" "minted K F 0 100000 ?w t r" "get_balance (wl_wallets w1 0) = 100000"
    "\<And>k. k \<noteq> 0 \<Longrightarrow> wl_wallets w1 k = wl_wallets ?w k"
    unfolding tid_def by (rule mint_to_holds [OF assms start_world_ok, of names 100000 0]) auto
  have c: "map_of (ur_entries (dw_utr (wl_wallets w1 0))) tid = Some c" "rc_token c = Some t"
    "dk_amount_subunits t = 100000" "receipt_amount c = 100000"
    using mint(4,5) by (simp_all add: holds_def minted_def receipt_amount_def)
  define st where "st = \<lparr>sw_payment_id = hex_at F w1 0, sw_change_id = hex_at F w1 1, sw_payment_nonce = hex_at F w1 2,
      sw_change_nonce = hex_at F w1 3, sw_now = now_at F w1 0\<rparr>"
  have kp: "dpc_keypair_ok K (dw_keypair (wl_wallets w1 0))"
    using world_ok_wallet(1) [OF mint(2)] supply_keys(2) [OF assms(2)] by simp
  let ?split = "split_token K (wallet_pk w1 0) (wallet_pk w1 0)"
  obtain p pr q qr where body: "swap_body K st (dw_keypair (wl_wallets w1 0)) c 35000 (wallet_pk w1 1) (wallet_pk w1 0) =
      Inr (p, [pr], q, [qr])"
    "?split (hex_at F w1 0) (hex_at F w1 2) 35000 (now_at F w1 0) (dk_ttl_expiry t) (wallet_pk w1 1) p pr"
    "?split (hex_at F w1 1) (hex_at F w1 3) 65000 (now_at F w1 0) (dk_ttl_expiry t) (wallet_pk w1 0) q qr"
    by (rule swap_body_returns [OF assms(1) kp c(2), of 35000 st "wallet_pk w1 1" "wallet_pk w1 0"])
      (simp_all add: c(3) st_def max_single_tx_subunits_def)
  define w2 where "w2 = put_wallet 0 (spent_from tid (wl_wallets w1 0)) (next_tick w1)"
  have swap: "run_swap K F 0 tid 35000 1 0 w1 = (Inr (p, [pr], q, [qr]), w2)"
  proof -
    have "ur_spend tid (dw_utr (wl_wallets w1 0)) = Inr (c, dw_utr (spent_from tid (wl_wallets w1 0)))"
      using c(1) by (simp add: ur_spend_Inr spent_from_def)
    with body(1) show ?thesis by (simp add: run_swap_def swap_change_def w2_def st_def) (simp add: spent_from_def)
  qed
  have w2: "wl_wallets w2 1 = wl_wallets w1 1" "wl_wallets w2 0 = spent_from tid (wl_wallets w1 0)" "wl_tick w2 = 3"
    by (simp_all add: w2_def mint(3))
  have clock: "now_at F w1 0 \<le> now_at F w 0" "now_at F w 0 \<le> dk_ttl_expiry t" if "2 < wl_tick w" for w
    using supply_mono(1) [OF assms(2), of w1 w 0 0] that mint(3,4) by (simp_all add: holds_def now_at_def)
  have "wl_tick w1 < 30" using mint(3) by simp
  note fresh = wallet_names_fresh [OF mint(2) assms(2) this]
  have bal: "get_balance (wl_wallets w2 1) = 0" "get_balance (wl_wallets w2 0) = 0"
    using mint(6,7) spent_balance [OF mint(2) c(1)] c(4) by (simp_all add: w2)
  have one: "wallet_pk w2 1 = wallet_pk w1 1" by (simp add: w2)
  obtain x cx where pay: "run_receive K F 1 (p, [pr]) w2 = (Inr cx, put_wallet 1 x (next_tick w2))"
    "get_balance x = 35000" "chain_valid K [pr] p"
    using receive_split [OF body(2) [folded one], of F] clock [of w2] fresh [of 0] fresh [of 2] bal w2 by auto
  define w3 where "w3 = put_wallet 1 x (next_tick w2)"
  have zero: "wallet_pk w3 0 = wallet_pk w1 0" "get_balance (wl_wallets w3 0) = 0"
    "wl_wallets w3 0 = spent_from tid (wl_wallets w1 0)" "wl_tick w3 = 4"
    using bal by (simp_all add: w3_def w2 spent_from_def)
  have "hex_at F w1 1 \<notin> dict_keys (ur_entries (dw_utr (wl_wallets w3 0)))"
    "hex_at F w1 3 \<notin> ur_seen_nonces (dw_utr (wl_wallets w3 0))"
    using fresh [of 1] fresh [of 3] by (simp_all add: zero spent_from_def dict_keys_delete del: set_map)
  then obtain y cy where change: "run_receive K F 0 (q, [qr]) w3 = (Inr cy, put_wallet 0 y (next_tick w3))"
    "get_balance y = 65000" "chain_valid K [qr] q"
    using receive_split [of K "wallet_pk w1 0" "hex_at F w1 1" "hex_at F w1 3" 65000 "now_at F w1 0" "dk_ttl_expiry t"
        w3 0 q qr F] body(3) clock [of w3] zero by auto
  show ?thesis
    using mint(1) swap pay change by (simp add: test_T7_def run_steps w3_def validate_integrity_Inr [symmetric])
qed

subsection \<open>Settlement\<close>

lemma settle_returns:
  assumes "dk_token_id t \<in> dict_keys (il_minted led)" and "chain_valid K chain t"
    and "dr_receiver_pubkey_hex (last chain) = claimer" and "dk_token_id t \<notin> dict_keys (il_settled led)"
  shows "settle_token K clock claimer t chain led =
    (Inr \<lparr>ds_token_id = dk_token_id t, ds_claimer_pubkey = claimer, ds_chain_depth = int (length chain), ds_settled_at = clock\<rparr>,
     led\<lparr>il_settled := il_settled led @ [(dk_token_id t, \<lparr>ds_token_id = dk_token_id t, ds_claimer_pubkey = claimer,
       ds_chain_depth = int (length chain), ds_settled_at = clock\<rparr>)]\<rparr>)"
proof -
  have "map_of (il_settled led) (dk_token_id t) = None" using assms(4) by (simp add: map_of_eq_None_iff del: set_map)
  with assms show ?thesis
    by (simp add: settle_token_def validate_integrity_Inr [symmetric] dict_update_new Let_def del: set_map)
qed

lemma proxy_loop_settles:
  "distinct (map (\<lambda>p. dk_token_id (fst (snd p))) subs) \<Longrightarrow>
    \<forall>(claimer, t, chain) \<in> set subs. dk_token_id t \<in> dict_keys (il_minted led) \<and> chain_valid K chain t \<and>
      dr_receiver_pubkey_hex (last chain) = claimer \<and> dk_token_id t \<notin> dict_keys (il_settled led) \<Longrightarrow>
    \<exists>rs led'. il_proxy_loop K clk i proxy subs results led = (Inr rs, led') \<and>
      get_settled_count led' = get_settled_count led + length subs"
proof (induction K clk i proxy subs results led rule: il_proxy_loop.induct)
  case (2 K clk i proxy claimer t chain subs results led)
  define s where "s = \<lparr>ds_token_id = dk_token_id t, ds_claimer_pubkey = claimer, ds_chain_depth = int (length chain),
      ds_settled_at = clk i\<rparr>"
  define led1 where "led1 = led\<lparr>il_settled := il_settled led @ [(dk_token_id t, s)]\<rparr>"
  have now: "settle_token K (clk i) claimer t chain led = (Inr s, led1)"
    using settle_returns 2(3) by (simp add: s_def led1_def)
  have "\<exists>rs led'. il_proxy_loop K clk (i + 1) proxy subs (results @ [(s, proxy)]) led1 = (Inr rs, led') \<and>
      get_settled_count led' = get_settled_count led1 + length subs"
  proof (intro 2(1) [OF now [symmetric] refl] ballI)
    show "distinct (map (\<lambda>p. dk_token_id (fst (snd p))) subs)" using 2(2) by simp
    fix p assume p: "p \<in> set subs"
    obtain claimer' t' chain' where p': "p = (claimer', t', chain')" by (cases p)
    have "dk_token_id t' \<noteq> dk_token_id t" using 2(2) p p' by force
    with bspec [OF 2(3), of p] p p' show "case p of (claimer, t, chain) \<Rightarrow> dk_token_id t \<in> dict_keys (il_minted led1) \<and>
        chain_valid K chain t \<and> dr_receiver_pubkey_hex (last chain) = claimer \<and> dk_token_id t \<notin> dict_keys (il_settled led1)"
      by (simp add: led1_def)
  qed
  with now show ?case by (auto simp: led1_def get_settled_count_def)
qed simp

lemma carried_claim:
  assumes "supply_ok K F" and "carried K F w tid i c t V"
  shows "chain_valid K (rc_full_chain c) t" and "dr_receiver_pubkey_hex (last (rc_full_chain c)) = wallet_pk w i"
    and "dk_token_id t = tid" and "run_receipt i tid w = (Inr c, w)" and "attribute_of (rc_token c) = Inr t"
proof -
  have c: "world_ok K F w" "holds F w i tid c t" using assms(2) by (simp_all add: carried_def)
  from holds_receipt(1,7) [OF assms(1) c] c(2)
  show "chain_valid K (rc_full_chain c) t" "dr_receiver_pubkey_hex (last (rc_full_chain c)) = wallet_pk w i"
    "dk_token_id t = tid" "run_receipt i tid w = (Inr c, w)" "attribute_of (rc_token c) = Inr t"
    by (simp_all add: receipt_ok_def holds_def run_receipt_def get_receipt_def attribute_of_def)
qed

lemma aside_room:
  "aside w w' tid N amount \<Longrightarrow> \<forall>k. get_balance (wl_wallets w k) \<le> b \<Longrightarrow>
    \<forall>k. get_balance (wl_wallets w' k) \<le> b + amount"
  unfolding aside_def by (metis add_right_mono order_trans)

lemma room_for:
  "\<forall>k. get_balance (wl_wallets w k) \<le> b \<Longrightarrow> b + amount \<le> 1000000 \<Longrightarrow>
    \<forall>j < 10. get_balance (wl_wallets w j) + amount \<le> 1000000"
  by (meson add_right_mono order_trans)

lemma carried_apart:
  assumes "supply_ok K F" and "carried K F w tid i c t V" and "aside w w' tid' N amount" and "carried K F w' tid' i' c' t' V'"
    and "\<forall>k. get_balance (wl_wallets w k) \<le> b" and "b + (amount + dk_amount_subunits t) \<le> 1000000" and "tid \<noteq> tid'"
    and "N \<inter> dr_nonce ` set (rc_full_chain c) = {}"
  shows "carried K F w' tid i c t V"
  using assms(4,7,8) room_for [OF assms(5,6)]
  by (intro carried_aside [OF assms(1-3)]) (simp_all add: carried_def algebra_simps)

lemma supply_hex_eq: "supply_ok K F \<Longrightarrow> m < 120 \<Longrightarrow> n < 120 \<Longrightarrow> fr_hex F m = fr_hex F n \<longleftrightarrow> m = n"
  using inj_on_eq_iff [of "fr_hex F" "{..<120}" m n] by (simp add: supply_ok_def)

text \<open>Tokens of three wallets; \<open>w\<close> is a new world, where the hexadecimal strings are drawn from the first on.\<close>

lemma three_minted:
  assumes "dpc_crypto_ok K" and "supply_ok K F" and "w = start_world K F names"
  obtains ca ta cb tb cc tc w1 w2 w3 where
    "mint_to K F 0 10000 w = (Inr (fr_hex F 0), w1)" "mint_to K F 1 20000 w1 = (Inr (fr_hex F 8), w2)"
    "mint_to K F 2 30000 w2 = (Inr (fr_hex F 16), w3)" "wl_tick w3 = 6" "\<forall>k. get_balance (wl_wallets w3 k) \<le> 60000"
    "carried K F w3 (fr_hex F 0) 0 ca ta {}" "dk_amount_subunits ta = 10000" "last_hop ca = 0"
    "dr_nonce ` set (rc_full_chain ca) = {fr_hex F 1}"
    "carried K F w3 (fr_hex F 8) 1 cb tb {}" "dk_amount_subunits tb = 20000" "dr_nonce ` set (rc_full_chain cb) = {fr_hex F 9}"
    "carried K F w3 (fr_hex F 16) 2 cc tc {}" "dk_amount_subunits tc = 30000" "last_hop cc = 0"
    "dr_nonce ` set (rc_full_chain cc) = {fr_hex F 17}"
    "{fr_hex F 0, fr_hex F 8, fr_hex F 16} \<subseteq> dict_keys (il_minted (wl_ledger w3))" "il_settled (wl_ledger w3) = []"
proof -
  note hex = supply_hex_eq [OF assms(2)]
  have w: "world_ok K F w" "wl_tick w = 0" "\<forall>k. get_balance (wl_wallets w k) \<le> 0"
    by (simp_all add: assms(3) start_world_ok)
  have hex0: "hex_at F w k = fr_hex F k" for k by (simp add: hex_at_def w(2))
  obtain ca ta ma w1 where a1: "mint_to K F 0 10000 w = (Inr (fr_hex F 0), w1)" "carried K F w1 (fr_hex F 0) 0 ca ta {}"
    "dk_amount_subunits ta = 10000" "last_hop ca = 0" "wl_tick w1 = 2"
    "wl_ledger w1 = (wl_ledger w)\<lparr>il_minted := AList.update (fr_hex F 0) ma (il_minted (wl_ledger w))\<rparr>"
    "aside w w1 (fr_hex F 0) {fr_hex F 1} 10000" "dr_nonce ` set (rc_full_chain ca) = {fr_hex F 1}"
    by (rule mint_to_carried [OF assms(1,2) w(1), of 10000 0]) (use room_for [OF w(3), of 10000] in \<open>auto simp: hex0 w(2)\<close>)
  have ok1: "world_ok K F w1" using a1(2) by (simp add: carried_def)
  have room1: "\<forall>k. get_balance (wl_wallets w1 k) \<le> 10000" using aside_room [OF a1(7) w(3)] by simp
  have hex1: "hex_at F w1 k = fr_hex F (8 + k)" for k by (simp add: hex_at_def a1(5))
  obtain cb tb mb w2 where b2: "mint_to K F 1 20000 w1 = (Inr (fr_hex F 8), w2)" "carried K F w2 (fr_hex F 8) 1 cb tb {}"
    "dk_amount_subunits tb = 20000" "wl_tick w2 = 4"
    "wl_ledger w2 = (wl_ledger w1)\<lparr>il_minted := AList.update (fr_hex F 8) mb (il_minted (wl_ledger w1))\<rparr>"
    "aside w1 w2 (fr_hex F 8) {fr_hex F 9} 20000" "dr_nonce ` set (rc_full_chain cb) = {fr_hex F 9}"
    by (rule mint_to_carried [OF assms(1,2) ok1, of 20000 1]) (use room_for [OF room1, of 20000] in \<open>auto simp: hex1 a1(5)\<close>)
  have ok2: "world_ok K F w2" using b2(2) by (simp add: carried_def)
  have room2: "\<forall>k. get_balance (wl_wallets w2 k) \<le> 30000" using aside_room [OF b2(6) room1] by simp
  have hex2: "hex_at F w2 k = fr_hex F (16 + k)" for k by (simp add: hex_at_def b2(4))
  obtain cc tc mc w3 where c3: "mint_to K F 2 30000 w2 = (Inr (fr_hex F 16), w3)" "carried K F w3 (fr_hex F 16) 2 cc tc {}"
    "dk_amount_subunits tc = 30000" "last_hop cc = 0" "wl_tick w3 = 6"
    "wl_ledger w3 = (wl_ledger w2)\<lparr>il_minted := AList.update (fr_hex F 16) mc (il_minted (wl_ledger w2))\<rparr>"
    "aside w2 w3 (fr_hex F 16) {fr_hex F 17} 30000" "dr_nonce ` set (rc_full_chain cc) = {fr_hex F 17}"
    by (rule mint_to_carried [OF assms(1,2) ok2, of 30000 2]) (use room_for [OF room2, of 30000] in \<open>auto simp: hex2 b2(4)\<close>)
  have room3: "\<forall>k. get_balance (wl_wallets w3 k) \<le> 60000" using aside_room [OF c3(7) room2] by simp
  note apart = carried_apart [OF assms(2)]
  have a2: "carried K F w2 (fr_hex F 0) 0 ca ta {}"
    by (rule apart [OF a1(2) b2(6,2) room1]) (simp_all add: hex a1(3,8))
  have a3: "carried K F w3 (fr_hex F 0) 0 ca ta {}"
    by (rule apart [OF a2 c3(7,2) room2]) (simp_all add: hex a1(3,8))
  have b3: "carried K F w3 (fr_hex F 8) 1 cb tb {}"
    by (rule apart [OF b2(2) c3(7,2) room2]) (simp_all add: hex b2(3,7))
  have ledger: "{fr_hex F 0, fr_hex F 8, fr_hex F 16} \<subseteq> dict_keys (il_minted (wl_ledger w3))" "il_settled (wl_ledger w3) = []"
    by (auto simp: c3(6) b2(5) a1(6) dict_keys_update simp del: set_map) (simp_all add: assms(3) start_world_def new_ledger_def)
  show thesis by (rule that [OF a1(1) b2(1) c3(1,5) room3 a3 a1(3,4,8) b3 b2(3,7) c3(2-4,8) ledger])
qed

lemma T5_passes:
  assumes "dpc_crypto_ok K" and "supply_ok K F"
  shows "fst (test_T5 K F (start_world K F names)) = Inr ()"
proof -
  obtain ca ta cb tb cc tc w1 w2 w3 where mint:
    "mint_to K F 0 10000 (start_world K F names) = (Inr (fr_hex F 0), w1)" "mint_to K F 1 20000 w1 = (Inr (fr_hex F 8), w2)"
    "mint_to K F 2 30000 w2 = (Inr (fr_hex F 16), w3)" "wl_tick w3 = 6"
    and room3: "\<forall>k. get_balance (wl_wallets w3 k) \<le> 60000"
    and a3: "carried K F w3 (fr_hex F 0) 0 ca ta {}" "dk_amount_subunits ta = 10000" "last_hop ca = 0"
    "dr_nonce ` set (rc_full_chain ca) = {fr_hex F 1}"
    and b3: "carried K F w3 (fr_hex F 8) 1 cb tb {}" "dk_amount_subunits tb = 20000" "dr_nonce ` set (rc_full_chain cb) = {fr_hex F 9}"
    and c3: "carried K F w3 (fr_hex F 16) 2 cc tc {}" "dk_amount_subunits tc = 30000" "last_hop cc = 0"
    "dr_nonce ` set (rc_full_chain cc) = {fr_hex F 17}"
    and ledger: "{fr_hex F 0, fr_hex F 8, fr_hex F 16} \<subseteq> dict_keys (il_minted (wl_ledger w3))" "il_settled (wl_ledger w3) = []"
    by (rule three_minted [OF assms refl])
  note hex = supply_hex_eq [OF assms(2)] and apart = carried_apart [OF assms(2)]
  obtain ca4 w4 where a4: "hand_over K F 0 (fr_hex F 0) 1 w3 = (Inr (ta, rc_full_chain ca4), w4)"
    "carried K F w4 (fr_hex F 0) 1 ca4 ta {0}" "last_hop ca4 = 1" "wl_tick w4 = 8" "wl_ledger w4 = wl_ledger w3"
    "aside w3 w4 (fr_hex F 0) {fr_hex F 24, fr_hex F 1} 10000" "dr_nonce ` set (rc_full_chain ca4) = {fr_hex F 24, fr_hex F 1}"
    by (rule carried_step [OF assms a3(1), of 1]) (simp_all add: a3(2-4) mint(4) hex_at_def)
  have room4: "\<forall>k. get_balance (wl_wallets w4 k) \<le> 70000" using aside_room [OF a4(6) room3] by simp
  have b4: "carried K F w4 (fr_hex F 8) 1 cb tb {}"
    by (rule apart [OF b3(1) a4(6,2) room3]) (simp_all add: hex b3(2,3))
  have c4: "carried K F w4 (fr_hex F 16) 2 cc tc {}"
    by (rule apart [OF c3(1) a4(6,2) room3]) (simp_all add: hex c3(2,4))
  obtain ca5 w5 where a5: "hand_over K F 1 (fr_hex F 0) 2 w4 = (Inr (ta, rc_full_chain ca5), w5)"
    "carried K F w5 (fr_hex F 0) 2 ca5 ta {1, 0}" "wl_tick w5 = 10" "wl_ledger w5 = wl_ledger w3"
    "aside w4 w5 (fr_hex F 0) {fr_hex F 32, fr_hex F 24, fr_hex F 1} 10000"
    "dr_nonce ` set (rc_full_chain ca5) = {fr_hex F 32, fr_hex F 24, fr_hex F 1}"
    by (rule carried_step [OF assms a4(2), of 2]) (simp_all add: a3(2) a4(3,4,5,7) hex_at_def)
  have room5: "\<forall>k. get_balance (wl_wallets w5 k) \<le> 80000" using aside_room [OF a5(5) room4] by simp
  have b5: "carried K F w5 (fr_hex F 8) 1 cb tb {}"
    by (rule apart [OF b4 a5(5,2) room4]) (simp_all add: hex b3(2,3))
  have c5: "carried K F w5 (fr_hex F 16) 2 cc tc {}"
    by (rule apart [OF c4 a5(5,2) room4]) (simp_all add: hex c3(2,4))
  obtain cc6 w6 where c6: "hand_over K F 2 (fr_hex F 16) 0 w5 = (Inr (tc, rc_full_chain cc6), w6)"
    "carried K F w6 (fr_hex F 16) 0 cc6 tc {2}" "wl_ledger w6 = wl_ledger w3"
    "aside w5 w6 (fr_hex F 16) {fr_hex F 40, fr_hex F 17} 30000"
    by (rule carried_step [OF assms c5, of 0]) (simp_all add: c3(2-4) a5(3,4) hex_at_def)
  have a6: "carried K F w6 (fr_hex F 0) 2 ca5 ta {1, 0}"
    by (rule apart [OF a5(2) c6(4,2) room5]) (simp_all add: hex a3(2) a5(6))
  have b6: "carried K F w6 (fr_hex F 8) 1 cb tb {}"
    by (rule apart [OF b5 c6(4,2) room5]) (simp_all add: hex b3(2,3))
  note claims = carried_claim [OF assms(2) a6] carried_claim [OF assms(2) b6] carried_claim [OF assms(2) c6(2)]
  let ?subs = "[(wallet_pk w6 2, ta, rc_full_chain ca5), (wallet_pk w6 1, tb, rc_full_chain cb), (wallet_pk w6 0, tc, rc_full_chain cc6)]"
  have "\<exists>rs led. il_proxy_loop K (now_at F w6) 0 (wallet_pk w6 3) ?subs [] (wl_ledger w6) = (Inr rs, led) \<and>
      get_settled_count led = get_settled_count (wl_ledger w6) + length ?subs"
    using claims ledger by (intro proxy_loop_settles) (simp_all add: hex c6(3))
  then obtain rs led where settle: "il_proxy_loop K (now_at F w6) 0 (wallet_pk w6 3) ?subs [] (wl_ledger w6) = (Inr rs, led)"
    "get_settled_count led = 3" by (auto simp: ledger(2) c6(3) get_settled_count_def)
  show ?thesis
    using mint(1-3) a4(1) a5(1) c6(1) claims settle
    by (simp add: test_T5_def run_steps run_proxy_sync_def il_proxy_sync_def)
qed

lemma settle_conflict:
  assumes "dk_token_id t \<in> dict_keys (il_minted led)" and "chain_valid K chain t"
    and "dr_receiver_pubkey_hex (last chain) = claimer" and "map_of (il_settled led) (dk_token_id t) = Some s"
    and "ds_claimer_pubkey s \<noteq> claimer"
  obtains led' where "settle_token K clock claimer t chain led = (Inl FirstClaimConflictError, led')"
    "il_minted led' = il_minted led" "il_settled led' = il_settled led" "il_blacklist led' = insert claimer (il_blacklist led)"
  using assms by (simp add: settle_token_def validate_integrity_Inr [symmetric] Let_def del: set_map)

lemma copies_of_records:
  assumes "chain_valid K chain t"
  shows "map_res (\<lambda>r. dr_from_dict (JObj (dr_to_dict r))) chain = Inr chain"
proof -
  have "dr_from_dict (JObj (dr_to_dict r)) = Inr r" if "from_hex (dr_prev_hash r) \<noteq> None" for r
    using that by (auto simp: dr_from_dict_def json_field_def dr_to_dict_def dr_payload_dict_def new_dpc_record_def
        compute_chain_hash_def)
  moreover have "\<forall>r \<in> set chain. from_hex (dr_prev_hash r) \<noteq> None"
    using assms by (simp add: chain_valid_def records_of_def dr_verified_def dr_hashed_def)
  ultimately show ?thesis by (induction chain) simp_all
qed

text \<open>A record of wallet \<open>0\<close> that is forged onto a valid chain leaves it valid.\<close>

lemma forge_returns:
  assumes "dpc_crypto_ok K" and "supply_ok K F" and "world_ok K F w" and "chain_valid K chain t"
  obtains f where "forge K F t chain w = (Inr f, next_tick w)" "chain_valid K (chain @ [f]) t"
    "dr_receiver_pubkey_hex f = wallet_pk w 2"
proof -
  have kp: "dpc_keypair_ok K (dw_keypair (wl_wallets w 0))"
    using world_ok_wallet(1) [OF assms(3)] supply_keys(2) [OF assms(2)] by simp
  have ne: "chain \<noteq> []" using assms(4) by (simp add: chain_valid_def)
  then obtain x where "from_hex (dr_chain_hash (last chain)) = Some x"
    using assms(4) by (auto simp: chain_valid_def records_of_def dr_verified_def dr_hashed_def)
  from signed_record [OF assms(1) kp this, of "dk_token_id t" 1 "wallet_pk w 2" "dk_amount_subunits t" "hex_at F w 0"]
  obtain f where f: "bind_res (lift_py (new_dpc_record (dk_token_id t) 1 (wallet_pk w 0) (wallet_pk w 2) (dk_amount_subunits t)
        (hex_at F w 0) (dr_chain_hash (last chain)))) (dr_sign K (private_key_bytes (dw_keypair (wl_wallets w 0)))) = Inr f"
    "record_with (dk_token_id t) 1 (wallet_pk w 0) (wallet_pk w 2) (dk_amount_subunits t) (dr_chain_hash (last chain)) f"
    "dr_verified K f"
    by blast
  from chain_valid_append [OF assms(4) f(2,3)] have "chain_valid K (chain @ [f]) t" by (simp add: max_offline_hops_def)
  moreover have "dr_receiver_pubkey_hex f = wallet_pk w 2" using f(2) unfolding record_with_def by blast
  moreover have "forge K F t chain w = (Inr f, next_tick w)" using f(1) ne by (simp add: forge_def at_last_def)
  ultimately show thesis by (intro that)
qed

lemma T8_passes:
  assumes "dpc_crypto_ok K" and "supply_ok K F"
  shows "fst (test_T8 K F (start_world K F names)) = Inr ()"
proof -
  let ?w = "start_world K F names"
  define tid where "tid = hex_at F ?w 0"
  obtain c t me w1 where mint: "mint_to K F 0 10000 ?w = (Inr tid, w1)" "carried K F w1 tid 0 c t {}"
    "dk_amount_subunits t = 10000" "last_hop c = 0" "wl_tick w1 = 2"
    "wl_ledger w1 = (wl_ledger ?w)\<lparr>il_minted := AList.update tid me (il_minted (wl_ledger ?w))\<rparr>"
    unfolding tid_def by (rule mint_to_carried [OF assms start_world_ok, of names 10000 0]) auto
  note original = carried_claim [OF assms(2) mint(2)]
  obtain cb w2 where pay: "hand_over K F 0 tid 1 w1 = (Inr (t, rc_full_chain cb), w2)" "carried K F w2 tid 1 cb t {0}"
    "wl_ledger w2 = wl_ledger w1"
    by (rule carried_step [OF assms mint(2), of 1]) (use mint(4,5) in auto)
  note b = carried_claim [OF assms(2) pay(2)]
  have w2: "world_ok K F w2" using pay(2) by (simp add: carried_def)
  have pks: "wallet_pk w2 1 \<noteq> wallet_pk w2 2"
    using supply_keys(3) [OF assms(2), of 1 2] world_ok_wallet(1) [OF w2] by simp
  obtain f where forged: "forge K F t (rc_full_chain c) w2 = (Inr f, next_tick w2)"
    "chain_valid K (rc_full_chain c @ [f]) t" "dr_receiver_pubkey_hex f = wallet_pk w2 2"
    by (rule forge_returns [OF assms w2 original(1)])
  have ledger: "dk_token_id t \<in> dict_keys (il_minted (wl_ledger w2))" "dk_token_id t \<notin> dict_keys (il_settled (wl_ledger w2))"
    "il_blacklist (wl_ledger w2) = {}"
    by (simp_all add: original(3) pay(3) mint(6) dict_keys_update del: set_map)
      (simp_all add: start_world_def new_ledger_def)
  define s where "s = \<lparr>ds_token_id = dk_token_id t, ds_claimer_pubkey = wallet_pk w2 1,
      ds_chain_depth = int (length (rc_full_chain cb)), ds_settled_at = now_at F (next_tick w2) 0\<rparr>"
  define led where "led = (wl_ledger w2)\<lparr>il_settled := il_settled (wl_ledger w2) @ [(dk_token_id t, s)]\<rparr>"
  define w3 where "w3 = put_ledger led (next_tick (next_tick w2))"
  have settle: "run_settle K F 1 (t, rc_full_chain cb) (next_tick w2) = (Inr s, w3)"
    using settle_returns [OF ledger(1) b(1,2) ledger(2)] by (simp add: run_settle_def w3_def led_def s_def)
  have led: "dk_token_id t \<in> dict_keys (il_minted led)" "map_of (il_settled led) (dk_token_id t) = Some s"
    using ledger by (auto simp: led_def map_add_def map_of_eq_None_iff [symmetric] simp del: set_map split: option.split)
  have claimer: "dr_receiver_pubkey_hex (last (rc_full_chain c @ [f])) = wallet_pk w2 2" "ds_claimer_pubkey s \<noteq> wallet_pk w2 2"
    using forged(3) pks by (simp_all add: s_def)
  obtain led' where conflict: "settle_token K (now_at F w3 0) (wallet_pk w2 2) t (rc_full_chain c @ [f]) led =
      (Inl FirstClaimConflictError, led')" "il_minted led' = il_minted led" "il_settled led' = il_settled led"
    "il_blacklist led' = insert (wallet_pk w2 2) (il_blacklist led)"
    by (rule settle_conflict [OF led(1) forged(2) claimer(1) led(2) claimer(2)])
  define w4 where "w4 = put_ledger led' (next_tick w3)"
  have conflict_run: "run_settle K F 2 (t, rc_full_chain c @ [f]) w3 = (Inl FirstClaimConflictError, w4)"
    using conflict(1) by (simp add: run_settle_def w3_def w4_def)
  have blacklist: "is_blacklisted (wallet_pk w4 2) (wl_ledger w4)" "\<not> is_blacklisted (wallet_pk w4 1) (wl_ledger w4)"
    using conflict(4) ledger(3) pks by (simp_all add: is_blacklisted_def w4_def w3_def led_def)
  obtain x xs where chain_b: "rc_full_chain cb = x # xs" using b(1) by (cases "rc_full_chain cb") (auto simp: chain_valid_def)
  have "validate_integrity K (x\<lparr>dr_amount_subunits := 1\<rparr> # xs) t =
      Inl (ChainIntegrityError ''Transfer amount does not match token amount'')"
    using tampered_amount [of K x xs t 1] b(1) mint(3) by (simp add: chain_b)
  then have tampered: "run_settle K F 1 (t, x\<lparr>dr_amount_subunits := 1\<rparr> # xs) w4 =
      (Inl (ChainIntegrityError ''Transfer amount does not match token amount''), put_ledger (wl_ledger w4) (next_tick w4))"
    using led(1) conflict(2) by (simp add: run_settle_def settle_token_def w4_def del: set_map)
  have ble: "run_ble K F 0 1 (t, rc_full_chain cb) w = (Inr (t, rc_full_chain cb), w)" for w
  proof -
    have "validate_integrity K (rc_full_chain cb) t = Inr ()" using b(1) by (simp add: validate_integrity_Inr)
    from ble_delivers [OF assms(1) _ _ _ this, of "fr_ble F" "fr_ble_nonce F"] assms(2)
    have "\<exists>k. simulate_transfer K (fr_ble F) (fr_ble_nonce F) t (rc_full_chain cb) s =
      (Inr (t, rc_full_chain cb), s\<lparr>bs_session_key := Some k\<rparr>)" for s unfolding supply_ok_def by meson
    then show ?thesis unfolding run_ble_def by (metis fst_conv snd_conv)
  qed
  show ?thesis
    using mint(1) original(4,5) pay(1) forged(1) settle conflict_run blacklist copies_of_records [OF b(1)] tampered ble
    by (simp add: test_T8_def run_steps run_raises_def chain_b s_def)
qed

section \<open>Properties\<close>

text \<open>
  C39: The functional tests pass: with primitives that keep their contracts, keys and hexadecimal
  strings that differ and a clock that does not run backwards or for more than ten seconds, the
  test program counts eight tests passed and none failed.
\<close>
theorem run_tests_pass:
  assumes "dpc_crypto_ok K" and "supply_ok K F"
  shows "run_tests_main K F = (8, 0)"
  using T1_passes [OF assms] T2_passes [OF assms] T3_passes [OF assms] T4_passes [OF assms]
    T5_passes [OF assms] T6_passes [OF assms] T7_passes [OF assms] T8_passes [OF assms]
  by (simp add: run_tests_main_def functional_tests_def)

definition demo_supply :: dpc_supply where
  "demo_supply =
     \<lparr>fr_seed = (\<lambda>i. replicate 32 (of_nat i)), fr_hex = (\<lambda>i. to_hex [of_nat i]), fr_now = (\<lambda>i. 1700000000 + min 10 (int i)),
      fr_ble = \<lparr>bf_payer_eph = replicate 32 5, bf_payee_eph = replicate 32 6, bf_payer_nonce = replicate 16 7,
        bf_payee_nonce = replicate 16 8\<rparr>,
      fr_ble_nonce = replicate 12 9\<rparr>"

lemma demo_supply_ok: "supply_ok toy_crypto demo_supply"
proof -
  have "inj_on (of_nat :: nat \<Rightarrow> 8 word) {..<120}"
    by (rule inj_onI) (simp add: word_of_nat_eq_iff take_bit_nat_eq_self)
  then have "inj_on (\<lambda>i. to_hex [of_nat i :: 8 word]) {..<120}" "inj_on (\<lambda>i. replicate 32 (of_nat i :: 8 word)) {..10}"
    by (simp_all only: inj_on_def to_hex_inject list.inject) (auto simp: inj_on_def)
  then show ?thesis by (auto simp: supply_ok_def demo_supply_def toy_ed25519_def min_def simp del: to_hex_Cons)
qed

lemma run_tests_pass_witness: "run_tests_main toy_crypto demo_supply = (8, 0)"
  by (rule run_tests_pass [OF toy_crypto_ok demo_supply_ok])

declare One_nat_def [simp]

end
