(* ===== verification/BleStub.thy ===== *)
theory BleStub
  imports Prelude
begin

text \<open>
  \<open>src/mobile/ble_adapter_stub.py\<close>: in-memory adapters that know each other as objects. The store
  maps object references to adapters, so that a message shows up in the inbox of the object that
  was registered, whatever name it goes by. The lemmas show that a connection is a queue.
\<close>

type_synonym ref = nat

record ble_adapter =
  ba_device_id :: string
  ba_peers :: "(string, ref) dict"
  ba_connected_peer :: "string option"
  ba_inbox :: "string list"

type_synonym ble_store = "ref \<Rightarrow> ble_adapter"

definition new_adapter :: "string \<Rightarrow> ble_adapter" where
  "new_adapter device_id =
     \<lparr>ba_device_id = device_id, ba_peers = [], ba_connected_peer = None, ba_inbox = []\<rparr>"

definition register_peer :: "ref \<Rightarrow> ref \<Rightarrow> ble_store \<Rightarrow> ble_store" where
  "register_peer self peer st =
     st(self := (st self)\<lparr>ba_peers := AList.update (ba_device_id (st peer)) peer (ba_peers (st self))\<rparr>)"

definition ba_connect :: "ref \<Rightarrow> string \<Rightarrow> ble_store \<Rightarrow> bool \<times> ble_store" where
  "ba_connect self peer_device_id st =
     (if peer_device_id \<notin> dict_keys (ba_peers (st self)) then (False, st)
      else (True, st(self := (st self)\<lparr>ba_connected_peer := Some peer_device_id\<rparr>)))"

definition ba_send :: "ref \<Rightarrow> string \<Rightarrow> ble_store \<Rightarrow> unit res \<times> ble_store" where
  "ba_send self payload st =
     (case ba_connected_peer (st self) of
        None \<Rightarrow> (Inl (ValueError ''no connected peer''), st)
      | Some d \<Rightarrow>
          (case map_of (ba_peers (st self)) d of
             None \<Rightarrow> (Inl (KeyError d), st)
           | Some peer \<Rightarrow> (Inr (), st(peer := (st peer)\<lparr>ba_inbox := ba_inbox (st peer) @ [payload]\<rparr>))))"

definition ba_receive :: "ref \<Rightarrow> ble_store \<Rightarrow> string option \<times> ble_store" where
  "ba_receive self st =
     (case ba_inbox (st self) of
        [] \<Rightarrow> (None, st)
      | payload # rest \<Rightarrow> (Some payload, st(self := (st self)\<lparr>ba_inbox := rest\<rparr>)))"

section \<open>A connection is a queue\<close>

definition connected :: "ref \<Rightarrow> ref \<Rightarrow> ble_store \<Rightarrow> bool" where
  "connected a b st \<longleftrightarrow>
     (\<exists>d. ba_connected_peer (st a) = Some d \<and> map_of (ba_peers (st a)) d = Some b)"

lemma connect_registered:
  "snd (ba_connect a (ba_device_id (st b)) (register_peer a b st)) = st' \<Longrightarrow> connected a b st'"
  by (auto simp: ba_connect_def register_peer_def connected_def dict_keys_update dict_get_update simp del: set_map)

lemma send_connected:
  assumes "connected a b st"
  shows "\<exists>st'. ba_send a payload st = (Inr (), st') \<and> connected a b st' \<and>
    ba_inbox (st' b) = ba_inbox (st b) @ [payload] \<and> (\<forall>c. c \<noteq> b \<longrightarrow> st' c = st c)"
  using assms by (auto simp: connected_def ba_send_def split: option.split)

fun send_all :: "ref \<Rightarrow> string list \<Rightarrow> ble_store \<Rightarrow> ble_store" where
  "send_all a [] st = st"
| "send_all a (p # ps) st = send_all a ps (snd (ba_send a p st))"

fun receive_all :: "nat \<Rightarrow> ref \<Rightarrow> ble_store \<Rightarrow> string list \<times> ble_store" where
  "receive_all 0 b st = ([], st)"
| "receive_all (Suc n) b st =
     (case ba_receive b st of
        (None, st1) \<Rightarrow> ([], st1)
      | (Some p, st1) \<Rightarrow> (let (ps, st2) = receive_all n b st1 in (p # ps, st2)))"

lemma send_all_inbox:
  "connected a b st \<Longrightarrow> ba_inbox (send_all a ps st b) = ba_inbox (st b) @ ps"
proof (induction ps arbitrary: st)
  case (Cons p ps)
  from send_connected [OF Cons.prems, of p] Cons.IH show ?case by auto
qed simp

lemma receive_all_inbox:
  "fst (receive_all n b st) = take n (ba_inbox (st b))"
proof (induction n arbitrary: st)
  case (Suc n)
  then show ?case
    by (cases "ba_inbox (st b)") (auto simp: ba_receive_def split_beta Let_def)
qed simp

text \<open>
  What is sent over a connection is received in order, after what the inbox held before, also when
  an adapter is connected to itself.
\<close>

lemma stub_fifo:
  assumes "connected a b st"
  shows "fst (receive_all (length (ba_inbox (st b)) + length ps) b (send_all a ps st)) = ba_inbox (st b) @ ps"
  by (simp add: receive_all_inbox send_all_inbox [OF assms])

end
