(* ===== verification/PkgCrypto.thy ===== *)
theory PkgCrypto
  imports DpcCrypto Sha512 Json
begin

text \<open>
  The base of the package \<open>src/dpc_poc/dpc\<close>: \<open>crypto.py\<close> and the floats it computes with. A float
  is modelled as a whole number of 64ths, of magnitude below \<open>2 ^ 53\<close>: on these values addition,
  subtraction and comparison of doubles are exact, \<open>repr\<close> writes at most six decimals and no
  exponent, and \<open>struct.pack(">d", x)\<close> is computed here bit by bit. The primitives of the
  \<open>cryptography\<close> package are the ones of the stack in \<open>src/dpc\<close>; the conversion of signing keys to key
  agreement keys is this package's own code and is concrete. The lemmas show that the encoding of a
  double determines it, and what the conversion of a public key computes.
\<close>

section \<open>Floats\<close>

type_synonym fl = int

abbreviation fl_of_int :: "int \<Rightarrow> fl" where
  "fl_of_int i \<equiv> 64 * i"

definition fl_ok :: "fl \<Rightarrow> bool" where
  "fl_ok x \<longleftrightarrow> \<bar>x\<bar> < 2 ^ 53"

definition fl_repr :: "fl \<Rightarrow> string" where
  "fl_repr x = repr_time (15625 * x)"

definition fl_json :: "fl \<Rightarrow> json" where
  "fl_json x = JFloat (15625 * x)"

text \<open>A float of the JSON text that is not a whole number of 64ths is outside the model.\<close>

fun json_fl :: "json \<Rightarrow> fl res" where
  "json_fl (JFloat us) =
     (if us mod 15625 = 0 then Inr (us div 15625) else Inl (ValueError ''float outside the model''))"
| "json_fl _ = Inl (TypeError ''expected float'')"

lemma json_fl_roundtrip [simp]: "json_fl (fl_json x) = Inr x"
  by (simp add: fl_json_def)

lemma json_flat_fl [simp]: "json_wf (fl_json x)"
  by (simp add: fl_json_def)

lemma fl_repr_inject: "fl_repr x = fl_repr y \<longleftrightarrow> x = y"
  by (simp add: fl_repr_def repr_time_inject)

text \<open>The number of the highest bit.\<close>

fun high_bit :: "nat \<Rightarrow> nat" where
  "high_bit n = (if n < 2 then 0 else Suc (high_bit (n div 2)))"

declare high_bit.simps [simp del]

text \<open>Sign, exponent (of \<open>x / 64\<close>, biased by 1023) and mantissa.\<close>

definition double_bits :: "fl \<Rightarrow> nat" where
  "double_bits x =
     (if x = 0 then 0
      else let a = nat \<bar>x\<bar>; e = high_bit a
           in (if x < 0 then 2 ^ 63 else 0) + (e + 1017) * 2 ^ 52 + (a - 2 ^ e) * 2 ^ (52 - e))"

definition pack_double :: "fl \<Rightarrow> bytes" where
  "pack_double x = be_bytes 8 (double_bits x)"

section \<open>Keys and signatures\<close>

definition pkg_generate_keypair :: "dpc_crypto \<Rightarrow> bytes \<Rightarrow> bytes \<times> bytes" where
  "pkg_generate_keypair K seed = (seed, ed_public (dc_ed25519 K) seed)"

definition pkg_sign :: "dpc_crypto \<Rightarrow> bytes \<Rightarrow> bytes \<Rightarrow> bytes res" where
  "pkg_sign K sk message =
     of_option (ValueError ''ed25519 private key'') (ed_sign (dc_ed25519 K) sk message)"

text \<open>Only \<open>InvalidSignature\<close> is caught.\<close>

definition pkg_verify :: "dpc_crypto \<Rightarrow> bytes \<Rightarrow> bytes \<Rightarrow> bytes \<Rightarrow> bool res" where
  "pkg_verify K public_key_bytes message signature =
     (case ed_verify (dc_ed25519 K) public_key_bytes message signature of
        SigValid \<Rightarrow> Inr True
      | SigInvalid \<Rightarrow> Inr False
      | KeyRejected \<Rightarrow> Inl (ValueError ''ed25519 public key''))"

definition ed25519_pubkey_to_hex :: "bytes \<Rightarrow> string res" where
  "ed25519_pubkey_to_hex public_key_bytes =
     (if length public_key_bytes \<noteq> 32 then Inl (ValueError ''Ed25519 public key must be 32 bytes'')
      else Inr (to_hex public_key_bytes))"

definition fromhex :: "string \<Rightarrow> bytes res" where
  "fromhex s = of_option (ValueError ''fromhex'') (from_hex s)"

definition hex_to_pubkey_bytes :: "string \<Rightarrow> bytes res" where
  "hex_to_pubkey_bytes hex_str =
     bind_res (fromhex hex_str) (\<lambda>key.
     if length key \<noteq> 32 then Inl (ValueError ''Public key must decode to 32 bytes'') else Inr key)"

definition pkg_sha256_hex :: "bytes list \<Rightarrow> string" where
  "pkg_sha256_hex parts = sha256_hex (concat parts)"

section \<open>From signing keys to key agreement keys\<close>

definition curve_p :: int where
  "curve_p = 2 ^ 255 - 19"

definition le_int :: "bytes \<Rightarrow> int" where
  "le_int bs = foldr (\<lambda>b n. uint b + 256 * n) bs 0"

definition ed25519_to_x25519_private :: "bytes \<Rightarrow> bytes" where
  "ed25519_to_x25519_private ed25519_private_bytes =
     (let scalar = take 32 (sha512 ed25519_private_bytes);
          scalar = scalar[0 := scalar ! 0 AND 248];
          scalar = scalar[31 := scalar ! 31 AND 127]
      in scalar[31 := scalar ! 31 OR 64])"

text \<open>\<open>pow(a, -1, m)\<close> by the extended Euclidean algorithm; \<open>None\<close> where Python raises.\<close>

function inverse_loop :: "int \<Rightarrow> int \<Rightarrow> int \<Rightarrow> int \<Rightarrow> int \<times> int" where
  "inverse_loop r0 r1 t0 t1 =
     (if r1 \<le> 0 then (r0, t0) else inverse_loop r1 (r0 mod r1) t1 (t0 - r0 div r1 * t1))"
  by pat_completeness auto
termination
  by (relation "measure (\<lambda>(r0, r1, t0, t1). nat r1)") simp_all

declare inverse_loop.simps [simp del]

definition mod_inverse :: "int \<Rightarrow> int \<Rightarrow> int option" where
  "mod_inverse a m =
     (let (g, t) = inverse_loop m (a mod m) 0 1 in if g = 1 then Some (t mod m) else None)"

definition le_bytes :: "nat \<Rightarrow> int \<Rightarrow> bytes" where
  "le_bytes k n = map (\<lambda>i. of_int (n div 256 ^ i mod 256)) [0..<k]"

definition ed25519_to_x25519_public :: "bytes \<Rightarrow> bytes res" where
  "ed25519_to_x25519_public ed25519_public_bytes =
     (if length ed25519_public_bytes \<noteq> 32 then Inl (ValueError ''Ed25519 public key must be 32 bytes'')
      else
        let y_bytes = ed25519_public_bytes[31 := ed25519_public_bytes ! 31 AND 0x7F];
            y = le_int y_bytes
        in if curve_p \<le> y then Inl (ValueError ''Invalid Ed25519 public key'')
           else
             bind_res (of_option (ValueError ''base is not invertible for the given modulus'')
               (mod_inverse (1 - y) curve_p)) (\<lambda>inv.
             let u = (1 + y) * inv mod curve_p in Inr (le_bytes 32 u)))"

definition pkg_derive_session_key :: "dpc_crypto \<Rightarrow> bytes \<Rightarrow> bytes \<Rightarrow> bytes \<Rightarrow> bytes res" where
  "pkg_derive_session_key K my_ed25519_private peer_ed25519_public nonce =
     bind_res (ed25519_to_x25519_public peer_ed25519_public) (\<lambda>x_public.
     bind_res (of_option (ValueError ''x25519'')
       (dc_x_exchange K (ed25519_to_x25519_private my_ed25519_private) x_public)) (\<lambda>shared_secret.
     Inr (dc_hkdf K (Some nonce) (utf8_encode ''DPC-session'') shared_secret)))"

definition chacha20_poly1305_encrypt :: "dpc_crypto \<Rightarrow> bytes \<Rightarrow> bytes \<Rightarrow> bytes \<Rightarrow> bytes res" where
  "chacha20_poly1305_encrypt K key nonce_12 plaintext =
     of_option (ValueError ''chacha20poly1305'') (dc_encrypt K key nonce_12 plaintext)"

definition chacha20_poly1305_decrypt :: "dpc_crypto \<Rightarrow> bytes \<Rightarrow> bytes \<Rightarrow> bytes \<Rightarrow> bytes res" where
  "chacha20_poly1305_decrypt K key nonce_12 ciphertext_with_tag =
     of_option (ValueError ''BLE session authentication failed'') (dc_decrypt K key nonce_12 ciphertext_with_tag)"

section \<open>The encoding of a double\<close>

lemma high_bit_bounds: "0 < n \<Longrightarrow> 2 ^ high_bit n \<le> n \<and> n < 2 * 2 ^ high_bit n"
proof (induction n rule: high_bit.induct)
  case (1 n)
  show ?case
  proof (cases "n < 2")
    case True
    with "1.prems" show ?thesis by (simp add: high_bit.simps [of n])
  next
    case False
    with "1.IH" have "2 ^ high_bit (n div 2) \<le> n div 2" "n div 2 < 2 * 2 ^ high_bit (n div 2)" by simp_all
    then show ?thesis using False by (simp add: high_bit.simps [of n]) linarith
  qed
qed

lemma high_bit_le: "0 < n \<Longrightarrow> n < 2 ^ k \<Longrightarrow> high_bit n < k"
  using high_bit_bounds [of n] power_less_imp_less_exp [of "2 :: nat" "high_bit n" k] by linarith

lemma be_bytes_inject:
  assumes "be_bytes k m = be_bytes k n" and "m < 256 ^ k" and "n < 256 ^ k"
  shows "m = n"
proof -
  have digit: "m div 256 ^ i mod 256 = n div 256 ^ i mod 256" if "i < k" for i
  proof -
    have "be_bytes k m ! (k - 1 - i) = be_bytes k n ! (k - 1 - i)" using assms(1) by simp
    then have "(of_nat (m div 256 ^ i mod 256) :: 8 word) = of_nat (n div 256 ^ i mod 256)"
      using that by (simp add: be_bytes_def)
    then have "unat (of_nat (m div 256 ^ i mod 256) :: 8 word) = unat (of_nat (n div 256 ^ i mod 256) :: 8 word)"
      by (rule arg_cong)
    then show ?thesis by (simp add: unat_of_nat)
  qed
  have "m mod 256 ^ j = n mod 256 ^ j" if "j \<le> k" for j
    using that
  proof (induction j)
    case (Suc j)
    have "x mod 256 ^ Suc j = 256 ^ j * (x div 256 ^ j mod 256) + x mod 256 ^ j" for x :: nat
      using mod_mult2_eq [of x "256 ^ j" 256] by (simp add: mult.commute)
    with Suc digit [of j] show ?case by simp
  qed simp
  from this [of k] assms(2,3) show ?thesis by simp
qed

lemma double_fields:
  assumes "x \<noteq> 0" and "fl_ok x"
  defines "a \<equiv> nat \<bar>x\<bar>"
  defines "e \<equiv> high_bit a"
  shows "2 ^ e \<le> a" and "e \<le> 52" and "(a - 2 ^ e) * 2 ^ (52 - e) < 2 ^ 52"
proof -
  have a: "0 < a" "a < 2 ^ 53" using assms(1,2) by (simp_all add: a_def fl_ok_def)
  then show e: "e \<le> 52" using high_bit_le [of a 53] by (simp add: e_def)
  show lo: "2 ^ e \<le> a" using high_bit_bounds [OF a(1)] by (simp add: e_def)
  have "a - 2 ^ e < 2 ^ e" using high_bit_bounds [OF a(1)] unfolding e_def by linarith
  then have "(a - 2 ^ e) * 2 ^ (52 - e) < 2 ^ e * 2 ^ (52 - e)" by simp
  also have "(2 :: nat) ^ e * 2 ^ (52 - e) = 2 ^ 52" using e by (simp flip: power_add)
  finally show "(a - 2 ^ e) * 2 ^ (52 - e) < 2 ^ 52" .
qed

text \<open>Exponent and sign, as one number, and the mantissa can be read off the bits.\<close>

lemma digit_split: "m < b \<Longrightarrow> (h * b + m) div b = h \<and> (h * b + m) mod b = (m :: nat)"
  by simp

lemma double_bits_split:
  assumes "x \<noteq> 0" and "fl_ok x"
  shows "double_bits x div 2 ^ 52 = (if x < 0 then 2048 else 0) + (high_bit (nat \<bar>x\<bar>) + 1017)"
    and "double_bits x mod 2 ^ 52 = (nat \<bar>x\<bar> - 2 ^ high_bit (nat \<bar>x\<bar>)) * 2 ^ (52 - high_bit (nat \<bar>x\<bar>))"
proof -
  let ?e = "high_bit (nat \<bar>x\<bar>)"
  let ?h = "(if x < 0 then 2048 else 0) + (?e + 1017)" and ?m = "(nat \<bar>x\<bar> - 2 ^ ?e) * 2 ^ (52 - ?e)"
  have "double_bits x = ?h * 2 ^ 52 + ?m" using assms(1) by (simp add: double_bits_def Let_def)
  with digit_split [OF double_fields(3) [OF assms], of ?h]
  show "double_bits x div 2 ^ 52 = ?h" "double_bits x mod 2 ^ 52 = ?m" by (simp_all only:)
qed

lemma double_bits_inject:
  assumes "double_bits x = double_bits y" and "fl_ok x" and "fl_ok y"
  shows "x = y"
proof (cases "x = 0 \<or> y = 0")
  case True
  have "double_bits z \<noteq> 0" if "z \<noteq> 0" for z using that by (simp add: double_bits_def Let_def)
  moreover have "double_bits 0 = 0" by (simp add: double_bits_def)
  ultimately show ?thesis using True assms(1) by metis
next
  case False
  let ?ex = "high_bit (nat \<bar>x\<bar>)" and ?ey = "high_bit (nat \<bar>y\<bar>)"
  have x0: "x \<noteq> 0" and y0: "y \<noteq> 0" using False by simp_all
  note fx = double_fields [OF x0 assms(2)] and fy = double_fields [OF y0 assms(3)]
  have "(if x < 0 then 2048 else 0) + (?ex + 1017) = (if y < 0 then 2048 else 0) + (?ey + 1017)"
    using double_bits_split(1) [OF x0 assms(2)] double_bits_split(1) [OF y0 assms(3)] assms(1) by simp
  with fx(2) fy(2) have "?ex = ?ey \<and> (x < 0 \<longleftrightarrow> y < 0)" by (cases "x < 0"; cases "y < 0") simp_all
  then have e: "?ex = ?ey" and s: "x < 0 \<longleftrightarrow> y < 0" by simp_all
  have "(nat \<bar>x\<bar> - 2 ^ ?ex) * 2 ^ (52 - ?ex) = (nat \<bar>y\<bar> - 2 ^ ?ey) * 2 ^ (52 - ?ey)"
    using double_bits_split(2) [OF x0 assms(2)] double_bits_split(2) [OF y0 assms(3)] assms(1) by simp
  then have "nat \<bar>x\<bar> - 2 ^ ?ex = nat \<bar>y\<bar> - 2 ^ ?ey" using e by simp
  then have "nat \<bar>x\<bar> = nat \<bar>y\<bar>" using fx(1) fy(1) e by (metis le_add_diff_inverse2)
  with s show ?thesis by (auto split: if_splits)
qed

lemma double_bits_less: "fl_ok x \<Longrightarrow> double_bits x < 256 ^ 8"
proof (cases "x = 0")
  case False
  assume ok: "fl_ok x"
  have "double_bits x div 2 ^ 52 < 4096"
    unfolding double_bits_split(1) [OF False ok]
    using double_fields(2) [OF False ok] by (cases "x < 0") simp_all
  then have "double_bits x < 4096 * 2 ^ 52" by (simp add: div_less_iff_less_mult)
  then show ?thesis by simp
qed (simp add: double_bits_def)

lemma length_pack_double [simp]: "length (pack_double x) = 8"
  by (simp add: pack_double_def be_bytes_def)

lemma pack_double_inject: "pack_double x = pack_double y \<Longrightarrow> fl_ok x \<Longrightarrow> fl_ok y \<Longrightarrow> x = y"
  unfolding pack_double_def
  using be_bytes_inject [of 8 "double_bits x" "double_bits y"] double_bits_inject double_bits_less by blast

section \<open>The conversion of public keys\<close>

lemma inverse_loop_inv:
  "inverse_loop r0 r1 t0 t1 = (g, t) \<Longrightarrow> \<exists>k. r0 = t0 * a + k * m \<Longrightarrow> \<exists>k. r1 = t1 * a + k * m \<Longrightarrow>
     \<exists>k. g = t * a + k * m"
proof (induction r0 r1 t0 t1 rule: inverse_loop.induct)
  case (1 r0 r1 t0 t1)
  show ?case
  proof (cases "r1 \<le> 0")
    case True
    with 1 show ?thesis by (simp add: inverse_loop.simps [of r0])
  next
    case False
    obtain k0 k1 where k: "r0 = t0 * a + k0 * m" "r1 = t1 * a + k1 * m" using 1 by blast
    have "r0 mod r1 = r0 - r0 div r1 * r1" by (simp add: minus_div_mult_eq_mod)
    also have "\<dots> = (t0 - r0 div r1 * t1) * a + (k0 - r0 div r1 * k1) * m"
      by (subst (1) k(1), subst (2) k(2)) (simp add: algebra_simps)
    finally show ?thesis using 1 False k(2) by (auto simp: inverse_loop.simps [of r0])
  qed
qed

lemma inverse_loop_gcd: "0 \<le> r0 \<Longrightarrow> 0 \<le> r1 \<Longrightarrow> fst (inverse_loop r0 r1 t0 t1) = gcd r0 r1"
proof (induction r0 r1 t0 t1 rule: inverse_loop.induct)
  case (1 r0 r1 t0 t1)
  show ?case
  proof (cases "r1 \<le> 0")
    case True
    with 1 show ?thesis by (simp add: inverse_loop.simps [of r0])
  next
    case False
    with 1 have "fst (inverse_loop r0 r1 t0 t1) = gcd r1 (r0 mod r1)"
      by (simp add: inverse_loop.simps [of r0])
    then show ?thesis by (metis gcd_red_int gcd.commute)
  qed
qed

lemma mod_inverse_None: "1 < m \<Longrightarrow> mod_inverse a m = None \<longleftrightarrow> \<not> coprime a m"
proof -
  assume "1 < m"
  then have "fst (inverse_loop m (a mod m) 0 1) = gcd m (a mod m)" by (intro inverse_loop_gcd) simp_all
  also have "\<dots> = gcd a m" by (metis gcd_red_int gcd.commute)
  finally show ?thesis
    by (cases "inverse_loop m (a mod m) 0 1") (simp add: mod_inverse_def coprime_iff_gcd_eq_1)
qed

lemma mod_inverse_Some:
  assumes "mod_inverse a m = Some x" and "1 < m"
  shows "a * x mod m = 1" and "0 \<le> x" and "x < m"
proof -
  obtain g t where gt: "inverse_loop m (a mod m) 0 1 = (g, t)" by force
  with assms(1) have g: "g = 1" and x: "x = t mod m" by (auto simp: mod_inverse_def split: if_splits)
  have "\<exists>k. m = 0 * a + k * m" by (rule exI [of _ 1]) simp
  moreover have "\<exists>k. a mod m = 1 * a + k * m"
    by (rule exI [of _ "- (a div m)"]) (simp add: minus_div_mult_eq_mod [symmetric])
  ultimately obtain k where "g = t * a + k * m" using inverse_loop_inv [OF gt] by blast
  then have "t * a mod m = 1" using g assms(2) by (metis mod_mult_self1 mod_pos_pos_trivial zero_le_one)
  then show "a * x mod m = 1" unfolding x by (simp add: mod_mult_right_eq mult.commute)
  show "0 \<le> x" "x < m" unfolding x using assms(2) by simp_all
qed

lemma le_int_le_bytes: "0 \<le> n \<Longrightarrow> n < 256 ^ k \<Longrightarrow> le_int (le_bytes k n) = n"
proof (induction k arbitrary: n)
  case (Suc k)
  have "le_bytes (Suc k) n = of_int (n mod 256) # le_bytes k (n div 256)"
    unfolding le_bytes_def upt_conv_Cons [OF zero_less_Suc] map_Suc_upt [symmetric]
    by (simp add: zdiv_zmult2_eq)
  moreover have "le_int (le_bytes k (n div 256)) = n div 256"
    using Suc.prems by (intro Suc.IH) auto
  ultimately show ?case by (simp add: le_int_def unsigned_of_int take_bit_eq_mod)
qed (simp add: le_int_def le_bytes_def)

text \<open>The \<open>y\<close> coordinate of a public key: its bytes without the sign bit, little endian.\<close>

definition key_y :: "bytes \<Rightarrow> int" where
  "key_y pk = le_int (pk[31 := pk ! 31 AND 0x7F])"

lemma curve_p_gt: "1 < curve_p" "curve_p < 256 ^ 32"
  by (simp_all add: curve_p_def)

text \<open>
  C37: The conversion of a public key: on a key of 32 bytes whose \<open>y\<close> coordinate is below the prime
  and has \<open>1 - y\<close> coprime to it, it returns 32 bytes that are the little endian form of the \<open>u\<close>, in
  the field, with \<open>(1 - y) * u = 1 + y\<close>, the birational map to the Montgomery curve; on every other
  input it raises \<open>ValueError\<close>.
\<close>
theorem x25519_public_spec:
  "case ed25519_to_x25519_public pk of
     Inr b \<Rightarrow> length pk = 32 \<and> key_y pk < 2 ^ 255 - 19 \<and> length b = 32 \<and>
       0 \<le> le_int b \<and> le_int b < 2 ^ 255 - 19 \<and>
       (1 - key_y pk) * le_int b mod (2 ^ 255 - 19) = (1 + key_y pk) mod (2 ^ 255 - 19)
   | Inl e \<Rightarrow> (\<exists>msg. e = ValueError msg) \<and>
       (length pk \<noteq> 32 \<or> 2 ^ 255 - 19 \<le> key_y pk \<or> \<not> coprime (1 - key_y pk) (2 ^ 255 - 19))"
proof -
  let ?y = "key_y pk"
  note p = curve_p_def [symmetric]
  show ?thesis
  proof (cases "length pk = 32 \<and> ?y < curve_p")
    case False
    then show ?thesis unfolding p by (auto simp: ed25519_to_x25519_public_def key_y_def Let_def)
  next
    case True
    show ?thesis
    proof (cases "mod_inverse (1 - ?y) curve_p")
      case None
      then have "\<not> coprime (1 - ?y) curve_p" using mod_inverse_None [OF curve_p_gt(1)] by blast
      with True None show ?thesis unfolding p by (simp add: ed25519_to_x25519_public_def key_y_def [symmetric] Let_def)
    next
      case (Some inv)
      let ?u = "(1 + ?y) * inv mod curve_p"
      have u: "0 \<le> ?u" "?u < curve_p" using curve_p_gt(1) by simp_all
      then have le: "le_int (le_bytes 32 ?u) = ?u" using curve_p_gt(2) by (intro le_int_le_bytes) linarith+
      have "(1 - ?y) * ?u mod curve_p = (1 + ?y) * ((1 - ?y) * inv) mod curve_p"
        by (simp add: mod_mult_right_eq ac_simps)
      also have "\<dots> = (1 + ?y) * ((1 - ?y) * inv mod curve_p) mod curve_p"
        by (simp only: mod_mult_right_eq)
      also have "\<dots> = (1 + ?y) mod curve_p" using mod_inverse_Some(1) [OF Some curve_p_gt(1)] by simp
      finally have "(1 - ?y) * ?u mod curve_p = (1 + ?y) mod curve_p" .
      moreover have "ed25519_to_x25519_public pk = Inr (le_bytes 32 ?u)"
        using True Some by (simp add: ed25519_to_x25519_public_def key_y_def [symmetric] Let_def)
      moreover have "length (le_bytes 32 ?u) = 32" by (simp add: le_bytes_def)
      ultimately show ?thesis unfolding p using True u le by simp
    qed
  qed
qed

lemma x25519_public_spec_witness:
  "\<exists>b. ed25519_to_x25519_public (2 # replicate 31 0) = Inr b \<and> - 1 * le_int b mod (2 ^ 255 - 19) = 3"
proof -
  have y: "key_y (2 # replicate 31 0) = 2"
proof -
    have "(2 # replicate 31 0 :: bytes) ! 31 = 0" by simp
    then have "(2 # replicate 31 0 :: bytes)[31 := (2 # replicate 31 0) ! 31 AND 0x7F] = 2 # replicate 31 0"
      by (metis and_zero_eq list_update_id and.commute)
    moreover have "le_int (replicate n 0) = 0" for n by (induction n) (simp_all add: le_int_def)
    ultimately show ?thesis by (simp add: key_y_def le_int_def)
  qed
  from x25519_public_spec [of "2 # replicate 31 0"] show ?thesis
    unfolding y by (cases "ed25519_to_x25519_public (2 # replicate 31 0)") auto
qed

end
