(* ===== verification/PkgTransfer.thy ===== *)
theory PkgTransfer
  imports PkgCrypto
begin

text \<open>
  \<open>models.py\<close> and \<open>transfer.py\<close> of \<open>src/dpc_poc/dpc\<close>: tokens, transfer records, the policy, and the
  building and checking of a transfer. The clock and the nonce are arguments. The lemmas show what
  the hashed payload determines, when a transfer is built, that a built transfer verifies, and
  that both data classes survive their JSON form.
\<close>

section \<open>Data\<close>

record pkg_policy =
  pp_max_offline_hops :: int
  pp_max_wallet_balance_etb :: fl
  pp_max_transaction_value_etb :: fl
  pp_token_ttl_seconds :: int

definition pkg_default_policy :: pkg_policy where
  "pkg_default_policy =
     \<lparr>pp_max_offline_hops = 7, pp_max_wallet_balance_etb = fl_of_int 10000,
      pp_max_transaction_value_etb = fl_of_int 1000, pp_token_ttl_seconds = 604800\<rparr>"

record pkg_token =
  pk_token_id :: string
  pk_denomination :: fl
  pk_issuer_pubkey_hex :: string
  pk_issued_at :: fl
  pk_issuer_signature_hex :: string
  pk_owner_pubkey_hex :: string
  pk_hop_count :: int
  pk_transfer_history :: "string list"
  pk_chain_hash :: string

record pkg_transfer =
  px_token_id :: string
  px_prev_owner_pubkey_hex :: string
  px_next_owner_pubkey_hex :: string
  px_amount :: fl
  px_nonce_hex :: string
  px_chain_hash :: string
  px_signature_hex :: string
  px_timestamp :: fl

record pkg_heartbeat =
  ph_wallet_pubkey_hex :: string
  ph_last_sync_timestamp :: fl
  ph_token_ids :: "string list"
  ph_signature_hex :: string

record pkg_wallet_state =
  ps_owner_pubkey_hex :: string
  ps_unspent_tokens :: "(string, pkg_token) dict"
  ps_spent_nonces :: "(string \<times> string) set"
  ps_last_sync_timestamp :: fl
  ps_policy :: pkg_policy

section \<open>Transfers\<close>

definition build_tx_payload :: "string \<Rightarrow> string \<Rightarrow> fl \<Rightarrow> string \<Rightarrow> bytes res" where
  "build_tx_payload token_id next_owner_pubkey_hex amount nonce_hex =
     bind_res (fromhex next_owner_pubkey_hex) (\<lambda>next_owner.
     bind_res (fromhex nonce_hex) (\<lambda>nonce.
     Inr (utf8_encode token_id @ next_owner @ pack_double amount @ nonce)))"

definition pkg_chain_hash :: "bytes \<Rightarrow> string \<Rightarrow> string res" where
  "pkg_chain_hash tx_payload prev_chain_hash =
     bind_res (if prev_chain_hash \<noteq> [] then fromhex prev_chain_hash else Inr []) (\<lambda>prev.
     Inr (pkg_sha256_hex [tx_payload, prev]))"

definition sign_transfer :: "dpc_crypto \<Rightarrow> bytes \<Rightarrow> string \<Rightarrow> string res" where
  "sign_transfer K sk chain_hash_hex =
     bind_res (fromhex chain_hash_hex) (\<lambda>h. bind_res (pkg_sign K sk h) (\<lambda>s. Inr (to_hex s)))"

definition verify_transfer_chain :: "dpc_crypto \<Rightarrow> pkg_token \<Rightarrow> pkg_transfer \<Rightarrow> bool res" where
  "verify_transfer_chain K t r =
     bind_res (build_tx_payload (px_token_id r) (px_next_owner_pubkey_hex r) (px_amount r) (px_nonce_hex r))
       (\<lambda>payload.
     bind_res (if length (pk_transfer_history t) = 2
         then bind_res (pkg_chain_hash payload []) (\<lambda>h. Inr (h = px_chain_hash r)) else Inr True) (\<lambda>hash_ok.
     if \<not> hash_ok then Inr False
     else
       bind_res (hex_to_pubkey_bytes (px_prev_owner_pubkey_hex r)) (\<lambda>pk.
       bind_res (fromhex (px_chain_hash r)) (\<lambda>h.
       bind_res (fromhex (px_signature_hex r)) (\<lambda>s. pkg_verify K pk h s)))))"

text \<open>\<open>now\<close> is \<open>time.time()\<close>, \<open>nonce_hex\<close> the generated nonce.\<close>

definition build_transfer ::
  "dpc_crypto \<Rightarrow> fl \<Rightarrow> string \<Rightarrow> pkg_token \<Rightarrow> bytes \<Rightarrow> string \<Rightarrow> string \<Rightarrow> fl \<Rightarrow> pkg_policy \<Rightarrow>
     (pkg_transfer \<times> pkg_token) res" where
  "build_transfer K now nonce_hex t sk payer_pubkey_hex recipient_pubkey_hex amount policy =
     (if pk_owner_pubkey_hex t \<noteq> payer_pubkey_hex then Inl (ValueError ''Wallet does not own token'')
      else if now < pk_issued_at t then Inl (ValueError ''Invalid token: issued in the future'')
      else if pp_max_offline_hops policy \<le> pk_hop_count t then Inl (ValueError ''Hop limit reached'')
      else if pp_max_transaction_value_etb policy < amount
      then Inl (ValueError ''Transaction exceeds offline pocket cash limits'')
      else if pk_denomination t < amount then Inl (ValueError ''Insufficient token value'')
      else if fl_of_int (pp_token_ttl_seconds policy) < now - pk_issued_at t
      then Inl (ValueError ''Token expired'')
      else
        bind_res (build_tx_payload (pk_token_id t) recipient_pubkey_hex amount nonce_hex) (\<lambda>payload.
        bind_res (pkg_chain_hash payload (pk_chain_hash t)) (\<lambda>chain_hash.
        bind_res (sign_transfer K sk chain_hash) (\<lambda>signature_hex.
        Inr (\<lparr>px_token_id = pk_token_id t, px_prev_owner_pubkey_hex = payer_pubkey_hex,
               px_next_owner_pubkey_hex = recipient_pubkey_hex, px_amount = amount, px_nonce_hex = nonce_hex,
               px_chain_hash = chain_hash, px_signature_hex = signature_hex, px_timestamp = now\<rparr>,
             t\<lparr>pk_owner_pubkey_hex := recipient_pubkey_hex, pk_hop_count := pk_hop_count t + 1,
               pk_transfer_history := pk_transfer_history t @ [recipient_pubkey_hex],
               pk_chain_hash := chain_hash\<rparr>)))))"

section \<open>JSON\<close>

definition strs_json :: "string list \<Rightarrow> json" where
  "strs_json xs = JList (map JStr xs)"

definition json_strs :: "json \<Rightarrow> string list res" where
  "json_strs j = bind_res (json_list j) (map_res json_str)"

definition pkg_token_dict :: "pkg_token \<Rightarrow> (string, json) dict" where
  "pkg_token_dict t =
     [(''token_id'', JStr (pk_token_id t)),
      (''denomination'', fl_json (pk_denomination t)),
      (''issuer_pubkey_hex'', JStr (pk_issuer_pubkey_hex t)),
      (''issued_at'', fl_json (pk_issued_at t)),
      (''issuer_signature_hex'', JStr (pk_issuer_signature_hex t)),
      (''owner_pubkey_hex'', JStr (pk_owner_pubkey_hex t)),
      (''hop_count'', JInt (pk_hop_count t)),
      (''transfer_history'', strs_json (pk_transfer_history t)),
      (''chain_hash'', JStr (pk_chain_hash t))]"

definition pkg_transfer_dict :: "pkg_transfer \<Rightarrow> (string, json) dict" where
  "pkg_transfer_dict r =
     [(''token_id'', JStr (px_token_id r)),
      (''prev_owner_pubkey_hex'', JStr (px_prev_owner_pubkey_hex r)),
      (''next_owner_pubkey_hex'', JStr (px_next_owner_pubkey_hex r)),
      (''amount'', fl_json (px_amount r)),
      (''nonce_hex'', JStr (px_nonce_hex r)),
      (''chain_hash'', JStr (px_chain_hash r)),
      (''signature_hex'', JStr (px_signature_hex r)),
      (''timestamp'', fl_json (px_timestamp r))]"

definition pkg_token_of_kwargs :: "json \<Rightarrow> pkg_token res" where
  "pkg_token_of_kwargs j =
     bind_res (json_obj j) (\<lambda>d.
     bind_res (kwargs [''token_id'', ''denomination'', ''issuer_pubkey_hex'', ''issued_at'',
       ''issuer_signature_hex'', ''owner_pubkey_hex'', ''hop_count'', ''transfer_history'', ''chain_hash''] d) (\<lambda>_.
     bind_res (required json_str ''token_id'' d) (\<lambda>token_id.
     bind_res (required json_fl ''denomination'' d) (\<lambda>denomination.
     bind_res (required json_str ''issuer_pubkey_hex'' d) (\<lambda>issuer_pubkey_hex.
     bind_res (required json_fl ''issued_at'' d) (\<lambda>issued_at.
     bind_res (required json_str ''issuer_signature_hex'' d) (\<lambda>issuer_signature_hex.
     bind_res (required json_str ''owner_pubkey_hex'' d) (\<lambda>owner_pubkey_hex.
     bind_res (optional json_int 0 ''hop_count'' d) (\<lambda>hop_count.
     bind_res (optional json_strs [] ''transfer_history'' d) (\<lambda>transfer_history.
     bind_res (optional json_str [] ''chain_hash'' d) (\<lambda>chain_hash.
     Inr \<lparr>pk_token_id = token_id, pk_denomination = denomination,
       pk_issuer_pubkey_hex = issuer_pubkey_hex, pk_issued_at = issued_at,
       pk_issuer_signature_hex = issuer_signature_hex, pk_owner_pubkey_hex = owner_pubkey_hex,
       pk_hop_count = hop_count, pk_transfer_history = transfer_history, pk_chain_hash = chain_hash\<rparr>)))))))))))"

definition pkg_transfer_of_kwargs :: "json \<Rightarrow> pkg_transfer res" where
  "pkg_transfer_of_kwargs j =
     bind_res (json_obj j) (\<lambda>d.
     bind_res (kwargs [''token_id'', ''prev_owner_pubkey_hex'', ''next_owner_pubkey_hex'', ''amount'',
       ''nonce_hex'', ''chain_hash'', ''signature_hex'', ''timestamp''] d) (\<lambda>_.
     bind_res (required json_str ''token_id'' d) (\<lambda>token_id.
     bind_res (required json_str ''prev_owner_pubkey_hex'' d) (\<lambda>prev_owner.
     bind_res (required json_str ''next_owner_pubkey_hex'' d) (\<lambda>next_owner.
     bind_res (required json_fl ''amount'' d) (\<lambda>amount.
     bind_res (required json_str ''nonce_hex'' d) (\<lambda>nonce_hex.
     bind_res (required json_str ''chain_hash'' d) (\<lambda>chain_hash.
     bind_res (required json_str ''signature_hex'' d) (\<lambda>signature_hex.
     bind_res (required json_fl ''timestamp'' d) (\<lambda>timestamp.
     Inr \<lparr>px_token_id = token_id, px_prev_owner_pubkey_hex = prev_owner,
       px_next_owner_pubkey_hex = next_owner, px_amount = amount, px_nonce_hex = nonce_hex,
       px_chain_hash = chain_hash, px_signature_hex = signature_hex, px_timestamp = timestamp\<rparr>))))))))))"

lemma json_strs_roundtrip [simp]: "json_strs (strs_json xs) = Inr xs" "json_wf (strs_json xs)"
proof -
  have "map_res json_str (map JStr xs) = Inr xs" by (induction xs) simp_all
  then show "json_strs (strs_json xs) = Inr xs" by (simp add: json_strs_def strs_json_def)
qed (simp add: strs_json_def list_all_iff)

lemma pkg_token_json: "pkg_token_of_kwargs (JObj (pkg_token_dict t)) = Inr t" "json_wf (JObj (pkg_token_dict t))"
  by (simp_all add: pkg_token_of_kwargs_def pkg_token_dict_def kwargs_def required_def optional_def)

lemma pkg_transfer_json: "pkg_transfer_of_kwargs (JObj (pkg_transfer_dict r)) = Inr r" "json_wf (JObj (pkg_transfer_dict r))"
  by (simp_all add: pkg_transfer_of_kwargs_def pkg_transfer_dict_def kwargs_def required_def)

section \<open>A built transfer verifies\<close>

definition pkg_keypair :: "dpc_crypto \<Rightarrow> bytes \<Rightarrow> string \<Rightarrow> bool" where
  "pkg_keypair K sk pk \<longleftrightarrow> length sk = 32 \<and> pk = to_hex (ed_public (dc_ed25519 K) sk)"

definition pkg_verified :: "dpc_crypto \<Rightarrow> string \<Rightarrow> bytes \<Rightarrow> string \<Rightarrow> bool" where
  "pkg_verified K pk m s \<longleftrightarrow>
     (\<exists>k sig. from_hex pk = Some k \<and> length k = 32 \<and> from_hex s = Some sig \<and>
        ed_verify (dc_ed25519 K) k m sig = SigValid)"

lemma pkg_sign_verifies:
  assumes "ed_ok (dc_ed25519 K)" and "pkg_keypair K sk pk"
  shows "\<exists>s. pkg_sign K sk m = Inr s \<and> pkg_verified K pk m (to_hex s)"
  using assms by (auto simp: ed_ok_def pkg_keypair_def pkg_sign_def pkg_verified_def)

lemma hex_to_pubkey_Inr: "hex_to_pubkey_bytes s = Inr k \<longleftrightarrow> from_hex s = Some k \<and> length k = 32"
  by (auto simp: hex_to_pubkey_bytes_def fromhex_def bind_res_Inr_iff)

lemma pkg_verify_True: "pkg_verify K k m s = Inr True \<longleftrightarrow> ed_verify (dc_ed25519 K) k m s = SigValid"
  by (cases "ed_verify (dc_ed25519 K) k m s") (simp_all add: pkg_verify_def)

lemma fromhex_Inr: "fromhex s = Inr b \<longleftrightarrow> from_hex s = Some b"
  by (simp add: fromhex_def)

text \<open>The common shape of a signature check on textual values.\<close>

lemma pkg_check:
  "bind_res (hex_to_pubkey_bytes pk) (\<lambda>k. bind_res (fromhex s) (\<lambda>sig. pkg_verify K k m sig)) = Inr True \<longleftrightarrow>
     pkg_verified K pk m s"
  by (simp add: bind_res_Inr_iff hex_to_pubkey_Inr fromhex_Inr pkg_verify_True pkg_verified_def)

lemma verify_transfer_chain_True:
  "verify_transfer_chain K t r = Inr True \<longleftrightarrow>
     (\<exists>payload h. build_tx_payload (px_token_id r) (px_next_owner_pubkey_hex r) (px_amount r) (px_nonce_hex r) = Inr payload \<and>
        (length (pk_transfer_history t) = 2 \<longrightarrow> px_chain_hash r = sha256_hex payload) \<and>
        from_hex (px_chain_hash r) = Some h \<and> pkg_verified K (px_prev_owner_pubkey_hex r) h (px_signature_hex r))"
proof -
  have hash: "bind_res (pkg_chain_hash payload []) (\<lambda>h. Inr (h = c)) = Inr (c = sha256_hex payload)" for payload c
    by (auto simp: pkg_chain_hash_def pkg_sha256_hex_def)
  have tail: "bind_res (hex_to_pubkey_bytes pk) (\<lambda>k. bind_res (fromhex c) (\<lambda>h. bind_res (fromhex s)
      (\<lambda>sig. pkg_verify K k h sig))) = Inr True \<longleftrightarrow> (\<exists>h. from_hex c = Some h \<and> pkg_verified K pk h s)" for pk c s
    by (auto simp: bind_res_Inr_iff hex_to_pubkey_Inr fromhex_Inr pkg_verify_True pkg_verified_def)
  show ?thesis
    unfolding verify_transfer_chain_def hash
    by (cases "build_tx_payload (px_token_id r) (px_next_owner_pubkey_hex r) (px_amount r) (px_nonce_hex r)")
      (auto simp: tail)
qed

definition transferable :: "fl \<Rightarrow> string \<Rightarrow> fl \<Rightarrow> pkg_policy \<Rightarrow> pkg_token \<Rightarrow> bool" where
  "transferable now payer amount policy t \<longleftrightarrow>
     pk_owner_pubkey_hex t = payer \<and> pk_issued_at t \<le> now \<and>
     pk_hop_count t < pp_max_offline_hops policy \<and> amount \<le> pp_max_transaction_value_etb policy \<and>
     amount \<le> pk_denomination t \<and> now - pk_issued_at t \<le> fl_of_int (pp_token_ttl_seconds policy)"

definition handed_over :: "string \<Rightarrow> string \<Rightarrow> pkg_token \<Rightarrow> pkg_token" where
  "handed_over recipient h t =
     t\<lparr>pk_owner_pubkey_hex := recipient, pk_hop_count := pk_hop_count t + 1,
       pk_transfer_history := pk_transfer_history t @ [recipient], pk_chain_hash := h\<rparr>"

lemma build_transfer_Inr:
  assumes "build_transfer K now nonce t sk payer recipient amount policy = Inr (r, t')"
  shows "transferable now payer amount policy t" and "t' = handed_over recipient (px_chain_hash r) t"
    and "px_token_id r = pk_token_id t" and "px_next_owner_pubkey_hex r = recipient"
    and "px_amount r = amount" and "px_prev_owner_pubkey_hex r = payer" and "px_nonce_hex r = nonce"
  using assms
  by (auto simp: build_transfer_def transferable_def handed_over_def bind_res_Inr_iff split: if_splits)

lemma build_transfer_verifies:
  assumes "ed_ok (dc_ed25519 K)" and "pkg_keypair K sk payer" and "transferable now payer amount policy t"
    and "from_hex recipient \<noteq> None" and "from_hex nonce \<noteq> None" and "from_hex (pk_chain_hash t) \<noteq> None"
    and "length (pk_transfer_history t) = 1 \<longrightarrow> pk_chain_hash t = []"
  shows "\<exists>r. build_transfer K now nonce t sk payer recipient amount policy =
      Inr (r, handed_over recipient (px_chain_hash r) t) \<and>
    verify_transfer_chain K (handed_over recipient (px_chain_hash r) t) r = Inr True"
proof -
  obtain payload where p: "build_tx_payload (pk_token_id t) recipient amount nonce = Inr payload"
    using assms(4,5) by (auto simp: build_tx_payload_def fromhex_def)
  obtain prev where prev: "(if pk_chain_hash t \<noteq> [] then fromhex (pk_chain_hash t) else Inr []) = Inr prev"
    "pk_chain_hash t = [] \<Longrightarrow> prev = []"
    using assms(6) by (cases "pk_chain_hash t = []") (auto simp: fromhex_def)
  let ?h = "sha256 (payload @ prev)"
  obtain s where s: "pkg_sign K sk ?h = Inr s" "pkg_verified K payer ?h (to_hex s)"
    using pkg_sign_verifies [OF assms(1,2)] by blast
  let ?r = "\<lparr>px_token_id = pk_token_id t, px_prev_owner_pubkey_hex = payer, px_next_owner_pubkey_hex = recipient,
      px_amount = amount, px_nonce_hex = nonce, px_chain_hash = sha256_hex (payload @ prev),
      px_signature_hex = to_hex s, px_timestamp = now\<rparr>"
  have hash: "pkg_chain_hash payload (pk_chain_hash t) = Inr (sha256_hex (payload @ prev))"
    unfolding pkg_chain_hash_def prev(1) by (simp add: pkg_sha256_hex_def)
  have hex: "from_hex (sha256_hex m) = Some (sha256 m)" for m by (simp add: sha256_hex_def)
  have "build_transfer K now nonce t sk payer recipient amount policy =
      Inr (?r, handed_over recipient (px_chain_hash ?r) t)"
    using assms(3) p hash s(1)
    by (simp add: build_transfer_def transferable_def handed_over_def sign_transfer_def fromhex_def hex)
  moreover have "verify_transfer_chain K (handed_over recipient (px_chain_hash ?r) t) ?r = Inr True"
    using p s(2) assms(7) prev(2) hex by (auto simp: verify_transfer_chain_True handed_over_def)
  ultimately show ?thesis by blast
qed

section \<open>Properties\<close>

text \<open>
  C36: The hashed payload binds the transfer: when keys have 32 bytes and nonces 16, and amounts are
  in range, two transfers with the same payload have the same token, recipient, amount and nonce.
  The payload has no separators; it is the fixed width of all fields but the first that separates them.
\<close>
theorem tx_payload_binds:
  assumes "build_tx_payload i pk a n = Inr payload" and "build_tx_payload i' pk' a' n' = Inr payload"
    and "from_hex pk = Some k" and "length k = 32" and "from_hex pk' = Some k'" and "length k' = 32"
    and "from_hex n = Some m" and "length m = 16" and "from_hex n' = Some m'" and "length m' = 16"
    and "\<bar>a\<bar> < 2 ^ 53" and "\<bar>a'\<bar> < 2 ^ 53"
  shows "i = i' \<and> k = k' \<and> a = a' \<and> m = m'"
proof -
  have "payload = utf8_encode i @ k @ pack_double a @ m" "payload = utf8_encode i' @ k' @ pack_double a' @ m'"
    using assms(1-3,5,7,9) by (auto simp: build_tx_payload_def fromhex_def)
  then have "utf8_encode i @ k @ pack_double a @ m = utf8_encode i' @ k' @ pack_double a' @ m'" by simp
  then have "utf8_encode i = utf8_encode i' \<and> k = k' \<and> pack_double a = pack_double a' \<and> m = m'"
    using assms(4,6,8,10) by (simp add: append_eq_append_conv)
  moreover have "i = i'" if "utf8_encode i = utf8_encode i'"
    using that utf8_roundtrip [of i] utf8_roundtrip [of i'] by simp
  moreover have "a = a'" if "pack_double a = pack_double a'"
    using pack_double_inject [OF that] assms(11,12) by (simp add: fl_ok_def)
  ultimately show ?thesis by blast
qed

lemma tx_payload_binds_witness:
  "\<exists>payload. build_tx_payload ''t1'' (to_hex (replicate 32 2)) 640 (to_hex (replicate 16 3)) = Inr payload \<and>
     (\<forall>i a. \<bar>a\<bar> < 2 ^ 53 \<and>
        build_tx_payload i (to_hex (replicate 32 2)) a (to_hex (replicate 16 3)) = Inr payload \<longrightarrow>
        i = ''t1'' \<and> a = 640)"
proof -
  obtain payload where p: "build_tx_payload ''t1'' (to_hex (replicate 32 2)) 640 (to_hex (replicate 16 3)) = Inr payload"
    by (simp add: build_tx_payload_def fromhex_def)
  have "i = ''t1'' \<and> a = 640" if "\<bar>a\<bar> < 2 ^ 53"
    "build_tx_payload i (to_hex (replicate 32 2)) a (to_hex (replicate 16 3)) = Inr payload" for i a
    using tx_payload_binds [OF that(2) p] that(1) by simp
  with p show ?thesis by blast
qed

end
