(* ===== verification/PkgWallet.thy ===== *)
theory PkgWallet
  imports PkgTransfer
begin

text \<open>
  \<open>wallet.py\<close> of \<open>src/dpc_poc/dpc\<close>. Keys, identifiers, nonces and clock readings are arguments, and
  what is printed is left out. \<open>send_token\<close> stores a reset token before it knows whether the transfer
  can be built, so it returns the wallet beside its result. The lemmas give the effect of every
  operation, an invariant of reachable wallets, and the protection against replays.
\<close>

section \<open>The wallet\<close>

record pkg_wallet =
  pw_private_key_bytes :: bytes
  pw_pubkey_hex :: string
  pw_state :: pkg_wallet_state

abbreviation pw_tokens :: "pkg_wallet \<Rightarrow> (string, pkg_token) dict" where
  "pw_tokens w \<equiv> ps_unspent_tokens (pw_state w)"

abbreviation pw_nonces :: "pkg_wallet \<Rightarrow> (string \<times> string) set" where
  "pw_nonces w \<equiv> ps_spent_nonces (pw_state w)"

definition with_tokens :: "(string, pkg_token) dict \<Rightarrow> pkg_wallet \<Rightarrow> pkg_wallet" where
  "with_tokens d w = w\<lparr>pw_state := (pw_state w)\<lparr>ps_unspent_tokens := d\<rparr>\<rparr>"

definition with_nonce :: "string \<times> string \<Rightarrow> pkg_wallet \<Rightarrow> pkg_wallet" where
  "with_nonce n w = w\<lparr>pw_state := (pw_state w)\<lparr>ps_spent_nonces := insert n (pw_nonces w)\<rparr>\<rparr>"

text \<open>\<open>seed\<close> is the fresh private key, \<open>now\<close> the default of \<open>last_sync_timestamp\<close>.\<close>

definition new_pkg_wallet :: "dpc_crypto \<Rightarrow> bytes \<Rightarrow> fl \<Rightarrow> pkg_policy option \<Rightarrow> pkg_wallet res" where
  "new_pkg_wallet K seed now policy =
     (let (sk, pk) = pkg_generate_keypair K seed
      in bind_res (ed25519_pubkey_to_hex pk) (\<lambda>pk_hex.
         Inr \<lparr>pw_private_key_bytes = sk, pw_pubkey_hex = pk_hex,
           pw_state = \<lparr>ps_owner_pubkey_hex = pk_hex, ps_unspent_tokens = [], ps_spent_nonces = {},
             ps_last_sync_timestamp = now,
             ps_policy = (case policy of None \<Rightarrow> pkg_default_policy | Some p \<Rightarrow> p)\<rparr>\<rparr>))"

definition token_signature_message :: "string \<Rightarrow> string \<Rightarrow> fl \<Rightarrow> fl \<Rightarrow> bytes" where
  "token_signature_message token_id issuer_pubkey_hex issued_at denomination =
     utf8_encode (token_id @ issuer_pubkey_hex @ fl_repr issued_at @ fl_repr denomination)"

definition token_message :: "pkg_token \<Rightarrow> bytes" where
  "token_message t = token_signature_message (pk_token_id t) (pk_issuer_pubkey_hex t) (pk_issued_at t)
     (pk_denomination t)"

definition check_lifecycle_reset :: "pkg_token \<Rightarrow> string \<Rightarrow> pkg_token" where
  "check_lifecycle_reset t wallet_pubkey_hex =
     (if wallet_pubkey_hex \<in> set (butlast (pk_transfer_history t))
      then t\<lparr>pk_hop_count := 0, pk_chain_hash := []\<rparr> else t)"

definition pkg_balance :: "pkg_wallet \<Rightarrow> fl" where
  "pkg_balance w = dict_total pk_denomination (pw_tokens w)"

definition pkg_issuer_signature :: "dpc_crypto \<Rightarrow> pkg_token \<Rightarrow> bool res" where
  "pkg_issuer_signature K t =
     bind_res (hex_to_pubkey_bytes (pk_issuer_pubkey_hex t)) (\<lambda>pk.
     bind_res (fromhex (pk_issuer_signature_hex t)) (\<lambda>s. pkg_verify K pk (token_message t) s))"

definition pkg_receive_token ::
  "dpc_crypto \<Rightarrow> pkg_token \<Rightarrow> pkg_transfer \<Rightarrow> pkg_wallet \<Rightarrow> pkg_wallet res" where
  "pkg_receive_token K t r w =
     bind_res (pkg_issuer_signature K t) (\<lambda>signed.
     if \<not> signed then Inl (ValueError ''Invalid issuer signature'')
     else bind_res (verify_transfer_chain K t r) (\<lambda>chained.
       if \<not> chained then Inl (ValueError ''Invalid transfer chain'')
       else if (pk_token_id t, px_nonce_hex r) \<in> pw_nonces w then Inl (ValueError ''Replay detected'')
       else if pp_max_wallet_balance_etb (ps_policy (pw_state w)) < pkg_balance w + pk_denomination t
       then Inl (ValueError ''Exceeds max wallet balance'')
       else if pk_owner_pubkey_hex t \<noteq> pw_pubkey_hex w
       then Inl (ValueError ''Token owner does not match wallet'')
       else
         let t' = check_lifecycle_reset t (pw_pubkey_hex w);
             w1 = with_nonce (pk_token_id t', px_nonce_hex r) w
         in Inr (with_tokens (AList.update (pk_token_id t') t' (pw_tokens w1)) w1)))"

definition pkg_send_token ::
  "dpc_crypto \<Rightarrow> fl \<Rightarrow> string \<Rightarrow> string \<Rightarrow> string \<Rightarrow> fl \<Rightarrow> pkg_wallet \<Rightarrow>
     (pkg_transfer \<times> pkg_token) res \<times> pkg_wallet" where
  "pkg_send_token K now nonce_hex token_id recipient_pubkey_hex amount w =
     (case map_of (pw_tokens w) token_id of
        None \<Rightarrow> (Inl (ValueError ''Token not found in wallet''), w)
      | Some t0 \<Rightarrow>
          let t = check_lifecycle_reset t0 (pw_pubkey_hex w);
              w1 = with_tokens (AList.update token_id t (pw_tokens w)) w
          in (case build_transfer K now nonce_hex t (pw_private_key_bytes w) (pw_pubkey_hex w)
                     recipient_pubkey_hex amount (ps_policy (pw_state w)) of
                Inl e \<Rightarrow> (Inl e, w1)
              | Inr (record, new_token) \<Rightarrow>
                  (Inr (record, new_token),
                   with_nonce (token_id, px_nonce_hex record)
                     (with_tokens (AList.delete token_id (pw_tokens w1)) w1))))"

text \<open>\<open>min\<close> with a key keeps the first of several smallest elements.\<close>

definition get_token_for_swap :: "fl \<Rightarrow> pkg_wallet \<Rightarrow> pkg_token option" where
  "get_token_for_swap amount w =
     (case filter (\<lambda>t. amount \<le> pk_denomination t) (map snd (pw_tokens w)) of
        [] \<Rightarrow> None
      | t # ts \<Rightarrow> Some (fold (\<lambda>x best. if pk_denomination x < pk_denomination best then x else best) ts t))"

definition pkg_issue_token ::
  "dpc_crypto \<Rightarrow> string \<Rightarrow> fl \<Rightarrow> fl \<Rightarrow> pkg_wallet \<Rightarrow> (pkg_token \<times> pkg_wallet) res" where
  "pkg_issue_token K token_id issued_at denomination w =
     bind_res (pkg_sign K (pw_private_key_bytes w)
       (token_signature_message token_id (pw_pubkey_hex w) issued_at denomination)) (\<lambda>s.
     let t = \<lparr>pk_token_id = token_id, pk_denomination = denomination,
           pk_issuer_pubkey_hex = pw_pubkey_hex w, pk_issued_at = issued_at,
           pk_issuer_signature_hex = to_hex s, pk_owner_pubkey_hex = pw_pubkey_hex w,
           pk_hop_count = 0, pk_transfer_history = [pw_pubkey_hex w], pk_chain_hash = []\<rparr>
     in Inr (t, with_tokens (AList.update token_id t (pw_tokens w)) w))"

definition deposit_to_issuer :: "string \<Rightarrow> pkg_wallet \<Rightarrow> (pkg_token \<times> pkg_wallet) res" where
  "deposit_to_issuer token_id w =
     (case map_of (pw_tokens w) token_id of
        None \<Rightarrow> Inl (ValueError ''Token not found in wallet'')
      | Some t \<Rightarrow> Inr (t, with_tokens (AList.delete token_id (pw_tokens w)) w))"

definition get_sync_heartbeat :: "dpc_crypto \<Rightarrow> pkg_wallet \<Rightarrow> pkg_heartbeat res" where
  "get_sync_heartbeat K w =
     (let token_ids = sort (map fst (pw_tokens w));
          message = utf8_encode (pw_pubkey_hex w @ fl_repr (ps_last_sync_timestamp (pw_state w)) @ concat token_ids)
      in bind_res (pkg_sign K (pw_private_key_bytes w) message) (\<lambda>s.
         Inr \<lparr>ph_wallet_pubkey_hex = pw_pubkey_hex w,
           ph_last_sync_timestamp = ps_last_sync_timestamp (pw_state w),
           ph_token_ids = token_ids, ph_signature_hex = to_hex s\<rparr>))"

lemma with_simps [simp]:
  "pw_tokens (with_tokens d w) = d" "pw_nonces (with_tokens d w) = pw_nonces w"
  "pw_pubkey_hex (with_tokens d w) = pw_pubkey_hex w"
  "pw_private_key_bytes (with_tokens d w) = pw_private_key_bytes w"
  "ps_policy (pw_state (with_tokens d w)) = ps_policy (pw_state w)"
  "pw_tokens (with_nonce n w) = pw_tokens w" "pw_nonces (with_nonce n w) = insert n (pw_nonces w)"
  "pw_pubkey_hex (with_nonce n w) = pw_pubkey_hex w"
  "pw_private_key_bytes (with_nonce n w) = pw_private_key_bytes w"
  "ps_policy (pw_state (with_nonce n w)) = ps_policy (pw_state w)"
  by (simp_all add: with_tokens_def with_nonce_def)

lemma with_tokens_twice [simp]: "with_tokens d (with_tokens e w) = with_tokens d w"
  by (simp add: with_tokens_def)

lemma check_lifecycle_simps [simp]:
  "pk_token_id (check_lifecycle_reset t pk) = pk_token_id t"
  "pk_denomination (check_lifecycle_reset t pk) = pk_denomination t"
  "pk_issuer_pubkey_hex (check_lifecycle_reset t pk) = pk_issuer_pubkey_hex t"
  "pk_issued_at (check_lifecycle_reset t pk) = pk_issued_at t"
  "pk_issuer_signature_hex (check_lifecycle_reset t pk) = pk_issuer_signature_hex t"
  "pk_owner_pubkey_hex (check_lifecycle_reset t pk) = pk_owner_pubkey_hex t"
  "pk_transfer_history (check_lifecycle_reset t pk) = pk_transfer_history t"
  by (simp_all add: check_lifecycle_reset_def)

section \<open>What the operations do\<close>

definition pkg_signed :: "dpc_crypto \<Rightarrow> pkg_token \<Rightarrow> bool" where
  "pkg_signed K t \<longleftrightarrow>
     pkg_verified K (pk_issuer_pubkey_hex t) (token_message t) (pk_issuer_signature_hex t)"

lemma pkg_issuer_signature_True: "pkg_issuer_signature K t = Inr True \<longleftrightarrow> pkg_signed K t"
  by (simp add: pkg_issuer_signature_def pkg_signed_def pkg_check)

lemma pkg_signed_reset [simp]: "pkg_signed K (check_lifecycle_reset t pk) = pkg_signed K t"
  by (simp add: pkg_signed_def token_message_def)

lemma pkg_signed_handed_over [simp]: "pkg_signed K (handed_over pk h t) = pkg_signed K t"
  by (simp add: pkg_signed_def token_message_def handed_over_def)

definition received :: "pkg_token \<Rightarrow> pkg_transfer \<Rightarrow> pkg_wallet \<Rightarrow> pkg_wallet" where
  "received t r w = with_tokens
     (AList.update (pk_token_id t) (check_lifecycle_reset t (pw_pubkey_hex w)) (pw_tokens w))
     (with_nonce (pk_token_id t, px_nonce_hex r) w)"

lemma pkg_receive_Inr:
  "pkg_receive_token K t r w = Inr w' \<longleftrightarrow>
     pkg_signed K t \<and> verify_transfer_chain K t r = Inr True \<and>
     (pk_token_id t, px_nonce_hex r) \<notin> pw_nonces w \<and>
     pkg_balance w + pk_denomination t \<le> pp_max_wallet_balance_etb (ps_policy (pw_state w)) \<and>
     pk_owner_pubkey_hex t = pw_pubkey_hex w \<and> w' = received t r w"
  unfolding pkg_issuer_signature_True [symmetric]
  by (cases "pkg_issuer_signature K t"; cases "verify_transfer_chain K t r")
    (auto simp: pkg_receive_token_def received_def Let_def)

lemma pkg_send_cases:
  obtains (absent) e where "pkg_send_token K now n tid rpk amount w = (Inl e, w)" "e = ValueError ''Token not found in wallet''"
  | (refused) t e where "map_of (pw_tokens w) tid = Some t"
      "pkg_send_token K now n tid rpk amount w =
         (Inl e, with_tokens (AList.update tid (check_lifecycle_reset t (pw_pubkey_hex w)) (pw_tokens w)) w)"
      "build_transfer K now n (check_lifecycle_reset t (pw_pubkey_hex w)) (pw_private_key_bytes w)
         (pw_pubkey_hex w) rpk amount (ps_policy (pw_state w)) = Inl e"
  | (sent) t r t' where "map_of (pw_tokens w) tid = Some t"
      "pkg_send_token K now n tid rpk amount w =
         (Inr (r, t'), with_nonce (tid, n) (with_tokens
            (AList.delete tid (AList.update tid (check_lifecycle_reset t (pw_pubkey_hex w)) (pw_tokens w))) w))"
      "build_transfer K now n (check_lifecycle_reset t (pw_pubkey_hex w)) (pw_private_key_bytes w)
         (pw_pubkey_hex w) rpk amount (ps_policy (pw_state w)) = Inr (r, t')"
proof (cases "map_of (pw_tokens w) tid")
  case None
  with absent show thesis by (simp add: pkg_send_token_def)
next
  case (Some t)
  show thesis
  proof (cases "build_transfer K now n (check_lifecycle_reset t (pw_pubkey_hex w)) (pw_private_key_bytes w)
      (pw_pubkey_hex w) rpk amount (ps_policy (pw_state w))")
    case (Inl e)
    with refused Some show thesis by (simp add: pkg_send_token_def Let_def)
  next
    case (Inr out)
    obtain r t' where out: "out = (r, t')" by (cases out)
    with Inr have "px_nonce_hex r = n" using build_transfer_Inr(7) by blast
    then show thesis by (intro sent [OF Some, of r t']) (use Some Inr out in \<open>simp_all add: pkg_send_token_def Let_def\<close>)
  qed
qed

lemma get_token_for_swap_Some:
  assumes "get_token_for_swap amount w = Some t"
  shows "t \<in> snd ` set (pw_tokens w)" and "amount \<le> pk_denomination t"
    and "\<forall>x \<in> snd ` set (pw_tokens w). amount \<le> pk_denomination x \<longrightarrow> pk_denomination t \<le> pk_denomination x"
proof -
  let ?pick = "\<lambda>x best. if pk_denomination x < pk_denomination best then x else best"
  let ?cs = "filter (\<lambda>t. amount \<le> pk_denomination t) (map snd (pw_tokens w))"
  have pick: "fold ?pick ts b \<in> set (b # ts) \<and>
      (\<forall>x \<in> set (b # ts). pk_denomination (fold ?pick ts b) \<le> pk_denomination x)" for ts b
  proof (induction ts arbitrary: b)
    case (Cons x ts)
    from Cons.IH [of "?pick x b"] show ?case by (auto split: if_splits)
  qed simp
  obtain b ts where cs: "?cs = b # ts" and t: "t = fold ?pick ts b"
    using assms by (auto simp: get_token_for_swap_def split: list.splits)
  have "t \<in> set ?cs" "\<forall>x \<in> set ?cs. pk_denomination t \<le> pk_denomination x"
    using pick [of ts b] unfolding cs t by blast+
  then show "t \<in> snd ` set (pw_tokens w)" "amount \<le> pk_denomination t"
    "\<forall>x \<in> snd ` set (pw_tokens w). amount \<le> pk_denomination x \<longrightarrow> pk_denomination t \<le> pk_denomination x"
    by auto
qed

section \<open>Reachable wallets\<close>

inductive pkg_step :: "dpc_crypto \<Rightarrow> pkg_wallet \<Rightarrow> pkg_wallet \<Rightarrow> bool" for K where
  issue: "pkg_issue_token K tid now d w = Inr (t, w') \<Longrightarrow> pkg_step K w w'"
| receive: "pkg_receive_token K t r w = Inr w' \<Longrightarrow> pkg_step K w w'"
| send: "pkg_send_token K now n tid rpk amount w = (out, w') \<Longrightarrow> pkg_step K w w'"
| deposit: "deposit_to_issuer tid w = Inr (t, w') \<Longrightarrow> pkg_step K w w'"

inductive_cases pkg_stepE: "pkg_step K w w'"

definition pkg_token_ok :: "dpc_crypto \<Rightarrow> string \<Rightarrow> string \<Rightarrow> pkg_token \<Rightarrow> bool" where
  "pkg_token_ok K pk k t \<longleftrightarrow> pk_token_id t = k \<and> pk_owner_pubkey_hex t = pk \<and> pkg_signed K t"

definition pkg_inv :: "dpc_crypto \<Rightarrow> pkg_wallet \<Rightarrow> bool" where
  "pkg_inv K w \<longleftrightarrow> dict_wf (pw_tokens w) \<and>
     (\<forall>(k, t) \<in> set (pw_tokens w). pkg_token_ok K (pw_pubkey_hex w) k t)"

lemma pkg_token_ok_reset [simp]:
  "pkg_token_ok K pk k (check_lifecycle_reset t pk') = pkg_token_ok K pk k t"
  by (simp add: pkg_token_ok_def)

lemma pkg_inv_update:
  "pkg_inv K w \<Longrightarrow> pkg_token_ok K (pw_pubkey_hex w) k t \<Longrightarrow> pkg_inv K (with_tokens (AList.update k t (pw_tokens w)) w)"
  by (auto simp: pkg_inv_def dict_wf_update dest!: dict_in_update)

lemma pkg_inv_delete: "pkg_inv K w \<Longrightarrow> pkg_inv K (with_tokens (AList.delete k (pw_tokens w)) w)"
  by (auto simp: pkg_inv_def dict_wf_delete dest!: dict_in_delete)

lemma pkg_inv_nonce [simp]: "pkg_inv K (with_nonce n w) = pkg_inv K w"
  by (simp add: pkg_inv_def)

lemma pkg_inv_entry:
  "pkg_inv K w \<Longrightarrow> map_of (pw_tokens w) k = Some t \<Longrightarrow> pkg_token_ok K (pw_pubkey_hex w) k t"
  unfolding pkg_inv_def using map_of_SomeD by fastforce

lemma pkg_step_keys:
  assumes "pkg_step K w w'"
  shows "pw_pubkey_hex w' = pw_pubkey_hex w" and "pw_private_key_bytes w' = pw_private_key_bytes w"
    and "pw_nonces w \<subseteq> pw_nonces w'"
proof -
  have "pw_pubkey_hex w' = pw_pubkey_hex w \<and> pw_private_key_bytes w' = pw_private_key_bytes w \<and>
      pw_nonces w \<subseteq> pw_nonces w'"
    using assms
  proof cases
    case (send now n tid rpk amount out)
    show ?thesis
      by (rule pkg_send_cases [of K now n tid rpk amount w]) (use send in auto)
  qed (auto simp: pkg_issue_token_def bind_res_Inr_iff Let_def pkg_receive_Inr received_def
      deposit_to_issuer_def split: option.splits)
  then show "pw_pubkey_hex w' = pw_pubkey_hex w" "pw_private_key_bytes w' = pw_private_key_bytes w"
    "pw_nonces w \<subseteq> pw_nonces w'" by blast+
qed

lemma pkg_issue_signed:
  assumes "ed_ok (dc_ed25519 K)" and "pkg_keypair K (pw_private_key_bytes w) (pw_pubkey_hex w)"
  shows "\<exists>t. pkg_issue_token K tid now d w = Inr (t, with_tokens (AList.update tid t (pw_tokens w)) w) \<and>
    pkg_token_ok K (pw_pubkey_hex w) tid t \<and> pk_denomination t = d \<and> pk_issued_at t = now \<and>
    pk_hop_count t = 0 \<and> pk_transfer_history t = [pw_pubkey_hex w] \<and> pk_chain_hash t = []"
proof -
  obtain s where "pkg_sign K (pw_private_key_bytes w) (token_signature_message tid (pw_pubkey_hex w) now d) = Inr s"
    "pkg_verified K (pw_pubkey_hex w) (token_signature_message tid (pw_pubkey_hex w) now d) (to_hex s)"
    using pkg_sign_verifies [OF assms] by blast
  then show ?thesis
    by (simp add: pkg_issue_token_def Let_def pkg_token_ok_def pkg_signed_def token_message_def)
qed

lemma pkg_step_inv:
  assumes "pkg_step K w w'" and "pkg_inv K w" and "ed_ok (dc_ed25519 K)"
    and "pkg_keypair K (pw_private_key_bytes w) (pw_pubkey_hex w)"
  shows "pkg_inv K w'"
  using assms(1)
proof cases
  case (issue tid now d t)
  obtain t' where "pkg_issue_token K tid now d w = Inr (t', with_tokens (AList.update tid t' (pw_tokens w)) w)"
    "pkg_token_ok K (pw_pubkey_hex w) tid t'" using pkg_issue_signed [OF assms(3,4)] by blast
  with issue pkg_inv_update [OF assms(2)] show ?thesis by auto
next
  case (receive t r)
  then have "w' = received t r w" "pkg_token_ok K (pw_pubkey_hex w) (pk_token_id t) t"
    by (auto simp: pkg_receive_Inr pkg_token_ok_def)
  with pkg_inv_update [of K "with_nonce (pk_token_id t, px_nonce_hex r) w"] assms(2) show ?thesis
    by (simp add: received_def)
next
  case (send now n tid rpk amount out)
  show ?thesis
  proof (rule pkg_send_cases [of K now n tid rpk amount w])
    fix t e
    assume "map_of (pw_tokens w) tid = Some t" and "pkg_send_token K now n tid rpk amount w =
      (Inl e, with_tokens (AList.update tid (check_lifecycle_reset t (pw_pubkey_hex w)) (pw_tokens w)) w)"
    then have "w' = with_tokens (AList.update tid (check_lifecycle_reset t (pw_pubkey_hex w)) (pw_tokens w)) w"
      "pkg_token_ok K (pw_pubkey_hex w) tid t" using send pkg_inv_entry [OF assms(2)] by simp_all
    with pkg_inv_update [OF assms(2)] show ?thesis by simp
  next
    fix t r t'
    let ?d = "AList.update tid (check_lifecycle_reset t (pw_pubkey_hex w)) (pw_tokens w)"
    assume t: "map_of (pw_tokens w) tid = Some t" and out: "pkg_send_token K now n tid rpk amount w =
      (Inr (r, t'), with_nonce (tid, n) (with_tokens (AList.delete tid ?d) w))"
    have "pkg_inv K (with_tokens ?d w)"
      using pkg_inv_update [OF assms(2)] pkg_inv_entry [OF assms(2) t] by simp
    from pkg_inv_delete [OF this, of tid] have "pkg_inv K (with_tokens (AList.delete tid ?d) w)"
      by simp
    moreover have "w' = with_nonce (tid, n) (with_tokens (AList.delete tid ?d) w)" using send out by simp
    ultimately show ?thesis by simp
  qed (use send assms(2) in simp)
next
  case (deposit tid t)
  with pkg_inv_delete [OF assms(2)] show ?thesis
    by (auto simp: deposit_to_issuer_def split: option.splits)
qed

lemma pkg_run_inv:
  assumes "(pkg_step K)\<^sup>*\<^sup>* w w'" and "pkg_inv K w" and "ed_ok (dc_ed25519 K)"
    and "pkg_keypair K (pw_private_key_bytes w) (pw_pubkey_hex w)"
  shows "pkg_inv K w' \<and> pw_pubkey_hex w' = pw_pubkey_hex w \<and> pw_private_key_bytes w' = pw_private_key_bytes w"
  using assms(1)
proof (induction rule: rtranclp_induct)
  case (step w1 w2)
  with pkg_step_keys [OF step(2)] pkg_step_inv [OF step(2)] assms(3,4) show ?case by simp
qed (use assms(2) in simp)

lemma pkg_run_nonces: "(pkg_step K)\<^sup>*\<^sup>* w w' \<Longrightarrow> pw_nonces w \<subseteq> pw_nonces w'"
  by (induction rule: rtranclp_induct) (use pkg_step_keys(3) in blast)+

lemma new_pkg_wallet_ok:
  assumes "ed_ok (dc_ed25519 K)" and "length seed = 32"
  obtains w where "new_pkg_wallet K seed now policy = Inr w" "pkg_inv K w" "pw_tokens w = []" "pw_nonces w = {}"
    "pw_private_key_bytes w = seed" "pw_pubkey_hex w = to_hex (ed_public (dc_ed25519 K) seed)"
    "pkg_keypair K (pw_private_key_bytes w) (pw_pubkey_hex w)"
    "ps_policy (pw_state w) = (case policy of None \<Rightarrow> pkg_default_policy | Some p \<Rightarrow> p)"
  using assms that
  by (simp add: new_pkg_wallet_def pkg_generate_keypair_def ed25519_pubkey_to_hex_def ed_ok_def pkg_inv_def
      pkg_keypair_def)

section \<open>Properties\<close>

text \<open>
  C33: Whatever a wallet issues, receives, sends (also in vain) or deposits, in any order: its tokens are
  filed under their identifiers, belong to the wallet and carry a signature of the issuer they
  name; and once it has received a transfer it never again receives the same token with the same nonce.
\<close>
theorem pkg_wallet_sound:
  assumes "ed_ok (dc_ed25519 K)" and "length seed = 32" and "new_pkg_wallet K seed now policy = Inr w0"
    and "(pkg_step K)\<^sup>*\<^sup>* w0 w"
  shows "(\<forall>(k, t) \<in> set (pw_tokens w). pk_token_id t = k \<and>
       pk_owner_pubkey_hex t = to_hex (ed_public (dc_ed25519 K) seed) \<and>
       pkg_issuer_signature K t = Inr True) \<and>
    (\<forall>t r w1 w2 t' r'. pkg_receive_token K t r w = Inr w1 \<longrightarrow> (pkg_step K)\<^sup>*\<^sup>* w1 w2 \<longrightarrow>
       pk_token_id t' = pk_token_id t \<longrightarrow> px_nonce_hex r' = px_nonce_hex r \<longrightarrow>
       \<not> is_ok (pkg_receive_token K t' r' w2))"
proof -
  obtain w' where "new_pkg_wallet K seed now policy = Inr w'" "pkg_inv K w'"
    "pw_pubkey_hex w' = to_hex (ed_public (dc_ed25519 K) seed)"
    "pkg_keypair K (pw_private_key_bytes w') (pw_pubkey_hex w')"
    by (rule new_pkg_wallet_ok [OF assms(1,2)])
  with pkg_run_inv [OF assms(4)] assms(1,3) have inv: "pkg_inv K w"
    "pw_pubkey_hex w = to_hex (ed_public (dc_ed25519 K) seed)" by auto
  have replay: "\<not> is_ok (pkg_receive_token K t' r' w2)"
    if "pkg_receive_token K t r w = Inr w1" "(pkg_step K)\<^sup>*\<^sup>* w1 w2"
      "pk_token_id t' = pk_token_id t" "px_nonce_hex r' = px_nonce_hex r" for t r w1 w2 t' r'
  proof -
    have "(pk_token_id t, px_nonce_hex r) \<in> pw_nonces w1" using that(1) by (simp add: pkg_receive_Inr received_def)
    with pkg_run_nonces [OF that(2)] that(3,4) show ?thesis by (auto simp: is_ok_iff pkg_receive_Inr)
  qed
  from inv show ?thesis
    using replay by (fastforce simp: pkg_inv_def pkg_token_ok_def pkg_issuer_signature_True)
qed

text \<open>A wallet with a token for the witnesses: the key is \<open>k\<close> repeated, the token is its own.\<close>

lemma demo_pkg_wallet:
  obtains w t where "new_pkg_wallet toy_crypto (replicate 32 k) 0 None = Inr w"
    "pkg_issue_token toy_crypto tid 640 d w = Inr (t, with_tokens [(tid, t)] w)"
    "pkg_token_ok toy_crypto (to_hex (replicate 32 k)) tid t" "pk_denomination t = d" "pk_issued_at t = 640"
    "pk_hop_count t = 0" "pk_transfer_history t = [to_hex (replicate 32 k)]" "pk_chain_hash t = []"
    "pw_pubkey_hex w = to_hex (replicate 32 k)" "pw_private_key_bytes w = replicate 32 k"
    "pw_tokens w = []" "pw_nonces w = {}" "ps_policy (pw_state w) = pkg_default_policy"
    "pkg_keypair toy_crypto (pw_private_key_bytes w) (pw_pubkey_hex w)"
proof -
  have ok: "ed_ok (dc_ed25519 toy_crypto)" by simp
  obtain w where w: "new_pkg_wallet toy_crypto (replicate 32 k) 0 None = Inr w" "pw_tokens w = []" "pw_nonces w = {}"
    "pw_private_key_bytes w = replicate 32 k" "pw_pubkey_hex w = to_hex (replicate 32 k)"
    "pkg_keypair toy_crypto (pw_private_key_bytes w) (pw_pubkey_hex w)"
    "ps_policy (pw_state w) = pkg_default_policy"
    by (rule new_pkg_wallet_ok [OF ok, of "replicate 32 k" 0 None]) auto
  from pkg_issue_signed [OF ok w(6), of tid 640 d] w(2,5) obtain t where
    "pkg_issue_token toy_crypto tid 640 d w = Inr (t, with_tokens [(tid, t)] w)"
    "pkg_token_ok toy_crypto (to_hex (replicate 32 k)) tid t" "pk_denomination t = d" "pk_issued_at t = 640"
    "pk_hop_count t = 0" "pk_transfer_history t = [to_hex (replicate 32 k)]" "pk_chain_hash t = []" by auto
  with w show thesis by (intro that) auto
qed

lemma pkg_wallet_sound_witness:
  "\<exists>w0 w t. new_pkg_wallet toy_crypto (replicate 32 2) 0 None = Inr w0 \<and> (pkg_step toy_crypto)\<^sup>*\<^sup>* w0 w \<and>
     pw_tokens w = [(''t1'', t)] \<and> pkg_issuer_signature toy_crypto t = Inr True"
proof -
  have ok: "ed_ok (dc_ed25519 toy_crypto)" by simp
  obtain w t where w: "new_pkg_wallet toy_crypto (replicate 32 2) 0 None = Inr w"
    and issue: "pkg_issue_token toy_crypto ''t1'' 640 6400 w = Inr (t, with_tokens [(''t1'', t)] w)"
    by (rule demo_pkg_wallet)
  from issue have "(pkg_step toy_crypto)\<^sup>*\<^sup>* w (with_tokens [(''t1'', t)] w)"
    by (intro r_into_rtranclp pkg_step.issue)
  with pkg_wallet_sound [OF ok _ w this] w show ?thesis
    by (intro exI [of _ w] exI [of _ "with_tokens [(''t1'', t)] w"] exI [of _ t]) simp
qed

text \<open>
  C38: The wallet raises nothing but \<open>ValueError\<close>: whatever tokens and records with fields of the
  annotated types it is given, their keys, hex strings and signatures malformed or not, receiving,
  sending, issuing, depositing and the heartbeat either return or raise that exception, and so does
  making a wallet. Fields of other types, such as a null history in a packet of the link, are outside
  this statement: the code raises \<open>TypeError\<close> for them in the wallet, the model when it reads the packet.
\<close>
theorem pkg_wallet_raises_value_errors:
  "let value_error = \<lambda>e. \<exists>msg. e = ValueError msg in
   (\<forall>e. pkg_receive_token K t r w = Inl e \<longrightarrow> value_error e) \<and>
   (\<forall>e. fst (pkg_send_token K now n tid rpk amount w) = Inl e \<longrightarrow> value_error e) \<and>
   (\<forall>e. pkg_issue_token K tid now d w = Inl e \<longrightarrow> value_error e) \<and>
   (\<forall>e. deposit_to_issuer tid w = Inl e \<longrightarrow> value_error e) \<and>
   (\<forall>e. get_sync_heartbeat K w = Inl e \<longrightarrow> value_error e) \<and>
   (\<forall>e. new_pkg_wallet K seed now policy = Inl e \<longrightarrow> value_error e)"
proof -
  let ?V = "\<lambda>e. \<exists>msg. e = ValueError msg"
  have of_opt: "of_option (ValueError m) x = Inl e \<Longrightarrow> ?V e" for m and x :: "'z option" and e
    by (cases x) auto
  have hex: "fromhex x = Inl e \<Longrightarrow> ?V e" for x e unfolding fromhex_def by (rule of_opt)
  have pub: "hex_to_pubkey_bytes x = Inl e \<Longrightarrow> ?V e" for x e
    by (auto simp: hex_to_pubkey_bytes_def bind_res_Inl_iff split: if_splits dest: hex)
  have ver: "pkg_verify K k m x = Inl e \<Longrightarrow> ?V e" for k m x e
    by (auto simp: pkg_verify_def split: verify_outcome.splits)
  have sgn: "pkg_sign K sk m = Inl e \<Longrightarrow> ?V e" for sk m e unfolding pkg_sign_def by (rule of_opt)
  have pay: "build_tx_payload a b c d = Inl e \<Longrightarrow> ?V e" for a b c d e
    by (auto simp: build_tx_payload_def bind_res_Inl_iff dest: hex)
  have chn: "pkg_chain_hash a b = Inl e \<Longrightarrow> ?V e" for a b e
    by (auto simp: pkg_chain_hash_def bind_res_Inl_iff split: if_splits dest: hex)
  have iss: "pkg_issuer_signature K t = Inl e \<Longrightarrow> ?V e" for e
    by (auto simp: pkg_issuer_signature_def bind_res_Inl_iff dest: hex pub ver)
  have vtc: "verify_transfer_chain K t r = Inl e \<Longrightarrow> ?V e" for e
    by (auto simp: verify_transfer_chain_def bind_res_Inl_iff split: if_splits dest: hex pub ver pay chn)
  have bld: "build_transfer K now n t' sk a b c p = Inl e \<Longrightarrow> ?V e" for t' sk a b c p e
    by (auto simp: build_transfer_def sign_transfer_def bind_res_Inl_iff split: if_splits dest: hex pay chn sgn)
  have "pkg_receive_token K t r w = Inl e \<Longrightarrow> ?V e" for e
    by (auto simp: pkg_receive_token_def bind_res_Inl_iff Let_def split: if_splits dest: iss vtc)
  moreover have "fst (pkg_send_token K now n tid rpk amount w) = Inl e \<Longrightarrow> ?V e" for e
    by (rule pkg_send_cases [of K now n tid rpk amount w]) (auto dest: bld)
  moreover have "pkg_issue_token K tid now d w = Inl e \<Longrightarrow> ?V e" for e
    by (auto simp: pkg_issue_token_def bind_res_Inl_iff Let_def dest: sgn)
  moreover have "deposit_to_issuer tid w = Inl e \<Longrightarrow> ?V e" for e
    by (auto simp: deposit_to_issuer_def split: option.splits)
  moreover have "get_sync_heartbeat K w = Inl e \<Longrightarrow> ?V e" for e
    by (auto simp: get_sync_heartbeat_def bind_res_Inl_iff Let_def dest: sgn)
  moreover have "new_pkg_wallet K seed now policy = Inl e \<Longrightarrow> ?V e" for e
    by (auto simp: new_pkg_wallet_def ed25519_pubkey_to_hex_def Let_def split_beta split: if_splits)
  ultimately show ?thesis unfolding Let_def by blast
qed

lemma pkg_wallet_raises_value_errors_witness:
  "\<exists>msg w. new_pkg_wallet toy_crypto (replicate 32 2) 0 None = Inr w \<and>
     deposit_to_issuer ''t1'' w = Inl (ValueError msg)"
proof -
  obtain w where w: "new_pkg_wallet toy_crypto (replicate 32 2) 0 None = Inr w" "pw_tokens w = []"
    by (rule demo_pkg_wallet)
  then have "\<not> is_ok (deposit_to_issuer ''t1'' w)" by (simp add: deposit_to_issuer_def)
  then obtain e where "deposit_to_issuer ''t1'' w = Inl e" by (cases "deposit_to_issuer ''t1'' w") auto
  with pkg_wallet_raises_value_errors [where K = toy_crypto and w = w and tid = "''t1''"] w(1) show ?thesis
    unfolding Let_def by blast
qed

section \<open>Gaps\<close>

text \<open>
  The fields of a token are signed without separators, so a token of 3 that was issued at a time that
  ends in .5625 has the signature of a token of 6253 that was issued at the same second, .5.
\<close>

lemma repr_seconds:
  assumes "us < 1000000"
  shows "repr_time (1000000 * int n + int us) = dec_nat n @ CHR ''.'' # strip_zeros (pad 6 us)"
proof -
  have "nat \<bar>1000000 * int n + int us\<bar> = 1000000 * n + us" by simp
  moreover have "(1000000 * n + us) div 1000000 = n" "(1000000 * n + us) mod 1000000 = us" using assms by simp_all
  ultimately show ?thesis
    unfolding repr_time_def Let_def by (simp only: of_nat_0_le_iff) (simp add: not_less)
qed

lemma signature_message_ambiguous:
  "token_signature_message tid pk (64 * int n + 36) (fl_of_int 3) =
   token_signature_message tid pk (64 * int n + 32) (fl_of_int 6253)"
proof -
  have stripped: "strip_zeros (pad 6 562500) = ''5625''" "strip_zeros (pad 6 500000) = ''5''"
    "strip_zeros (pad 6 0) = ''0''" "dec_nat 3 = ''3''" "dec_nat 6253 = ''6253''"
    by (simp_all add: strip_zeros_def pad_numeral pad.simps digit_chars dec_nat.simps)
  have "fl_repr (64 * int n + 36) = dec_nat n @ ''.5625''"
    using repr_seconds [of 562500 n] unfolding stripped by (simp add: fl_repr_def algebra_simps)
  moreover have "fl_repr (64 * int n + 32) = dec_nat n @ ''.5''"
    using repr_seconds [of 500000 n] unfolding stripped by (simp add: fl_repr_def algebra_simps)
  moreover have "fl_repr (fl_of_int 3) = ''3.0''" "fl_repr (fl_of_int 6253) = ''6253.0''"
    using repr_seconds [of 0 3] repr_seconds [of 0 6253] unfolding stripped by (simp_all add: fl_repr_def)
  ultimately show ?thesis by (simp add: token_signature_message_def)
qed

lemma forged_denomination:
  assumes "pkg_signed K t" and "pk_issued_at t = 64 * int n + 36" and "pk_denomination t = fl_of_int 3"
  shows "pkg_signed K (t\<lparr>pk_issued_at := 64 * int n + 32, pk_denomination := fl_of_int 6253\<rparr>)"
  using assms signature_message_ambiguous [of "pk_token_id t" "pk_issuer_pubkey_hex t" n]
  by (simp add: pkg_signed_def token_message_def)

text \<open>
  The transfer record is checked against the signature of whoever it names as previous owner, and
  the owner and history of the token are taken as they come: any key can pay with a token it has
  only seen.
\<close>

lemma anyone_pays:
  assumes "ed_ok (dc_ed25519 K)" and "pkg_keypair K sk pk" and "pkg_signed K t"
    and "from_hex (pw_pubkey_hex w) \<noteq> None" and "from_hex nonce \<noteq> None"
    and "(pk_token_id t, nonce) \<notin> pw_nonces w"
    and "pkg_balance w + pk_denomination t \<le> pp_max_wallet_balance_etb (ps_policy (pw_state w))"
  shows "\<exists>t' r w'. pk_token_id t' = pk_token_id t \<and> pk_denomination t' = pk_denomination t \<and>
    px_prev_owner_pubkey_hex r = pk \<and> pkg_receive_token K t' r w = Inr w'"
proof -
  let ?t = "t\<lparr>pk_owner_pubkey_hex := pw_pubkey_hex w, pk_transfer_history := []\<rparr>"
  obtain payload where p: "build_tx_payload (pk_token_id t) (pw_pubkey_hex w) (pk_denomination t) nonce = Inr payload"
    using assms(4,5) by (auto simp: build_tx_payload_def fromhex_def)
  obtain s where s: "pkg_sign K sk (sha256 payload) = Inr s" "pkg_verified K pk (sha256 payload) (to_hex s)"
    using pkg_sign_verifies [OF assms(1,2)] by blast
  let ?r = "\<lparr>px_token_id = pk_token_id t, px_prev_owner_pubkey_hex = pk, px_next_owner_pubkey_hex = pw_pubkey_hex w,
      px_amount = pk_denomination t, px_nonce_hex = nonce, px_chain_hash = sha256_hex payload,
      px_signature_hex = to_hex s, px_timestamp = 0\<rparr>"
  have "verify_transfer_chain K ?t ?r = Inr True"
    using p s(2) by (simp add: verify_transfer_chain_True sha256_hex_def)
  moreover have "pkg_signed K ?t" using assms(3) by (simp add: pkg_signed_def token_message_def)
  ultimately have "pkg_receive_token K ?t ?r w = Inr (received ?t ?r w)"
    using assms(6,7) by (simp add: pkg_receive_Inr)
  then show ?thesis by (intro exI [of _ ?t] exI [of _ ?r] exI [of _ "received ?t ?r w"]) simp
qed

end
