(* ===== verification/PkgLedger.thy ===== *)
theory PkgLedger
  imports PkgWallet Settlement
begin

text \<open>
  \<open>reconciliation.py\<close> and \<open>proxy_sync.py\<close> of \<open>src/dpc_poc/dpc\<close>: the issuer's ledger, which accepts the
  first submission of a token and later ones of the same submitter and flags everyone else, and
  the relay of heartbeats. The ledger is interpreted as one that remembers the owner of a key.
\<close>

section \<open>The ledger\<close>

record submission_result =
  pr_token_id :: string
  pr_accepted :: bool
  pr_owner :: "string option"
  pr_reason :: string

record pkg_ledger =
  pl_registry :: "(string, string) dict"
  pl_token_values :: "(string, fl) dict"
  pl_accepted_tokens :: "(string, pkg_token) dict"
  pl_suspicious_keys :: "string set"
  pl_submission_log :: "submission_result list"

definition new_pkg_ledger :: pkg_ledger where
  "new_pkg_ledger = \<lparr>pl_registry = [], pl_token_values = [], pl_accepted_tokens = [],
     pl_suspicious_keys = {}, pl_submission_log = []\<rparr>"

definition valid_issuer_signature :: "dpc_crypto \<Rightarrow> pkg_token \<Rightarrow> bool res" where
  "valid_issuer_signature K t =
     bind_res (hex_to_pubkey_bytes (pk_issuer_pubkey_hex t)) (\<lambda>pk.
     bind_res (fromhex (pk_issuer_signature_hex t)) (\<lambda>s.
       pkg_verify K pk (token_signature_message (pk_token_id t) (pk_issuer_pubkey_hex t) (pk_issued_at t)
         (pk_denomination t)) s))"

definition log_result :: "submission_result \<Rightarrow> pkg_ledger \<Rightarrow> submission_result res \<times> pkg_ledger" where
  "log_result result led = (Inr result, led\<lparr>pl_submission_log := pl_submission_log led @ [result]\<rparr>)"

text \<open>\<open>transfer_history[-2]\<close> is the last but one entry.\<close>

definition submit_token ::
  "dpc_crypto \<Rightarrow> pkg_token \<Rightarrow> string \<Rightarrow> pkg_ledger \<Rightarrow> submission_result res \<times> pkg_ledger" where
  "submit_token K t submitter led =
     (case valid_issuer_signature K t of
        Inl e \<Rightarrow> (Inl e, led)
      | Inr signature_ok \<Rightarrow>
          let result = (\<lambda>accepted owner reason. \<lparr>pr_token_id = pk_token_id t, pr_accepted = accepted,
                pr_owner = owner, pr_reason = reason\<rparr>)
          in if \<not> signature_ok then log_result (result False None ''invalid signature'') led
             else
               (case map_of (pl_registry led) (pk_token_id t) of
                  None \<Rightarrow>
                    log_result (result True (Some submitter) ''accepted'')
                      (led\<lparr>pl_registry := AList.update (pk_token_id t) submitter (pl_registry led),
                         pl_token_values := AList.update (pk_token_id t) (pk_denomination t) (pl_token_values led),
                         pl_accepted_tokens := AList.update (pk_token_id t) t (pl_accepted_tokens led)\<rparr>)
                | Some owner \<Rightarrow>
                    if owner = submitter then log_result (result True (Some submitter) ''accepted'') led
                    else
                      let history = pk_transfer_history t;
                          previous = (if 2 \<le> length history then {history ! (length history - 2)} else {})
                      in log_result (result False (Some owner) ''Token already spent'')
                           (led\<lparr>pl_suspicious_keys := insert submitter (previous \<union> pl_suspicious_keys led)\<rparr>)))"

fun submit_batch ::
  "dpc_crypto \<Rightarrow> pkg_token list \<Rightarrow> string \<Rightarrow> pkg_ledger \<Rightarrow> submission_result list res \<times> pkg_ledger" where
  "submit_batch K [] submitter led = (Inr [], led)"
| "submit_batch K (t # ts) submitter led =
     (case submit_token K t submitter led of
        (Inl e, led1) \<Rightarrow> (Inl e, led1)
      | (Inr r, led1) \<Rightarrow>
          (case submit_batch K ts submitter led1 of
             (Inl e, led2) \<Rightarrow> (Inl e, led2)
           | (Inr rs, led2) \<Rightarrow> (Inr (r # rs), led2)))"

definition pl_get_balance :: "string \<Rightarrow> pkg_ledger \<Rightarrow> fl res" where
  "pl_get_balance owner_pubkey_hex led =
     map_sum (\<lambda>e. e) sum_list
       (map_res (\<lambda>(token_id, _). of_option (KeyError token_id) (map_of (pl_token_values led) token_id))
         (filter (\<lambda>(_, owner). owner = owner_pubkey_hex) (pl_registry led)))"

definition is_flagged :: "string \<Rightarrow> pkg_ledger \<Rightarrow> bool" where
  "is_flagged pubkey_hex led \<longleftrightarrow> pubkey_hex \<in> pl_suspicious_keys led"

text \<open>The lines \<open>print_report\<close> prints; \<open>{x:8}\<close> pads a string on the right to eight characters.\<close>

definition ljust :: "nat \<Rightarrow> string \<Rightarrow> string" where
  "ljust n s = s @ replicate (n - length s) (CHR '' '')"

definition report_lines :: "pkg_ledger \<Rightarrow> string list" where
  "report_lines led =
     [''[Ledger] Submission Report'', ''[Ledger] token_id                         accepted owner    reason''] @
     map (\<lambda>entry.
       let owner = take 8 (case pr_owner entry of None \<Rightarrow> [] | Some o' \<Rightarrow> o')
       in ''[Ledger] '' @ take 32 (pr_token_id entry) @ '' '' @
            ljust 8 (if pr_accepted entry then ''True'' else ''False'') @ '' '' @ ljust 8 owner @ '' '' @
            pr_reason entry) (pl_submission_log led)"

section \<open>The relay\<close>

record pkg_proxy =
  py_ledger :: pkg_ledger
  py_sync_registry :: "(string, fl) dict"

definition new_pkg_proxy :: "pkg_ledger \<Rightarrow> pkg_proxy" where
  "new_pkg_proxy led = \<lparr>py_ledger = led, py_sync_registry = []\<rparr>"

text \<open>\<open>now\<close> is \<open>time.time()\<close>; the argument \<open>relay_wallet\<close> has no effect.\<close>

definition pkg_relay_heartbeat ::
  "dpc_crypto \<Rightarrow> fl \<Rightarrow> pkg_heartbeat \<Rightarrow> pkg_proxy \<Rightarrow> (bool \<times> pkg_proxy) res" where
  "pkg_relay_heartbeat K now hb p =
     (let message = utf8_encode (ph_wallet_pubkey_hex hb @ fl_repr (ph_last_sync_timestamp hb) @
            concat (sort (ph_token_ids hb)))
      in bind_res (hex_to_pubkey_bytes (ph_wallet_pubkey_hex hb)) (\<lambda>pk.
         bind_res (fromhex (ph_signature_hex hb)) (\<lambda>s.
         bind_res (pkg_verify K pk message s) (\<lambda>valid.
         Inr (if \<not> valid then (False, p)
              else (True, p\<lparr>py_sync_registry :=
                AList.update (ph_wallet_pubkey_hex hb) now (py_sync_registry p)\<rparr>))))))"

definition get_effective_last_sync :: "string \<Rightarrow> pkg_proxy \<Rightarrow> fl" where
  "get_effective_last_sync wallet_pubkey_hex p =
     (case map_of (py_sync_registry p) wallet_pubkey_hex of None \<Rightarrow> 0 | Some t \<Rightarrow> t)"

definition is_token_valid :: "fl \<Rightarrow> pkg_token \<Rightarrow> string \<Rightarrow> pkg_policy \<Rightarrow> pkg_proxy \<Rightarrow> bool" where
  "is_token_valid now t wallet_pubkey_hex policy p \<longleftrightarrow>
     now - pk_issued_at t < fl_of_int (pp_token_ttl_seconds policy) \<and>
     now - get_effective_last_sync wallet_pubkey_hex p < fl_of_int (pp_token_ttl_seconds policy)"

section \<open>Submissions\<close>

text \<open>A submission is a token with the key that submits it.\<close>

type_synonym pkg_submission = "pkg_token \<times> string"

definition submit_step :: "dpc_crypto \<Rightarrow> pkg_submission \<Rightarrow> pkg_ledger \<Rightarrow> submission_result res \<times> pkg_ledger" where
  "submit_step K sub led = submit_token K (fst sub) (snd sub) led"

definition was_accepted :: "submission_result res \<Rightarrow> bool" where
  "was_accepted out = (case out of Inl _ \<Rightarrow> False | Inr r \<Rightarrow> pr_accepted r)"

lemma valid_issuer_signature_eq: "valid_issuer_signature K t = pkg_issuer_signature K t"
  by (simp add: valid_issuer_signature_def pkg_issuer_signature_def token_message_def)

lemma submit_step_cases:
  obtains (unsigned) out log where "submit_step K (t, pk) led = (out, led\<lparr>pl_submission_log := log\<rparr>)"
      "\<not> was_accepted out" "\<not> pkg_signed K t"
  | (first) r log where "submit_step K (t, pk) led = (Inr r, led
        \<lparr>pl_registry := AList.update (pk_token_id t) pk (pl_registry led),
         pl_token_values := AList.update (pk_token_id t) (pk_denomination t) (pl_token_values led),
         pl_accepted_tokens := AList.update (pk_token_id t) t (pl_accepted_tokens led),
         pl_submission_log := log\<rparr>)"
      "pr_accepted r" "pkg_signed K t" "map_of (pl_registry led) (pk_token_id t) = None"
  | (again) r log where "submit_step K (t, pk) led = (Inr r, led\<lparr>pl_submission_log := log\<rparr>)"
      "pr_accepted r" "pkg_signed K t" "map_of (pl_registry led) (pk_token_id t) = Some pk"
  | (conflict) r keys log owner where "submit_step K (t, pk) led =
        (Inr r, led\<lparr>pl_suspicious_keys := keys \<union> pl_suspicious_keys led, pl_submission_log := log\<rparr>)"
      "pk \<in> keys" "\<not> pr_accepted r" "pkg_signed K t" "map_of (pl_registry led) (pk_token_id t) = Some owner"
      "owner \<noteq> pk"
proof (cases "pkg_signed K t")
  case False
  then have "valid_issuer_signature K t \<noteq> Inr True"
    by (simp add: valid_issuer_signature_eq pkg_issuer_signature_True)
  show thesis
  proof (cases "valid_issuer_signature K t")
    case (Inl e)
    with unsigned [of "Inl e" "pl_submission_log led"] False show thesis
      by (simp add: submit_step_def submit_token_def was_accepted_def)
  next
    case (Inr b)
    with \<open>valid_issuer_signature K t \<noteq> Inr True\<close> have "\<not> b" by simp
    with Inr False show thesis
      by (intro unsigned) (simp_all add: submit_step_def submit_token_def log_result_def Let_def,
        simp add: was_accepted_def)
  qed
next
  case True
  then have v: "valid_issuer_signature K t = Inr True"
    by (simp add: valid_issuer_signature_eq pkg_issuer_signature_True)
  note defs = submit_step_def submit_token_def v log_result_def Let_def
  show thesis
  proof (cases "map_of (pl_registry led) (pk_token_id t)")
    case None
    with True show thesis by (intro first) (simp_all add: defs, simp)
  next
    case (Some owner)
    show thesis
    proof (cases "owner = pk")
      case same: True
      with True Some show thesis by (intro again) (simp_all add: defs, simp)
    next
      case False
      let ?h = "pk_transfer_history t"
      let ?keys = "insert pk (if 2 \<le> length ?h then {?h ! (length ?h - 2)} else {})"
      from False True Some show thesis
        by (intro conflict [where keys = ?keys and owner = owner]) (simp_all add: defs, simp)
    qed
  qed
qed

interpretation pkg_owner: first_owner "submit_step K" "\<lambda>sub. pk_token_id (fst sub)" snd was_accepted
  "\<lambda>led. map_of (pl_registry led)" "\<lambda>_ sub. pkg_signed K (fst sub)"
  for K
proof unfold_locales
  fix led :: pkg_ledger and sub :: pkg_submission and tid :: string
  obtain t pk where sub: "sub = (t, pk)" by (cases sub)
  note cs = submit_step_cases [of K t pk led]
  show "was_accepted (fst (submit_step K sub led)) \<longleftrightarrow> pkg_signed K (fst sub) \<and>
      map_of (pl_registry led) (pk_token_id (fst sub)) \<in> {None, Some (snd sub)}"
    unfolding sub by (cases rule: cs) (simp_all add: was_accepted_def)
  show "map_of (pl_registry (snd (submit_step K sub led))) tid =
      (if pkg_signed K (fst sub) \<and> map_of (pl_registry led) tid = None \<and> pk_token_id (fst sub) = tid
       then Some (snd sub) else map_of (pl_registry led) tid)"
    unfolding sub by (cases rule: cs) (auto simp: dict_get_update)
qed simp

section \<open>What the books hold\<close>

text \<open>\<open>firsts f xs\<close> is the first element of \<open>xs\<close> for every value of \<open>f\<close>: the abstract ledger.\<close>

fun firsts :: "('a \<Rightarrow> 'k) \<Rightarrow> 'a list \<Rightarrow> 'a list" where
  "firsts f [] = []"
| "firsts f (x # xs) = x # filter (\<lambda>y. f y \<noteq> f x) (firsts f xs)"

abbreviation submitted_id :: "pkg_submission \<Rightarrow> string" where
  "submitted_id sub \<equiv> pk_token_id (fst sub)"

definition books :: "pkg_ledger \<Rightarrow> pkg_submission list \<Rightarrow> bool" where
  "books led fs \<longleftrightarrow> distinct (map submitted_id fs) \<and>
     pl_registry led = map (\<lambda>sub. (submitted_id sub, snd sub)) fs \<and>
     pl_token_values led = map (\<lambda>sub. (submitted_id sub, pk_denomination (fst sub))) fs \<and>
     pl_accepted_tokens led = map (\<lambda>sub. (submitted_id sub, fst sub)) fs"

lemma books_step:
  assumes "books led fs"
  shows "books (snd (submit_step K sub led))
    (if pkg_signed K (fst sub) \<and> submitted_id sub \<notin> submitted_id ` set fs then fs @ [sub] else fs)"
proof -
  obtain t pk where sub: "sub = (t, pk)" by (cases sub)
  have keys: "map_of (pl_registry led) k = None \<longleftrightarrow> k \<notin> submitted_id ` set fs" for k
    using assms by (simp add: books_def map_of_eq_None_iff image_image)
  show ?thesis
  proof (cases rule: submit_step_cases [of K t pk led])
    case (first r log)
    then have "pk_token_id t \<notin> submitted_id ` set fs" by (simp add: keys)
    with assms first sub show ?thesis by (simp add: books_def dict_update_new image_image)
  next
    case (again r log)
    then have "pk_token_id t \<in> submitted_id ` set fs" using keys [of "pk_token_id t"] by simp
    with assms again sub show ?thesis by (simp add: books_def)
  next
    case (conflict r ks log owner)
    then have "pk_token_id t \<in> submitted_id ` set fs" using keys [of "pk_token_id t"] by simp
    with assms conflict sub show ?thesis by (simp add: books_def)
  qed (use assms sub in \<open>simp add: books_def\<close>)
qed

lemma books_run:
  "books led fs \<Longrightarrow> books (snd (submit_all (submit_step K) subs led))
     (fs @ filter (\<lambda>sub. submitted_id sub \<notin> submitted_id ` set fs)
        (firsts submitted_id (filter (\<lambda>sub. pkg_signed K (fst sub)) subs)))"
proof (induction subs arbitrary: led fs)
  case (Cons sub subs)
  note step = Cons.IH [OF books_step [OF Cons.prems, of K sub]]
  show ?case
  proof (cases "pkg_signed K (fst sub)")
    case True
    have skip: "(submitted_id y \<noteq> k \<and> submitted_id y \<notin> S) = (submitted_id y \<notin> insert k S)" for y k S
      by simp
    from step True show ?thesis
      by (cases "submitted_id sub \<in> submitted_id ` set fs") (simp_all add: skip insert_absorb del: insert_iff)
  qed (use step in simp)
qed simp

lemma books_balance:
  assumes "books led fs"
  shows "pl_get_balance pk led = Inr (sum_list (map (\<lambda>sub. pk_denomination (fst sub)) (filter (\<lambda>sub. snd sub = pk) fs)))"
proof -
  have "map_res (\<lambda>(tid, _). of_option (KeyError tid) (map_of (pl_token_values led) tid))
      (map (\<lambda>sub. (submitted_id sub, snd sub)) ss) = Inr (map (\<lambda>sub. pk_denomination (fst sub)) ss)"
    if "set ss \<subseteq> set fs" for ss
    using that
  proof (induction ss)
    case (Cons sub ss)
    then have "map_of (pl_token_values led) (submitted_id sub) = Some (pk_denomination (fst sub))"
      using assms by (intro map_of_is_SomeI) (auto simp: books_def comp_def)
    with Cons show ?case by simp
  qed simp
  from this [of "filter (\<lambda>sub. snd sub = pk) fs"] assms show ?thesis
    by (simp add: pl_get_balance_def books_def filter_map comp_def)
qed

lemma suspicious_mono:
  "pl_suspicious_keys led \<subseteq> pl_suspicious_keys (snd (submit_all (submit_step K) subs led))"
proof (induction subs arbitrary: led)
  case (Cons sub subs)
  obtain t pk where sub: "sub = (t, pk)" by (cases sub)
  have "pl_suspicious_keys led \<subseteq> pl_suspicious_keys (snd (submit_step K sub led))"
    unfolding sub by (cases rule: submit_step_cases [of K t pk led]) auto
  with Cons.IH show ?case by (simp, blast)
qed simp

lemma losers_flagged:
  "i < length subs \<Longrightarrow> pkg_signed K (fst (subs ! i)) \<Longrightarrow>
     \<not> was_accepted (fst (submit_all (submit_step K) subs led) ! i) \<Longrightarrow>
     snd (subs ! i) \<in> pl_suspicious_keys (snd (submit_all (submit_step K) subs led))"
proof (induction subs arbitrary: led i)
  case (Cons sub subs)
  obtain t pk where sub: "sub = (t, pk)" by (cases sub)
  show ?case
  proof (cases i)
    case 0
    with Cons.prems have "pk \<in> pl_suspicious_keys (snd (submit_step K sub led))"
      unfolding sub by (cases rule: submit_step_cases [of K t pk led]) (auto simp: was_accepted_def)
    with suspicious_mono 0 sub show ?thesis by (simp, blast)
  next
    case (Suc n)
    with Cons show ?thesis by simp
  qed
qed simp

section \<open>Properties\<close>

text \<open>
  C32: Whatever is submitted to a new ledger, in any order: it holds the first submission with a valid
  issuer's signature of every token and nothing else; the balance of a key never raises and is the
  sum of the tokens it was the first to submit; a submission is accepted if and only if its
  signature is valid and the token belongs to its submitter; and whoever submits, with a valid
  signature, a token that belongs to somebody else is flagged (a copy whose signature is invalid
  is rejected without flagging its submitter).
\<close>
theorem pkg_ledger_first_claim:
  fixes K :: dpc_crypto and subs :: "pkg_submission list"
  defines "outs \<equiv> fst (submit_all (submit_step K) subs new_pkg_ledger)"
    and "led \<equiv> snd (submit_all (submit_step K) subs new_pkg_ledger)"
    and "valid \<equiv> (\<lambda>sub. valid_issuer_signature K (fst sub) = Inr True)"
  shows "pl_accepted_tokens led = map (\<lambda>(t, pk). (pk_token_id t, t))
       (firsts (\<lambda>sub. pk_token_id (fst sub)) (filter valid subs)) \<and>
     pl_registry led = map (\<lambda>(t, pk). (pk_token_id t, pk))
       (firsts (\<lambda>sub. pk_token_id (fst sub)) (filter valid subs)) \<and>
     (\<forall>pk. pl_get_balance pk led = Inr (sum_list (map (\<lambda>sub. pk_denomination (fst sub)) (filter (\<lambda>sub. snd sub = pk)
       (firsts (\<lambda>sub. pk_token_id (fst sub)) (filter valid subs)))))) \<and>
     (\<forall>i < length subs.
       (was_accepted (outs ! i) \<longleftrightarrow> valid (subs ! i) \<and>
          map_of (pl_registry led) (pk_token_id (fst (subs ! i))) = Some (snd (subs ! i))) \<and>
       (valid (subs ! i) \<longrightarrow> \<not> was_accepted (outs ! i) \<longrightarrow> is_flagged (snd (subs ! i)) led))"
proof -
  have valid: "valid = (\<lambda>sub. pkg_signed K (fst sub))"
    by (simp add: valid_def valid_issuer_signature_eq pkg_issuer_signature_True)
  have books: "books led (firsts submitted_id (filter valid subs))"
    using books_run [of new_pkg_ledger "[]" K subs] unfolding valid led_def by (simp add: books_def new_pkg_ledger_def)
  have "was_accepted (outs ! i) \<longleftrightarrow> valid (subs ! i) \<and>
      map_of (pl_registry led) (pk_token_id (fst (subs ! i))) = Some (snd (subs ! i))" if "i < length subs" for i
    using pkg_owner.run_ok [OF that] unfolding outs_def led_def valid pkg_owner.owner_run by simp
  moreover have "is_flagged (snd (subs ! i)) led"
    if "i < length subs" "valid (subs ! i)" "\<not> was_accepted (outs ! i)" for i
    using losers_flagged that unfolding is_flagged_def outs_def led_def valid by blast
  ultimately show ?thesis
    using books_balance [OF books] books by (simp add: books_def split_beta)
qed

lemma pkg_ledger_first_claim_witness:
  "\<exists>t led. valid_issuer_signature toy_crypto t = Inr True \<and> pk_denomination t = 6400 \<and>
     led = snd (submit_all (submit_step toy_crypto) [(t, ''a''), (t, ''b''), (t, ''a'')] new_pkg_ledger) \<and>
     pl_registry led = [(''t1'', ''a'')] \<and> pl_get_balance ''a'' led = Inr 6400 \<and> is_flagged ''b'' led"
proof -
  obtain w t where "pkg_issue_token toy_crypto ''t1'' 640 6400 w = Inr (t, with_tokens [(''t1'', t)] w)"
    and t: "pkg_token_ok toy_crypto (to_hex (replicate 32 2)) ''t1'' t" "pk_denomination t = 6400"
    by (rule demo_pkg_wallet)
  have valid: "valid_issuer_signature toy_crypto t = Inr True"
    using t(1) by (simp add: valid_issuer_signature_eq pkg_issuer_signature_True pkg_token_ok_def)
  let ?subs = "[(t, ''a''), (t, ''b''), (t, ''a'')]"
  let ?led = "snd (submit_all (submit_step toy_crypto) ?subs new_pkg_ledger)"
  note claim = pkg_ledger_first_claim [of toy_crypto ?subs]
  have "pl_registry ?led = [(''t1'', ''a'')]" using claim valid t(1) by (simp add: pkg_token_ok_def)
  moreover have "pl_get_balance ''a'' ?led = Inr 6400" using claim valid t by (simp add: pkg_token_ok_def)
  moreover have "is_flagged ''b'' ?led"
  proof -
    have "\<forall>i < 3. (was_accepted (fst (submit_all (submit_step toy_crypto) ?subs new_pkg_ledger) ! i) \<longleftrightarrow>
          map_of (pl_registry ?led) (pk_token_id t) = Some (snd (?subs ! i))) \<and>
        (\<not> was_accepted (fst (submit_all (submit_step toy_crypto) ?subs new_pkg_ledger) ! i) \<longrightarrow>
          is_flagged (snd (?subs ! i)) ?led)"
      using claim valid by (auto simp: less_Suc_eq numeral_3_eq_3)
    from this [rule_format, of 1] calculation(1) t(1) show ?thesis by (simp add: pkg_token_ok_def)
  qed
  ultimately show ?thesis using valid t(2) by blast
qed

end
