(* ===== verification/PkgChannel.thy ===== *)
theory PkgChannel
  imports PkgWallet
begin

text \<open>
  \<open>ble_sim.py\<close> of \<open>src/dpc_poc/dpc\<close>: the simulated link between two wallets, the payment and the swap
  that run over it. The wallets of a run are a store indexed by addresses, so that a payment to
  oneself is the code's payment to the same object. The lemmas show that a link delivers what it is given,
  that an honest payment arrives, and that neither payments nor swaps make money or lose any when they succeed.
\<close>

section \<open>The link\<close>

text \<open>The two wallets of the object are only read by its constructor and have no field here.\<close>

record pkg_channel =
  pc_encrypt :: bool
  pc_previous_packet_size :: "nat option"
  pc_session_key :: "bytes option"
  pc_session_nonce_12 :: "bytes option"

text \<open>\<open>nonce_12\<close> is \<open>os.urandom(12)\<close>.\<close>

definition new_pkg_channel :: "dpc_crypto \<Rightarrow> bytes \<Rightarrow> pkg_wallet \<Rightarrow> pkg_wallet \<Rightarrow> bool \<Rightarrow> pkg_channel res" where
  "new_pkg_channel K nonce_12 wallet_a wallet_b encrypt =
     (if \<not> encrypt
      then Inr \<lparr>pc_encrypt = False, pc_previous_packet_size = None, pc_session_key = None,
        pc_session_nonce_12 = None\<rparr>
      else
        bind_res (hex_to_pubkey_bytes (pw_pubkey_hex wallet_b)) (\<lambda>pk.
        bind_res (pkg_derive_session_key K (pw_private_key_bytes wallet_a) pk nonce_12) (\<lambda>key.
        Inr \<lparr>pc_encrypt = True, pc_previous_packet_size = None, pc_session_key = Some key,
          pc_session_nonce_12 = Some nonce_12\<rparr>)))"

datatype packet = PBytes bytes | PStr string | PJson json

fun packet_bytes :: "packet \<Rightarrow> bytes" where
  "packet_bytes (PBytes b) = b"
| "packet_bytes (PStr s) = utf8_encode s"
| "packet_bytes (PJson j) = utf8_encode (dumps j)"

text \<open>The line \<open>transmit\<close> prints.\<close>

definition transmit_line :: "string \<Rightarrow> string \<Rightarrow> nat \<Rightarrow> nat option \<Rightarrow> string" where
  "transmit_line sender_name receiver_name current_size previous =
     (let growth = (case previous of
            None \<Rightarrow> '' | Base Packet Size''
          | Some last_size \<Rightarrow>
              if last_size < current_size
              then '' | Linear Increase Constant: +'' @ dec_nat (current_size - last_size) @ '' bytes'' else [])
      in ''[BLE] '' @ sender_name @ ''->'' @ receiver_name @ '' | '' @ dec_nat current_size @
           '' bytes transmitted'' @ growth)"

definition transmit :: "dpc_crypto \<Rightarrow> packet \<Rightarrow> pkg_channel \<Rightarrow> bytes res \<times> pkg_channel" where
  "transmit K packet_data ch =
     (let b = packet_bytes packet_data;
          ch1 = ch\<lparr>pc_previous_packet_size := Some (length b)\<rparr>
      in (if \<not> pc_encrypt ch then Inr b
          else case (pc_session_key ch, pc_session_nonce_12 ch) of
            (Some key, Some nonce_12) \<Rightarrow>
              bind_res (chacha20_poly1305_encrypt K key nonce_12 b) (chacha20_poly1305_decrypt K key nonce_12)
          | _ \<Rightarrow> Inl (RuntimeError ''Session key not initialized''),
          ch1))"

section \<open>Payment and swap\<close>

definition payment_payload :: "pkg_transfer \<Rightarrow> pkg_token \<Rightarrow> bytes" where
  "payment_payload r t =
     utf8_encode (dumps (JObj [(''record'', JObj (pkg_transfer_dict r)), (''token'', JObj (pkg_token_dict t))]))"

definition read_payment :: "bytes \<Rightarrow> (pkg_transfer \<times> pkg_token) res" where
  "read_payment payload =
     bind_res (of_option (ValueError ''UnicodeDecodeError'') (utf8_decode payload)) (\<lambda>text.
     bind_res (bind_res (parse_json text) json_obj) (\<lambda>data.
     bind_res (bind_res (json_field ''record'' data) pkg_transfer_of_kwargs) (\<lambda>r.
     bind_res (bind_res (json_field ''token'' data) pkg_token_of_kwargs) (\<lambda>t. Inr (r, t)))))"

record pkg_world =
  wd_wallets :: "nat \<Rightarrow> pkg_wallet"
  wd_channel :: pkg_channel

definition set_wallet :: "nat \<Rightarrow> pkg_wallet \<Rightarrow> pkg_world \<Rightarrow> pkg_world" where
  "set_wallet a w st = st\<lparr>wd_wallets := (wd_wallets st)(a := w)\<rparr>"

text \<open>
  \<open>now\<close> and \<open>nonce_hex\<close> are the fresh values of \<open>build_transfer\<close>. Everything the sender did
  stays done when a later step raises.
\<close>

definition pkg_execute_transfer ::
  "dpc_crypto \<Rightarrow> fl \<Rightarrow> string \<Rightarrow> nat \<Rightarrow> nat \<Rightarrow> string \<Rightarrow> fl \<Rightarrow> pkg_world \<Rightarrow>
     (pkg_transfer \<times> pkg_token) res \<times> pkg_world" where
  "pkg_execute_transfer K now nonce_hex sender recipient token_id amount st =
     (case pkg_send_token K now nonce_hex token_id (pw_pubkey_hex (wd_wallets st recipient)) amount
             (wd_wallets st sender) of
        (Inl e, w) \<Rightarrow> (Inl e, set_wallet sender w st)
      | (Inr (record, new_token), w) \<Rightarrow>
          let st1 = set_wallet sender w st;
              (delivered, ch) = transmit K (PBytes (payment_payload record new_token)) (wd_channel st1);
              st2 = st1\<lparr>wd_channel := ch\<rparr>
          in (case bind_res delivered read_payment of
                Inl e \<Rightarrow> (Inl e, st2)
              | Inr (received_record, received_token) \<Rightarrow>
                  (case pkg_receive_token K received_token received_record (wd_wallets st2 recipient) of
                     Inl e \<Rightarrow> (Inl e, st2)
                   | Inr w' \<Rightarrow> (Inr (received_record, received_token), set_wallet recipient w' st2))))"

text \<open>\<open>fresh\<close> holds clock reading and nonce of the two payments.\<close>

definition execute_swap ::
  "dpc_crypto \<Rightarrow> (fl \<times> string) \<times> (fl \<times> string) \<Rightarrow> nat \<Rightarrow> nat \<Rightarrow> string \<Rightarrow> fl \<Rightarrow> pkg_world \<Rightarrow>
     unit res \<times> pkg_world" where
  "execute_swap K fresh payer payee payer_token_id owed_amount st =
     (case map_of (pw_tokens (wd_wallets st payer)) payer_token_id of
        None \<Rightarrow> (Inl (KeyError payer_token_id), st)
      | Some payer_token \<Rightarrow>
          let change_amount = pk_denomination payer_token - owed_amount;
              change_token = get_token_for_swap change_amount (wd_wallets st payee)
          in if change_amount < 0 then (Inl (ValueError ''Insufficient token value''), st)
             else if 0 < change_amount \<and> change_token = None
             then (Inl (ValueError ''Insufficient change tokens for swap''), st)
             else
               (case pkg_execute_transfer K (fst (fst fresh)) (snd (fst fresh)) payer payee payer_token_id
                       (pk_denomination payer_token) st of
                  (Inl e, st1) \<Rightarrow> (Inl e, st1)
                | (Inr _, st1) \<Rightarrow>
                    (case change_token of
                       Some c \<Rightarrow>
                         if 0 < change_amount
                         then map_prod (map_sum (\<lambda>e. e) (\<lambda>_. ()))  (\<lambda>s. s)
                           (pkg_execute_transfer K (fst (snd fresh)) (snd (snd fresh)) payee payer
                              (pk_token_id c) (pk_denomination c) st1)
                         else (Inr (), st1)
                     | None \<Rightarrow> (Inr (), st1))))"

section \<open>The link delivers\<close>

definition channel_ok :: "pkg_channel \<Rightarrow> bool" where
  "channel_ok ch \<longleftrightarrow> pc_encrypt ch \<longrightarrow>
     (\<exists>key nonce_12. pc_session_key ch = Some key \<and> length key = 32 \<and>
        pc_session_nonce_12 ch = Some nonce_12 \<and> length nonce_12 = 12)"

lemma new_pkg_channel_ok:
  assumes "dpc_crypto_ok K" and "length nonce_12 = 12" and "new_pkg_channel K nonce_12 a b e = Inr ch"
  shows "channel_ok ch" and "pc_previous_packet_size ch = None"
  using assms
  by (auto simp: new_pkg_channel_def channel_ok_def pkg_derive_session_key_def bind_res_Inr_iff dpc_crypto_ok_def
      split: if_splits)

lemma transmit_delivers:
  assumes "dpc_crypto_ok K" and "channel_ok ch"
  shows "transmit K p ch = (Inr (packet_bytes p), ch\<lparr>pc_previous_packet_size := Some (length (packet_bytes p))\<rparr>)"
proof (cases "pc_encrypt ch")
  case True
  then obtain key nonce_12 where ch: "pc_session_key ch = Some key" "length key = 32"
    "pc_session_nonce_12 ch = Some nonce_12" "length nonce_12 = 12" using assms(2) by (auto simp: channel_ok_def)
  with assms(1) obtain c where "dc_encrypt K key nonce_12 (packet_bytes p) = Some c"
    "dc_decrypt K key nonce_12 c = Some (packet_bytes p)" unfolding dpc_crypto_ok_def by blast
  with True ch show ?thesis
    by (simp add: transmit_def Let_def chacha20_poly1305_encrypt_def chacha20_poly1305_decrypt_def)
qed (simp add: transmit_def Let_def)

lemma channel_ok_size [simp]: "channel_ok (ch\<lparr>pc_previous_packet_size := n\<rparr>) = channel_ok ch"
  by (simp add: channel_ok_def)

lemma read_payment_payload [simp]: "read_payment (payment_payload r t) = Inr (r, t)"
proof -
  let ?j = "JObj [(''record'', JObj (pkg_transfer_dict r)), (''token'', JObj (pkg_token_dict t))]"
  have "json_wf (JObj [(''record'', x), (''token'', y)])" if "json_wf x" "json_wf y" for x y
    using that by simp
  then have "parse_json (dumps ?j) = Inr ?j"
    by (simp only: parse_json_def json_roundtrip pkg_transfer_json(2) pkg_token_json(2) of_option_simps)
  then show ?thesis
    unfolding read_payment_def payment_payload_def utf8_roundtrip of_option_simps bind_res.simps
    by (simp add: json_field_def pkg_transfer_json(1) pkg_token_json(1) del: dumps.simps)
qed

section \<open>What a payment does\<close>

lemma set_wallet_simps [simp]:
  "wd_wallets (set_wallet a w st) = (wd_wallets st)(a := w)" "wd_channel (set_wallet a w st) = wd_channel st"
  by (simp_all add: set_wallet_def)

text \<open>A payment is a successful \<open>send_token\<close> and a successful \<open>receive_token\<close> of what was sent.\<close>

lemma execute_Inr:
  assumes "dpc_crypto_ok K" and "channel_ok (wd_channel st)"
  shows "pkg_execute_transfer K now n s r tid amount st = (Inr (rec, t), st') \<longleftrightarrow>
    (\<exists>w w'. pkg_send_token K now n tid (pw_pubkey_hex (wd_wallets st r)) amount (wd_wallets st s) = (Inr (rec, t), w) \<and>
       pkg_receive_token K t rec (((wd_wallets st)(s := w)) r) = Inr w' \<and>
       st' = \<lparr>wd_wallets = (wd_wallets st)(s := w, r := w'),
         wd_channel = (wd_channel st)\<lparr>pc_previous_packet_size := Some (length (payment_payload rec t))\<rparr>\<rparr>)"
proof -
  obtain out w where send: "pkg_send_token K now n tid (pw_pubkey_hex (wd_wallets st r)) amount (wd_wallets st s) = (out, w)"
    by (cases "pkg_send_token K now n tid (pw_pubkey_hex (wd_wallets st r)) amount (wd_wallets st s)")
  show ?thesis
  proof (cases out)
    case (Inl e)
    with send show ?thesis by (simp add: pkg_execute_transfer_def)
  next
    case (Inr p)
    obtain rec' t' where p: "p = (rec', t')" by (cases p)
    show ?thesis
      unfolding pkg_execute_transfer_def send Inr p
      by (cases "pkg_receive_token K t' rec' (((wd_wallets st)(s := w)) r)")
        (auto simp: transmit_delivers [OF assms] Let_def set_wallet_def)
  qed
qed

text \<open>The wallets the operations can reach from a new one.\<close>

definition pkg_reachable :: "dpc_crypto \<Rightarrow> pkg_wallet \<Rightarrow> bool" where
  "pkg_reachable K w \<longleftrightarrow> (\<exists>seed now policy w0. length seed = 32 \<and> new_pkg_wallet K seed now policy = Inr w0 \<and>
     (pkg_step K)\<^sup>*\<^sup>* w0 w)"

lemma pkg_reachable_ok:
  assumes "ed_ok (dc_ed25519 K)" and "pkg_reachable K w"
  shows "pkg_inv K w" and "pkg_keypair K (pw_private_key_bytes w) (pw_pubkey_hex w)"
proof -
  from assms(2) obtain seed now policy w0 where w0: "length seed = 32" "new_pkg_wallet K seed now policy = Inr w0"
    "(pkg_step K)\<^sup>*\<^sup>* w0 w" unfolding pkg_reachable_def by blast
  obtain w' where "new_pkg_wallet K seed now policy = Inr w'" "pkg_inv K w'"
    "pkg_keypair K (pw_private_key_bytes w') (pw_pubkey_hex w')"
    by (rule new_pkg_wallet_ok [OF assms(1) w0(1)])
  with pkg_run_inv [OF w0(3)] assms(1) w0(2)
  show "pkg_inv K w" "pkg_keypair K (pw_private_key_bytes w) (pw_pubkey_hex w)" by auto
qed

lemma pkg_reachable_step: "pkg_reachable K w \<Longrightarrow> pkg_step K w w' \<Longrightarrow> pkg_reachable K w'"
  unfolding pkg_reachable_def by (meson rtranclp.rtrancl_into_rtrancl)

text \<open>Two different wallets that hold different tokens, on a working link.\<close>

definition pair_ok :: "dpc_crypto \<Rightarrow> nat \<Rightarrow> nat \<Rightarrow> pkg_world \<Rightarrow> bool" where
  "pair_ok K a b st \<longleftrightarrow> a \<noteq> b \<and> channel_ok (wd_channel st) \<and>
     pkg_reachable K (wd_wallets st a) \<and> pkg_reachable K (wd_wallets st b) \<and>
     dict_keys (pw_tokens (wd_wallets st a)) \<inter> dict_keys (pw_tokens (wd_wallets st b)) = {}"

lemma pair_ok_sym: "pair_ok K a b st = pair_ok K b a st"
  by (auto simp: pair_ok_def)

lemma execute_effect:
  assumes "dpc_crypto_ok K" and "pair_ok K s r st"
    and "pkg_execute_transfer K now n s r tid amount st = (Inr (rec, t), st')"
  obtains t0 where "map_of (pw_tokens (wd_wallets st s)) tid = Some t0" "pk_denomination t = pk_denomination t0"
    "pair_ok K s r st'"
    "pw_tokens (wd_wallets st' s) = AList.delete tid (pw_tokens (wd_wallets st s))"
    "pw_tokens (wd_wallets st' r) = pw_tokens (wd_wallets st r) @ [(tid, check_lifecycle_reset t (pw_pubkey_hex (wd_wallets st r)))]"
    "\<And>x. x \<noteq> s \<Longrightarrow> x \<noteq> r \<Longrightarrow> wd_wallets st' x = wd_wallets st x"
proof -
  let ?s = "wd_wallets st s" and ?r = "wd_wallets st r"
  from assms(2) have ok: "s \<noteq> r" "channel_ok (wd_channel st)" "pkg_reachable K ?s" "pkg_reachable K ?r"
    and apart: "dict_keys (pw_tokens ?s) \<inter> dict_keys (pw_tokens ?r) = {}" by (simp_all add: pair_ok_def)
  have ed: "ed_ok (dc_ed25519 K)" using assms(1) by (simp add: dpc_crypto_ok_def)
  obtain w w' where send: "pkg_send_token K now n tid (pw_pubkey_hex ?r) amount ?s = (Inr (rec, t), w)"
    and receive: "pkg_receive_token K t rec ?r = Inr w'"
    and st': "wd_wallets st' = (wd_wallets st)(s := w, r := w')" "channel_ok (wd_channel st')"
    using assms(3) ok(1,2) unfolding execute_Inr [OF assms(1) ok(2)] by auto
  note reach = pkg_reachable_step [OF ok(3) pkg_step.send [OF send]]
    pkg_reachable_step [OF ok(4) pkg_step.receive [OF receive]]
  obtain t0 where t0: "map_of (pw_tokens ?s) tid = Some t0"
    and w: "pw_tokens w = AList.delete tid (pw_tokens ?s)"
    and t: "t = handed_over (pw_pubkey_hex ?r) (px_chain_hash rec) (check_lifecycle_reset t0 (pw_pubkey_hex ?s))"
    using send
    by (cases rule: pkg_send_cases [of K now n tid "pw_pubkey_hex ?r" amount ?s])
      (auto dest: build_transfer_Inr(2) simp: delete_update_same)
  have inv: "pkg_token_ok K (pw_pubkey_hex ?s) tid t0"
    using pkg_inv_entry [OF pkg_reachable_ok(1) [OF ed ok(3)] t0] .
  then have tid: "pk_token_id t = tid" by (simp add: t handed_over_def pkg_token_ok_def)
  have held: "tid \<in> dict_keys (pw_tokens ?s)" using t0 by (force dest: map_of_SomeD)
  with apart have new: "tid \<notin> dict_keys (pw_tokens ?r)" by blast
  then have w': "pw_tokens w' = pw_tokens ?r @ [(tid, check_lifecycle_reset t (pw_pubkey_hex ?r))]"
    using receive by (auto simp: pkg_receive_Inr received_def tid dict_update_new)
  have "dict_keys (pw_tokens w) \<inter> dict_keys (pw_tokens w') = {}"
    using apart unfolding w w' by (auto dest!: dict_in_delete)
  with ok st' reach have "pair_ok K s r st'" by (simp add: pair_ok_def)
  moreover have "pk_denomination t = pk_denomination t0" by (simp add: t handed_over_def)
  ultimately show thesis
    by (intro that [OF t0]) (use w w' st' ok(1) in simp_all)
qed

lemma execute_owner:
  assumes "dpc_crypto_ok K" and "pair_ok K s r st"
    and "pkg_execute_transfer K now n s r tid amount st = (Inr (rec, t), st')"
  shows "pk_owner_pubkey_hex t = pw_pubkey_hex (wd_wallets st r)"
    and "pw_pubkey_hex (wd_wallets st' x) = pw_pubkey_hex (wd_wallets st x)"
proof -
  let ?s = "wd_wallets st s" and ?r = "wd_wallets st r"
  from assms(2) have ok: "s \<noteq> r" "channel_ok (wd_channel st)" by (simp_all add: pair_ok_def)
  obtain w w' where send: "pkg_send_token K now n tid (pw_pubkey_hex ?r) amount ?s = (Inr (rec, t), w)"
    and receive: "pkg_receive_token K t rec ?r = Inr w'"
    and st': "wd_wallets st' = (wd_wallets st)(s := w, r := w')"
    using assms(3) ok unfolding execute_Inr [OF assms(1) ok(2)] by auto
  show "pk_owner_pubkey_hex t = pw_pubkey_hex ?r"
    using send
    by (cases rule: pkg_send_cases [of K now n tid "pw_pubkey_hex ?r" amount ?s])
      (auto dest!: build_transfer_Inr(2) simp: handed_over_def)
  show "pw_pubkey_hex (wd_wallets st' x) = pw_pubkey_hex (wd_wallets st x)"
    using pkg_step_keys(1) [OF pkg_step.send [OF send]] pkg_step_keys(1) [OF pkg_step.receive [OF receive]]
    by (simp add: st')
qed

lemma execute_balance:
  assumes "dpc_crypto_ok K" and "pair_ok K s r st"
    and "pkg_execute_transfer K now n s r tid amount st = (Inr (rec, t), st')"
    and "map_of (pw_tokens (wd_wallets st s)) tid = Some t0"
  shows "pkg_balance (wd_wallets st' s) = pkg_balance (wd_wallets st s) - pk_denomination t0"
    and "pkg_balance (wd_wallets st' r) = pkg_balance (wd_wallets st r) + pk_denomination t0"
proof -
  have "ed_ok (dc_ed25519 K)" "pkg_reachable K (wd_wallets st s)"
    using assms(1,2) by (simp_all add: dpc_crypto_ok_def pair_ok_def)
  from pkg_reachable_ok(1) [OF this] have wf: "dict_wf (pw_tokens (wd_wallets st s))" by (simp add: pkg_inv_def)
  from execute_effect [OF assms(1-3)] assms(4) have e: "pk_denomination t = pk_denomination t0"
    "pw_tokens (wd_wallets st' s) = AList.delete tid (pw_tokens (wd_wallets st s))"
    "pw_tokens (wd_wallets st' r) = pw_tokens (wd_wallets st r) @
       [(tid, check_lifecycle_reset t (pw_pubkey_hex (wd_wallets st r)))]" by auto
  show "pkg_balance (wd_wallets st' s) = pkg_balance (wd_wallets st s) - pk_denomination t0"
    unfolding pkg_balance_def e(2) using assms(4) by (simp add: dict_total_delete [OF wf])
  show "pkg_balance (wd_wallets st' r) = pkg_balance (wd_wallets st r) + pk_denomination t0"
    unfolding pkg_balance_def e(3) by (simp add: dict_total_def e(1))
qed

text \<open>The state after a payment that went through.\<close>

definition paid :: "nat \<Rightarrow> nat \<Rightarrow> string \<Rightarrow> string \<Rightarrow> pkg_transfer \<Rightarrow> pkg_token \<Rightarrow> pkg_world \<Rightarrow> pkg_world" where
  "paid s r tid nonce_hex rec t st =
     \<lparr>wd_wallets = (wd_wallets st)
        (s := with_nonce (tid, nonce_hex) (with_tokens (AList.delete tid (pw_tokens (wd_wallets st s))) (wd_wallets st s)),
         r := received t rec (wd_wallets st r)),
      wd_channel = (wd_channel st)\<lparr>pc_previous_packet_size := Some (length (payment_payload rec t))\<rparr>\<rparr>"

lemma honest_payment:
  assumes "dpc_crypto_ok K" and "pair_ok K payer payee st"
    and "map_of (pw_tokens (wd_wallets st payer)) tid = Some t"
    and "transferable now (pw_pubkey_hex (wd_wallets st payer)) amount (ps_policy (pw_state (wd_wallets st payer)))
      (check_lifecycle_reset t (pw_pubkey_hex (wd_wallets st payer)))"
    and "from_hex (pk_chain_hash t) \<noteq> None" and "length (pk_transfer_history t) = 1 \<longrightarrow> pk_chain_hash t = []"
    and "from_hex nonce_hex \<noteq> None" and "(tid, nonce_hex) \<notin> pw_nonces (wd_wallets st payee)"
    and "pkg_balance (wd_wallets st payee) + pk_denomination t
      \<le> pp_max_wallet_balance_etb (ps_policy (pw_state (wd_wallets st payee)))"
  shows "\<exists>rec h. pkg_execute_transfer K now nonce_hex payer payee tid amount st =
      (Inr (rec, handed_over (pw_pubkey_hex (wd_wallets st payee)) h
         (check_lifecycle_reset t (pw_pubkey_hex (wd_wallets st payer)))), paid payer payee tid nonce_hex rec
         (handed_over (pw_pubkey_hex (wd_wallets st payee)) h
         (check_lifecycle_reset t (pw_pubkey_hex (wd_wallets st payer)))) st) \<and> px_amount rec = amount"
proof -
  let ?s = "wd_wallets st payer" and ?r = "wd_wallets st payee"
  let ?t = "check_lifecycle_reset t (pw_pubkey_hex ?s)"
  have ed: "ed_ok (dc_ed25519 K)" and ne: "payer \<noteq> payee" and ch: "channel_ok (wd_channel st)"
    and reach: "pkg_reachable K ?s" "pkg_reachable K ?r"
    using assms(1,2) by (simp_all add: dpc_crypto_ok_def pair_ok_def)
  note s = pkg_reachable_ok [OF ed reach(1)] and r = pkg_reachable_ok [OF ed reach(2)]
  have hex: "from_hex (pk_chain_hash ?t) \<noteq> None" "length (pk_transfer_history ?t) = 1 \<longrightarrow> pk_chain_hash ?t = []"
    using assms(5,6) by (auto simp: check_lifecycle_reset_def)
  have "from_hex (pw_pubkey_hex ?r) \<noteq> None" using r(2) by (simp add: pkg_keypair_def)
  from build_transfer_verifies [OF ed s(2) assms(4) this assms(7) hex] obtain rec where
    rec: "build_transfer K now nonce_hex ?t (pw_private_key_bytes ?s) (pw_pubkey_hex ?s) (pw_pubkey_hex ?r) amount
      (ps_policy (pw_state ?s)) = Inr (rec, handed_over (pw_pubkey_hex ?r) (px_chain_hash rec) ?t)"
    and verified: "verify_transfer_chain K (handed_over (pw_pubkey_hex ?r) (px_chain_hash rec) ?t) rec = Inr True"
    by blast
  let ?t' = "handed_over (pw_pubkey_hex ?r) (px_chain_hash rec) ?t"
  have send: "pkg_send_token K now nonce_hex tid (pw_pubkey_hex ?r) amount ?s =
      (Inr (rec, ?t'), with_nonce (tid, nonce_hex) (with_tokens (AList.delete tid (pw_tokens ?s)) ?s))"
    using rec assms(3) build_transfer_Inr(7) [OF rec] by (simp add: pkg_send_token_def Let_def delete_update_same)
  have t: "pkg_signed K t" "pk_token_id t = tid"
    using pkg_inv_entry [OF s(1) assms(3)] by (simp_all add: pkg_token_ok_def)
  have "pkg_receive_token K ?t' rec ?r = Inr (received ?t' rec ?r)"
    using t verified assms(8,9) build_transfer_Inr(7) [OF rec] by (simp add: pkg_receive_Inr) (simp add: handed_over_def)
  with send ne have "pkg_execute_transfer K now nonce_hex payer payee tid amount st =
      (Inr (rec, ?t'), paid payer payee tid nonce_hex rec ?t' st)"
    unfolding execute_Inr [OF assms(1) ch] paid_def by auto
  with build_transfer_Inr(5) [OF rec] show ?thesis by blast
qed

text \<open>The two ways a swap returns: one payment, or one payment each way.\<close>

lemma execute_swap_cases:
  assumes "map_of (pw_tokens (wd_wallets st payer)) tid = Some t"
    and "execute_swap K fresh payer payee tid owed st = (Inr (), st')"
  obtains (exact) rec t1 where "pk_denomination t = owed"
    "pkg_execute_transfer K (fst (fst fresh)) (snd (fst fresh)) payer payee tid (pk_denomination t) st =
      (Inr (rec, t1), st')"
  | (change) rec t1 st1 c rec2 t2 where "owed < pk_denomination t"
    "get_token_for_swap (pk_denomination t - owed) (wd_wallets st payee) = Some c"
    "pkg_execute_transfer K (fst (fst fresh)) (snd (fst fresh)) payer payee tid (pk_denomination t) st =
      (Inr (rec, t1), st1)"
    "pkg_execute_transfer K (fst (snd fresh)) (snd (snd fresh)) payee payer (pk_token_id c) (pk_denomination c) st1 =
      (Inr (rec2, t2), st')"
proof -
  let ?due = "pk_denomination t - owed" and ?c = "get_token_for_swap (pk_denomination t - owed) (wd_wallets st payee)"
  obtain rec t1 st1 where due: "0 \<le> ?due" "0 < ?due \<longrightarrow> ?c \<noteq> None"
    and pay: "pkg_execute_transfer K (fst (fst fresh)) (snd (fst fresh)) payer payee tid (pk_denomination t) st =
      (Inr (rec, t1), st1)"
    and rest: "(case ?c of
         Some c \<Rightarrow> if 0 < ?due
           then map_prod (map_sum (\<lambda>e. e) (\<lambda>_. ())) (\<lambda>s. s) (pkg_execute_transfer K (fst (snd fresh)) (snd (snd fresh))
             payee payer (pk_token_id c) (pk_denomination c) st1)
           else (Inr (), st1)
       | None \<Rightarrow> (Inr (), st1)) = (Inr (), st')"
    using assms by (auto simp: execute_swap_def Let_def split: if_splits prod.splits sum.splits)
  show thesis
  proof (cases "?due = 0")
    case True
    with rest have "st' = st1" by (simp split: option.splits)
    with True pay exact show thesis by simp
  next
    case False
    with due(1) have "0 < ?due" by simp
    with due(2) obtain c where c: "?c = Some c" by blast
    obtain out w where out: "pkg_execute_transfer K (fst (snd fresh)) (snd (snd fresh)) payee payer (pk_token_id c)
        (pk_denomination c) st1 = (out, w)" by fastforce
    with rest c \<open>0 < ?due\<close> pay change [of c rec t1 st1] show thesis by (cases out) auto
  qed
qed

lemma pair_holds:
  assumes "dpc_crypto_ok K" and "pair_ok K a b st" and "c \<in> snd ` set (pw_tokens (wd_wallets st b))"
  shows "map_of (pw_tokens (wd_wallets st b)) (pk_token_id c) = Some c"
proof -
  have "ed_ok (dc_ed25519 K)" "pkg_reachable K (wd_wallets st b)"
    using assms(1,2) by (simp_all add: dpc_crypto_ok_def pair_ok_def)
  from pkg_reachable_ok(1) [OF this] have "dict_wf (pw_tokens (wd_wallets st b))"
    "\<forall>(k, t) \<in> set (pw_tokens (wd_wallets st b)). pk_token_id t = k"
    by (auto simp: pkg_inv_def pkg_token_ok_def)
  from dict_self_keyed(2) [OF this assms(3)] show ?thesis .
qed

lemma pair_apart:
  assumes "pair_ok K a b st" and "map_of (pw_tokens (wd_wallets st a)) x = Some t"
    and "map_of (pw_tokens (wd_wallets st b)) y = Some u"
  shows "x \<noteq> y"
proof -
  have "x \<in> dict_keys (pw_tokens (wd_wallets st a))" "y \<in> dict_keys (pw_tokens (wd_wallets st b))"
    using assms(2,3) by (force dest: map_of_SomeD)+
  moreover have "dict_keys (pw_tokens (wd_wallets st a)) \<inter> dict_keys (pw_tokens (wd_wallets st b)) = {}"
    using assms(1) by (simp add: pair_ok_def)
  ultimately show ?thesis by (metis disjoint_iff)
qed

section \<open>Properties\<close>

text \<open>
  C34: A swap conserves money. For two different wallets that share no token identifier, on a working
  link, with amounts computed exactly (multiples of 1/64, as they are modelled): when a swap
  returns, the payer's token has moved to the payee with its value, and nothing else has if it was
  exactly what was owed; otherwise one token of the payee has moved to the payer with its value, the
  smallest that is worth the change due or more. So the balances move by the same amount in
  opposite directions, all other tokens stay where they were, and the wallets still share none.
\<close>
theorem swap_conserves:
  assumes "dpc_crypto_ok K" and "pair_ok K payer payee st"
    and "map_of (pw_tokens (wd_wallets st payer)) tid = Some t"
    and "execute_swap K fresh payer payee tid owed st = (Inr (), st')"
  shows "\<exists>change v.
    pkg_balance (wd_wallets st' payer) = pkg_balance (wd_wallets st payer) - (pk_denomination t - change) \<and>
    pkg_balance (wd_wallets st' payee) = pkg_balance (wd_wallets st payee) + (pk_denomination t - change) \<and>
    owed \<le> pk_denomination t \<and> pair_ok K payer payee st' \<and>
    pk_denomination v = pk_denomination t \<and> pk_owner_pubkey_hex v = pw_pubkey_hex (wd_wallets st payee) \<and>
    (if pk_denomination t = owed
     then change = 0 \<and> pw_tokens (wd_wallets st' payer) = AList.delete tid (pw_tokens (wd_wallets st payer)) \<and>
       pw_tokens (wd_wallets st' payee) = pw_tokens (wd_wallets st payee) @ [(tid, v)]
     else \<exists>c v'. map_of (pw_tokens (wd_wallets st payee)) (pk_token_id c) = Some c \<and>
       change = pk_denomination c \<and> pk_denomination t - owed \<le> change \<and>
       (\<forall>d \<in> pk_denomination ` snd ` set (pw_tokens (wd_wallets st payee)). pk_denomination t - owed \<le> d \<longrightarrow> change \<le> d) \<and>
       pk_denomination v' = pk_denomination c \<and> pk_owner_pubkey_hex v' = pw_pubkey_hex (wd_wallets st payer) \<and>
       pw_tokens (wd_wallets st' payer) = AList.delete tid (pw_tokens (wd_wallets st payer)) @ [(pk_token_id c, v')] \<and>
       pw_tokens (wd_wallets st' payee) = AList.delete (pk_token_id c) (pw_tokens (wd_wallets st payee)) @ [(tid, v)])"
  using assms(3,4)
proof (cases rule: execute_swap_cases)
  case (exact rec t1)
  let ?v = "check_lifecycle_reset t1 (pw_pubkey_hex (wd_wallets st payee))"
  show ?thesis
    using exact(1) execute_effect [OF assms(1,2) exact(2)] execute_owner(1) [OF assms(1,2) exact(2)]
      execute_balance [OF assms(1,2) exact(2) assms(3)] assms(3)
    by (intro exI [of _ 0] exI [of _ ?v]) auto
next
  case (change rec t1 st1 c rec2 t2)
  let ?v = "check_lifecycle_reset t1 (pw_pubkey_hex (wd_wallets st payee))"
  obtain pair: "pair_ok K payee payer st1" and "pk_denomination t1 = pk_denomination t"
    and tokens1: "pw_tokens (wd_wallets st1 payer) = AList.delete tid (pw_tokens (wd_wallets st payer))"
      "pw_tokens (wd_wallets st1 payee) = pw_tokens (wd_wallets st payee) @ [(tid, ?v)]"
    using execute_effect [OF assms(1,2) change(3)] assms(3) pair_ok_sym by (metis option.inject)
  then have v: "pk_denomination ?v = pk_denomination t"
    "pk_owner_pubkey_hex ?v = pw_pubkey_hex (wd_wallets st payee)"
    using execute_owner(1) [OF assms(1,2) change(3)] by simp_all
  note smallest = get_token_for_swap_Some [OF change(2)]
  note held = pair_holds [OF assms(1,2) smallest(1)]
  have returned: "AList.delete (pk_token_id c) (pw_tokens (wd_wallets st1 payee)) =
      AList.delete (pk_token_id c) (pw_tokens (wd_wallets st payee)) @ [(tid, ?v)]"
    using pair_apart [OF assms(2,3) held] by (simp add: tokens1(2) AList.delete_eq)
  have held1: "map_of (pw_tokens (wd_wallets st1 payee)) (pk_token_id c) = Some c"
    using held by (simp add: tokens1(2) map_add_def)
  let ?v' = "check_lifecycle_reset t2 (pw_pubkey_hex (wd_wallets st1 payer))"
  obtain "pair_ok K payer payee st'" and "pk_denomination t2 = pk_denomination c"
    and "pw_tokens (wd_wallets st' payee) = AList.delete (pk_token_id c) (pw_tokens (wd_wallets st payee)) @ [(tid, ?v)]"
      "pw_tokens (wd_wallets st' payer) = AList.delete tid (pw_tokens (wd_wallets st payer)) @ [(pk_token_id c, ?v')]"
    using execute_effect [OF assms(1) pair change(4)] held1 returned tokens1(1) pair_ok_sym [of K payer payee st'] by auto
  moreover from this have "pk_denomination ?v' = pk_denomination c"
    "pk_owner_pubkey_hex ?v' = pw_pubkey_hex (wd_wallets st payer)"
    using execute_owner(1) [OF assms(1) pair change(4)] execute_owner(2) [OF assms(1,2) change(3)] by simp_all
  ultimately show ?thesis
    using execute_balance [OF assms(1,2) change(3) assms(3)] execute_balance [OF assms(1) pair change(4) held1]
      change(1) smallest held v
    by (intro exI [of _ "pk_denomination c"] exI [of _ ?v]) (simp; blast)
qed

text \<open>
  C35: An honest payment arrives: when payer and payee are different wallets that share no token
  identifier, on a working link, the payer holds a token that may be transferred and has a
  hexadecimal chain hash (empty while only one owner is in its history), the nonce is hexadecimal, and
  the payee has room for the token under its balance cap and has not seen the nonce with it, the payment
  returns, the token is gone from the payer and is now the payee's, and its value has moved.
\<close>
theorem payment_arrives:
  assumes "dpc_crypto_ok K" and "pair_ok K payer payee st"
    and "map_of (pw_tokens (wd_wallets st payer)) tid = Some t"
    and "transferable now (pw_pubkey_hex (wd_wallets st payer)) amount (ps_policy (pw_state (wd_wallets st payer)))
      (check_lifecycle_reset t (pw_pubkey_hex (wd_wallets st payer)))"
    and "from_hex (pk_chain_hash t) \<noteq> None" and "length (pk_transfer_history t) = 1 \<longrightarrow> pk_chain_hash t = []"
    and "from_hex nonce_hex \<noteq> None" and "(tid, nonce_hex) \<notin> pw_nonces (wd_wallets st payee)"
    and "pkg_balance (wd_wallets st payee) + pk_denomination t
      \<le> pp_max_wallet_balance_etb (ps_policy (pw_state (wd_wallets st payee)))"
  shows "\<exists>rec t' st'. pkg_execute_transfer K now nonce_hex payer payee tid amount st = (Inr (rec, t'), st') \<and>
    px_amount rec = amount \<and> tid \<notin> dict_keys (pw_tokens (wd_wallets st' payer)) \<and>
    (\<exists>t''. map_of (pw_tokens (wd_wallets st' payee)) tid = Some t'' \<and>
       pk_owner_pubkey_hex t'' = pw_pubkey_hex (wd_wallets st payee) \<and> pk_denomination t'' = pk_denomination t) \<and>
    pkg_balance (wd_wallets st' payer) = pkg_balance (wd_wallets st payer) - pk_denomination t \<and>
    pkg_balance (wd_wallets st' payee) = pkg_balance (wd_wallets st payee) + pk_denomination t"
proof -
  let ?s = "wd_wallets st payer" and ?r = "wd_wallets st payee"
  obtain rec h t' st' where run: "pkg_execute_transfer K now nonce_hex payer payee tid amount st = (Inr (rec, t'), st')"
    and t': "t' = handed_over (pw_pubkey_hex ?r) h (check_lifecycle_reset t (pw_pubkey_hex ?s))"
    and rec: "px_amount rec = amount" using honest_payment [OF assms] by blast
  obtain "pw_tokens (wd_wallets st' payer) = AList.delete tid (pw_tokens ?s)"
    "pw_tokens (wd_wallets st' payee) = pw_tokens ?r @ [(tid, check_lifecycle_reset t' (pw_pubkey_hex ?r))]"
    using execute_effect [OF assms(1,2) run] by auto
  moreover have "tid \<notin> dict_keys (pw_tokens ?r)"
    using assms(2,3) by (force simp: pair_ok_def dest: map_of_SomeD)
  then have "map_of (pw_tokens ?r) tid = None" by (simp add: map_of_eq_None_iff)
  ultimately show ?thesis
    using run rec execute_balance [OF assms(1,2) run assms(3)]
    by (intro exI [of _ rec] exI [of _ t'] exI [of _ st'])
      (simp add: t' dict_simps map_add_def handed_over_def del: map_of_eq_Some_iff)
qed

text \<open>Two wallets on an encrypted link: payer 0 with a token of 100, payee 1 with one of 40.\<close>

lemma demo_pair:
  obtains st t c where "pair_ok toy_crypto 0 1 st" "pc_encrypt (wd_channel st)"
    "pw_tokens (wd_wallets st 0) = [(''t1'', t)]" "pk_denomination t = fl_of_int 100"
    "pw_tokens (wd_wallets st 1) = [(''t2'', c)]" "pk_denomination c = fl_of_int 40"
    "\<forall>x \<in> {t, c}. pk_issued_at x = 640 \<and> pk_hop_count x = 0 \<and> pk_chain_hash x = []"
    "pk_transfer_history t = [to_hex (replicate 32 2)]" "pk_transfer_history c = [to_hex (replicate 32 3)]"
    "pk_owner_pubkey_hex t = to_hex (replicate 32 2)" "pk_owner_pubkey_hex c = to_hex (replicate 32 3)"
    "pw_pubkey_hex (wd_wallets st 0) = to_hex (replicate 32 2)" "pw_pubkey_hex (wd_wallets st 1) = to_hex (replicate 32 3)"
    "\<forall>a \<in> {0, 1}. pw_nonces (wd_wallets st a) = {} \<and> ps_policy (pw_state (wd_wallets st a)) = pkg_default_policy"
proof -
  obtain w0 t where t: "new_pkg_wallet toy_crypto (replicate 32 2) 0 None = Inr w0"
    "pkg_issue_token toy_crypto ''t1'' 640 (fl_of_int 100) w0 = Inr (t, with_tokens [(''t1'', t)] w0)"
    "pkg_token_ok toy_crypto (to_hex (replicate 32 2)) ''t1'' t" "pk_denomination t = fl_of_int 100" "pk_issued_at t = 640"
    "pk_hop_count t = 0" "pk_transfer_history t = [to_hex (replicate 32 2)]" "pk_chain_hash t = []"
    "pw_pubkey_hex w0 = to_hex (replicate 32 2)" "pw_nonces w0 = {}" "ps_policy (pw_state w0) = pkg_default_policy"
    by (rule demo_pkg_wallet [of 2 "''t1''" "fl_of_int 100"])
  obtain w1 c where c: "new_pkg_wallet toy_crypto (replicate 32 3) 0 None = Inr w1"
    "pkg_issue_token toy_crypto ''t2'' 640 (fl_of_int 40) w1 = Inr (c, with_tokens [(''t2'', c)] w1)"
    "pkg_token_ok toy_crypto (to_hex (replicate 32 3)) ''t2'' c" "pk_denomination c = fl_of_int 40" "pk_issued_at c = 640"
    "pk_hop_count c = 0" "pk_transfer_history c = [to_hex (replicate 32 3)]" "pk_chain_hash c = []"
    "pw_pubkey_hex w1 = to_hex (replicate 32 3)" "pw_nonces w1 = {}" "ps_policy (pw_state w1) = pkg_default_policy"
    by (rule demo_pkg_wallet [of 3 "''t2''" "fl_of_int 40"])
  have reach: "pkg_reachable toy_crypto w'" if "new_pkg_wallet toy_crypto seed 0 None = Inr w" "length seed = 32"
    "pkg_issue_token toy_crypto i n d w = Inr (x, w')" for w w' seed i n d x
    using that r_into_rtranclp [of "pkg_step toy_crypto" w w'] pkg_step.issue unfolding pkg_reachable_def by blast
  let ?st = "\<lparr>wd_wallets = (\<lambda>a. if a = 0 then with_tokens [(''t1'', t)] w0 else with_tokens [(''t2'', c)] w1),
      wd_channel = \<lparr>pc_encrypt = True, pc_previous_packet_size = None, pc_session_key = Some (replicate 32 0),
        pc_session_nonce_12 = Some (replicate 12 0)\<rparr>\<rparr>"
  have "pair_ok toy_crypto 0 1 ?st"
    using reach [OF t(1) _ t(2)] reach [OF c(1) _ c(2)] by (simp add: pair_ok_def channel_ok_def)
  with t c show thesis by (intro that [of ?st t c]) (auto simp: pkg_token_ok_def)
qed

lemma payment_arrives_witness:
  "\<exists>st rec t st'. pc_encrypt (wd_channel st) \<and>
     pkg_execute_transfer toy_crypto 704 (to_hex (replicate 16 7)) 0 1 ''t1'' (fl_of_int 100) st = (Inr (rec, t), st') \<and>
     pkg_balance (wd_wallets st' 0) = 0 \<and> pkg_balance (wd_wallets st' 1) = fl_of_int 140"
proof -
  obtain st t c where d: "pair_ok toy_crypto 0 1 st" "pc_encrypt (wd_channel st)"
    "pw_tokens (wd_wallets st 0) = [(''t1'', t)]" "pk_denomination t = fl_of_int 100"
    "pw_tokens (wd_wallets st 1) = [(''t2'', c)]" "pk_denomination c = fl_of_int 40"
    "\<forall>x \<in> {t, c}. pk_issued_at x = 640 \<and> pk_hop_count x = 0 \<and> pk_chain_hash x = []"
    "pk_transfer_history t = [to_hex (replicate 32 2)]" "pk_owner_pubkey_hex t = to_hex (replicate 32 2)"
    "pw_pubkey_hex (wd_wallets st 0) = to_hex (replicate 32 2)"
    "\<forall>a \<in> {0, 1}. pw_nonces (wd_wallets st a) = {} \<and> ps_policy (pw_state (wd_wallets st a)) = pkg_default_policy"
    by (rule demo_pair)
  have "\<exists>rec t' st'. pkg_execute_transfer toy_crypto 704 (to_hex (replicate 16 7)) 0 1 ''t1'' (fl_of_int 100) st =
      (Inr (rec, t'), st') \<and> px_amount rec = fl_of_int 100 \<and> ''t1'' \<notin> dict_keys (pw_tokens (wd_wallets st' 0)) \<and>
    (\<exists>t''. map_of (pw_tokens (wd_wallets st' 1)) ''t1'' = Some t'' \<and>
       pk_owner_pubkey_hex t'' = pw_pubkey_hex (wd_wallets st 1) \<and> pk_denomination t'' = pk_denomination t) \<and>
    pkg_balance (wd_wallets st' 0) = pkg_balance (wd_wallets st 0) - pk_denomination t \<and>
    pkg_balance (wd_wallets st' 1) = pkg_balance (wd_wallets st 1) + pk_denomination t"
    by (rule payment_arrives)
      (use d in \<open>simp_all add: transferable_def check_lifecycle_reset_def pkg_default_policy_def pkg_balance_def\<close>)
  with d show ?thesis by (force simp: pkg_balance_def)
qed

lemma swap_conserves_witness:
  "\<exists>st st' fresh. execute_swap toy_crypto fresh 0 1 ''t1'' (fl_of_int 60) st = (Inr (), st') \<and>
     pkg_balance (wd_wallets st' 0) = fl_of_int 40 \<and> pkg_balance (wd_wallets st' 1) = fl_of_int 100 \<and>
     dict_keys (pw_tokens (wd_wallets st' 0)) = {''t2''} \<and> dict_keys (pw_tokens (wd_wallets st' 1)) = {''t1''}"
proof -
  obtain st t c where d: "pair_ok toy_crypto 0 1 st" "pc_encrypt (wd_channel st)"
    "pw_tokens (wd_wallets st 0) = [(''t1'', t)]" "pk_denomination t = fl_of_int 100"
    "pw_tokens (wd_wallets st 1) = [(''t2'', c)]" "pk_denomination c = fl_of_int 40"
    and x: "\<forall>x \<in> {t, c}. pk_issued_at x = 640 \<and> pk_hop_count x = 0 \<and> pk_chain_hash x = []"
    and h: "pk_transfer_history t = [to_hex (replicate 32 2)]" "pk_transfer_history c = [to_hex (replicate 32 3)]"
    "pk_owner_pubkey_hex t = to_hex (replicate 32 2)" "pk_owner_pubkey_hex c = to_hex (replicate 32 3)"
    "pw_pubkey_hex (wd_wallets st 0) = to_hex (replicate 32 2)" "pw_pubkey_hex (wd_wallets st 1) = to_hex (replicate 32 3)"
    and n: "\<forall>a \<in> {0, 1}. pw_nonces (wd_wallets st a) = {} \<and> ps_policy (pw_state (wd_wallets st a)) = pkg_default_policy"
    by (rule demo_pair)
  let ?n = "to_hex (replicate 16 7)"
  note defs = transferable_def check_lifecycle_reset_def pkg_default_policy_def pkg_balance_def
  have K: "dpc_crypto_ok toy_crypto" by simp
  have "\<exists>rec h. pkg_execute_transfer toy_crypto 704 ?n 0 1 ''t1'' (fl_of_int 100) st =
      (Inr (rec, handed_over (pw_pubkey_hex (wd_wallets st 1)) h
         (check_lifecycle_reset t (pw_pubkey_hex (wd_wallets st 0)))), paid 0 1 ''t1'' ?n rec
         (handed_over (pw_pubkey_hex (wd_wallets st 1)) h
         (check_lifecycle_reset t (pw_pubkey_hex (wd_wallets st 0)))) st) \<and> px_amount rec = fl_of_int 100"
    by (rule honest_payment) (use d x h n in \<open>simp_all add: defs\<close>)
  then obtain rec t' st1 where pay: "pkg_execute_transfer toy_crypto 704 ?n 0 1 ''t1'' (fl_of_int 100) st = (Inr (rec, t'), st1)"
    and st1: "st1 = paid 0 1 ''t1'' ?n rec t' st" by blast
  from execute_effect [OF K d(1) pay] have pair: "pair_ok toy_crypto 1 0 st1"
    and tokens: "pw_tokens (wd_wallets st1 0) = []" "\<exists>v. pw_tokens (wd_wallets st1 1) = [(''t2'', c), (''t1'', v)]"
    using pair_ok_sym d by auto
  have keys: "pw_pubkey_hex (wd_wallets st1 a) = pw_pubkey_hex (wd_wallets st a)"
    "ps_policy (pw_state (wd_wallets st1 a)) = ps_policy (pw_state (wd_wallets st a))"
    "(''t2'', ?n) \<notin> pw_nonces (wd_wallets st1 0)" if "a \<in> {0, 1}" for a
    using that n by (auto simp: st1 paid_def received_def)
  have "map_of (pw_tokens (wd_wallets st1 1)) ''t2'' = Some c" using tokens(2) by auto
  from honest_payment [OF K pair this, of 704 "fl_of_int 40" ?n]
  obtain rec2 t2 st' where return: "pkg_execute_transfer toy_crypto 704 ?n 1 0 ''t2'' (fl_of_int 40) st1 = (Inr (rec2, t2), st')"
    using d x h n tokens(1) keys [of 0] keys [of 1] by (auto simp: defs)
  have id: "pk_token_id c = ''t2''"
    using pkg_inv_entry [OF pkg_reachable_ok(1), of toy_crypto "wd_wallets st 1" "''t2''" c] d(1,5)
    by (simp add: pair_ok_def pkg_token_ok_def)
  have swap: "execute_swap toy_crypto ((704, ?n), (704, ?n)) 0 1 ''t1'' (fl_of_int 60) st = (Inr (), st')"
    using pay return id d by (simp add: execute_swap_def get_token_for_swap_def)
  have "map_of (pw_tokens (wd_wallets st 0)) ''t1'' = Some t" by (simp add: d)
  from swap_conserves [OF K d(1) this swap] d
  have "pkg_balance (wd_wallets st' 0) = fl_of_int 40" "pkg_balance (wd_wallets st' 1) = fl_of_int 100"
    "dict_keys (pw_tokens (wd_wallets st' 0)) = {''t2''}" "dict_keys (pw_tokens (wd_wallets st' 1)) = {''t1''}"
    using id by (auto simp: pkg_balance_def split: if_splits)
  with swap show ?thesis by blast
qed

section \<open>Gaps\<close>

text \<open>
  A payment that the payee rejects is not undone: the payer's wallet has already given the token
  away, so its value is lost to both.
\<close>

lemma rejected_payment_loses_token:
  assumes "dpc_crypto_ok K" and "channel_ok (wd_channel st)" and "payer \<noteq> payee"
    and "pkg_send_token K now n tid (pw_pubkey_hex (wd_wallets st payee)) amount (wd_wallets st payer) = (Inr (rec, t), w)"
    and "pkg_receive_token K t rec (wd_wallets st payee) = Inl e"
  shows "\<exists>st'. pkg_execute_transfer K now n payer payee tid amount st = (Inl e, st') \<and>
    map_of (pw_tokens (wd_wallets st' payer)) tid = None \<and> wd_wallets st' payee = wd_wallets st payee"
proof -
  have "map_of (pw_tokens w) tid = None"
    using assms(4)
    by (cases rule: pkg_send_cases [of K now n tid "pw_pubkey_hex (wd_wallets st payee)" amount "wd_wallets st payer"])
      (auto simp: dict_simps)
  with assms(3-5) show ?thesis
    by (simp add: pkg_execute_transfer_def transmit_delivers [OF assms(1,2)] set_wallet_def)
qed

text \<open>With no smaller token the payee gives back more than the change: paying 60 with 100 costs it 10.\<close>

lemma swap_overpays_change:
  assumes "pw_tokens w = [(i, c)]" and "pk_denomination c = fl_of_int 50"
  shows "get_token_for_swap (fl_of_int 100 - fl_of_int 60) w = Some c"
  using assms by (simp add: get_token_for_swap_def)

end
