(* ===== verification/Spec2Isabelle.thy ===== *)
theory Spec2Isabelle
  imports CashProtocol Reconciliation OfflineDemo DpcStore DpcScenarios BleStub PkgLedger PkgChannel
begin

text \<open>
  A verification development of the offline digital cash prototype under \<open>src/\<close>. The repository
  holds several implementations of one idea: an issuer signs bearer tokens, wallets hand them on
  offline by signing transfer records that are linked by hashes, and a ledger settles them when
  someone is online again, the first valid claim on a token winning.

  \<^bold>\<open>Foundations.\<close>
  \<^item> \<open>Prelude\<close>: Python values (\<open>str\<close> as 8-bit strings, \<open>dict\<close> as association lists in insertion
    order), exceptions as the left summand of a sum with \<open>bind_res\<close> for sequencing, and the fact
    collection \<open>dict_simps\<close>. An operation that can raise after it has changed the state returns the
    state beside the result.
  \<^item> \<open>PyCodec\<close>, \<open>PyNumber\<close>, \<open>Json\<close>, \<open>Sha256\<close>, \<open>Sha512\<close>, \<open>PyDatetime\<close>: UTF-8, hexadecimal and Base64,
    decimal numerals and the \<open>repr\<close> of floats with up to six decimals, \<open>json.dumps\<close> and \<open>json.loads\<close>,
    SHA-256, SHA-512 and \<open>datetime\<close>, all concrete, with their round trips. The parser of JSON runs
    on fuel, twice the length of the text; \<open>scan_fuel_enough\<close> shows that more changes nothing.
  \<^item> \<open>Signatures\<close>: \<open>crypto/signatures.py\<close> and \<open>crypto/crypto_utils.py\<close>. Ed25519 is a parameter; what
    the code relies on is \<open>ed_ok\<close>. Locale \<open>signature_scheme\<close>, interpreted on the Base64 keys,
    the hexadecimal keys, and those of \<open>src/dpc\<close>.
  \<^item> \<open>HashChain\<close>: locale \<open>hash_chain\<close>: the last record of a linked list determines the list up to a
    hash collision; interpreted on the records of \<open>TransferChain\<close> and of \<open>DpcChain\<close>.
  \<^item> \<open>Programs\<close>: scripts as programs over the state of all their objects, run by rewriting
    (\<open>run_steps\<close>); used by \<open>OfflineDemo\<close> and \<open>DpcScenarios\<close>.
  \<^item> \<open>Settlement\<close>: locales \<open>settlement\<close> and \<open>first_claim\<close> (which extends it), the contract of a
    ledger; interpreted on the canonical engine, the offline server, and (\<open>settlement\<close> only) on the
    replay protection of the offline wallet. Locale \<open>first_owner\<close>, the contract of a ledger that
    remembers owners and lets them claim again; interpreted on the ledgers of \<open>src/dpc\<close> and
    \<open>src/dpc_poc\<close>.

  \<^bold>\<open>The canonical stack.\<close>
  \<^item> \<open>TransferChain\<close> (\<open>digital_token/transfer_chain.py\<close>) and \<open>TokenModel\<close>
    (\<open>digital_token/token_model.py\<close>): records, tokens, \<open>append_transfer\<close> and \<open>validate_chain\<close>. The
    lemmas turn validation into a condition on the chain, and show that a transfer hands over
    ownership, that the last record seals the history, and that nobody moves the token of an
    owner who has not signed.
  \<^item> \<open>CashWallet\<close> (\<open>wallet/wallet.py\<close>): the two registers, JSON forms, the exact coin search (its
    result is characterised as optimal), the invariant of every reachable wallet.
  \<^item> \<open>CashProtocol\<close> (\<open>protocol/transfer_protocol.py\<close>, \<open>payment_session.py\<close>, \<open>cash_payment.py\<close>,
    \<open>scripts/run_demo.py\<close>): the channel, sessions with change and rollback; atomicity,
    conservation of value, and success of an exact payment.
  \<^item> \<open>Reconciliation\<close> (\<open>issuer/reconciliation.py\<close>): the settlement engine as a refinement of the
    abstract ledger.

  \<^bold>\<open>The offline proof of concept.\<close>
  \<^item> \<open>PocModels\<close> (\<open>digital_token/poc_models.py\<close>, \<open>protocol/policy.py\<close>), \<open>OfflineWallet\<close>
    (\<open>wallet/offline_wallet.py\<close>): policy-enforcing wallet; balance cap, replay protection, delivery.
  \<^item> \<open>Heartbeat\<close> and \<open>ProxySync\<close> (\<open>protocol/proxy_sync.py\<close>), \<open>ReconServer\<close> (\<open>issuer/issuer.py\<close>,
    \<open>issuer/reconciliation_server.py\<close>): heartbeats, settlement, revocation, recovery and re-issue,
    with the invariant of every reachable server.
  \<^item> \<open>NetworkSim\<close> (\<open>crypto/session.py\<close>, \<open>protocol/network_simulator.py\<close>, \<open>make_wallet\<close> of
    \<open>main_demo.py\<close>): bundles survive the wire, encryption is transparent.
  \<^item> \<open>OfflineDemo\<close> (\<open>main_demo.py\<close>): the script as a program over the issuer and five wallets, with what it
    prints as its result; the exact output, for all keys, identifiers and times.

  \<^bold>\<open>The stack of \<open>src/dpc\<close>.\<close>
  \<^item> \<open>DpcCrypto\<close> (\<open>constants.py\<close>, \<open>exceptions.py\<close>, \<open>crypto_utils.py\<close>): the class hierarchy of
    exceptions as a datatype with a predicate per base class; the package's primitives as the record
    \<open>dpc_crypto\<close> with what is relied on as \<open>dpc_crypto_ok\<close>.
  \<^item> \<open>DpcToken\<close> and \<open>DpcChain\<close> (\<open>token_model.py\<close>): tokens, records, receipts, \<open>validate_integrity\<close>;
    validation characterised, JSON forms of tokens, records and receipts.
  \<^item> \<open>DpcWallet\<close> (\<open>wallet.py\<close>): register and wallet; rollback of a failed payment, invariant of
    reachable wallets under receiving, sending and swapping, delivery.
  \<^item> \<open>DpcLedger\<close> (\<open>reconciliation_engine.py\<close>): first valid claim and blacklisting.
  \<^item> \<open>DpcStore\<close>: \<open>save\<close> and \<open>load\<close> of register and ledger; a reloaded ledger settles the same.
  \<^item> \<open>DpcBle\<close> (\<open>ble_session_simulator.py\<close>): handshake, encryption, delivery.
  \<^item> \<open>DpcScenarios\<close> (\<open>run_tests.py\<close>): the eight functional tests as programs over a world of one ledger
    and its wallets, with an invariant of worlds and of a token that travels; all tests pass, whatever
    the primitives, keys, nonces and times.
  \<^item> \<open>BleStub\<close> (\<open>mobile/ble_adapter_stub.py\<close>): in-memory adapters over a store of objects, since they
    refer to each other; a connection is a queue.

  \<^bold>\<open>The package \<open>src/dpc_poc/dpc\<close>.\<close> Amounts and times are floats here. They are modelled as whole
  numbers of 64ths below \<open>2 ^ 53\<close>, on which the arithmetic of doubles is exact (\<open>PkgCrypto\<close>).
  \<^item> \<open>PkgCrypto\<close> (\<open>crypto.py\<close>): the big-endian encoding of a double, injective; the conversion of
    signing keys to key agreement keys, concrete and specified modulo the prime of the curve.
  \<^item> \<open>PkgTransfer\<close> (\<open>models.py\<close>, \<open>transfer.py\<close>): records and the hash-chained transfer; what is built
    verifies, and the hashed payload binds its fields.
  \<^item> \<open>PkgWallet\<close> (\<open>wallet.py\<close>): the wallet as a step relation with its invariant, protection against
    replays, and the exceptions it raises.
  \<^item> \<open>PkgLedger\<close> (\<open>reconciliation.py\<close>, \<open>proxy_sync.py\<close>): the ledger's books are the first valid
    submission of every token.
  \<^item> \<open>PkgChannel\<close> (\<open>ble_sim.py\<close>): link, payment and swap over a store of wallets; honest payments arrive,
    payments and swaps conserve money.

  \<^bold>\<open>Conventions.\<close> Fresh values (keys, nonces, identifiers, clock readings) are arguments of the
  operations that draw them. Times are whole seconds, microseconds or 64ths. Theorems about
  signatures assume only that honest signatures verify; where they speak about forgery they say
  which signature must exist. Theorems about hashes name the collision they exclude. A theorem in
  a section named after gaps shows behaviour that the program allows and probably does not mean to.
  Witnesses apply the theorems to toy primitives that satisfy the assumptions.

  \<^bold>\<open>Types and numbers.\<close> Records have the annotated types of the dataclasses. Where the code builds an
  object from JSON without checking types (\<open>Token(**data)\<close>, \<open>_token_from_payload\<close>, the \<open>from_dict\<close> and
  \<open>load\<close> functions), a field of another type raises \<open>TypeError\<close> in the model while it is read, here
  named \<open>record_from_json\<close>, \<open>token_from_payload\<close>, \<open>dk_from_kwargs\<close>, \<open>pkg_token_of_kwargs\<close> and
  \<open>pkg_transfer_of_kwargs\<close>; Python stores any value and fails, if at all, where it is used. Statements
  about malformed input are about malformed contents of fields of the right type. Sums and
  differences of the float amounts of \<open>src/dpc_poc/dpc\<close> (\<open>pkg_balance\<close>, \<open>execute_swap\<close>) are exact on
  unbounded multiples of 1/64; doubles agree with them while amounts and sums stay below \<open>2 ^ 53\<close>
  64ths, and round for amounts such as 0.1. \<open>same_register\<close> of \<open>DpcWallet\<close> compares a restored register as
  a mapping: \<open>sort_keys\<close> on saving changes the order in which \<open>list_tokens\<close> lists it. In \<open>OfflineDemo\<close>,
  \<open>time.time()\<close> and \<open>datetime.now()\<close> of one call are one clock reading (\<open>stamp_at\<close>).

  \<^bold>\<open>Not modelled.\<close> The tests under \<open>tests/\<close> and \<open>dpc_poc/tests/\<close>; captions that a script prints; floats
  outside the ranges named above and JSON numbers with an exponent or more than six decimals; code
  points above 255.
\<close>

end
